(* ===== verification/Prelude.thy ===== *)
theory Prelude
  imports Main "HOL-Library.Word" "HOL-Library.Char_ord" "HOL-Library.List_Lexorder"
begin

text \<open>
  Shared vocabulary of the development: the types that stand for the C++ scalar types,
  the parts of the C++ standard library the sources use (\<^verbatim>\<open>std::string::find\<close>,
  \<^verbatim>\<open>substr\<close>, \<^verbatim>\<open>std::to_string\<close>, \<^verbatim>\<open>std::stoll\<close>, \<^verbatim>\<open>std::isalnum\<close>), the outcomes of
  calls to code outside the repository, generic lemmas on lists and maps, and the locale
  of invariant-preserving machines that several components interpret.
\<close>

section \<open>Types and theorem collections\<close>

type_synonym byte = "8 word"
type_synonym uid = int      \<comment> \<open>\<^verbatim>\<open>int64_t\<close> identifiers: only compared and printed\<close>
type_synonym ms = int       \<comment> \<open>\<^verbatim>\<open>int64_t\<close> millisecond or second time stamps\<close>

named_theorems svc_defs \<open>definitions of service operations, unfolded in branch analyses\<close>
named_theorems tbl_defs \<open>definitions of single table statements\<close>
named_theorems str_simps \<open>string library facts\<close>

text \<open>
  Every call that leaves the repository (a pool handing out a connection, a statement, a
  commit) can fail. An operation takes the outcomes as an argument: \<open>ok c\<close> says that the
  call \<open>c\<close> of that operation succeeds. Theorems quantify over all outcomes.
\<close>

datatype call = Acquire | Begin | Query nat | Prepare nat | Exec nat | Commit

type_synonym outcome = "call \<Rightarrow> bool"

section \<open>C++ character classes and strings\<close>

definition is_space :: "char \<Rightarrow> bool" where
  "is_space c \<longleftrightarrow> (let n = (of_char c :: nat) in n = 32 \<or> (9 \<le> n \<and> n \<le> 13))"

definition is_digit :: "char \<Rightarrow> bool" where
  "is_digit c \<longleftrightarrow> (let n = (of_char c :: nat) in 48 \<le> n \<and> n \<le> 57)"

definition is_alpha :: "char \<Rightarrow> bool" where
  "is_alpha c \<longleftrightarrow> (let n = (of_char c :: nat) in (65 \<le> n \<and> n \<le> 90) \<or> (97 \<le> n \<and> n \<le> 122))"

definition is_alnum :: "char \<Rightarrow> bool" where
  "is_alnum c \<longleftrightarrow> is_alpha c \<or> is_digit c"

text \<open>\<open>find_char c s\<close> is \<^verbatim>\<open>s.find(c)\<close> with \<^verbatim>\<open>npos\<close> as \<open>None\<close>.\<close>

fun find_char :: "char \<Rightarrow> string \<Rightarrow> nat option" where
  "find_char c [] = None"
| "find_char c (x # xs) = (if x = c then Some 0 else map_option Suc (find_char c xs))"

text \<open>\<open>find_str p s\<close> is \<^verbatim>\<open>s.find(p)\<close> for a pattern string.\<close>

fun starts_with :: "string \<Rightarrow> string \<Rightarrow> bool" where
  "starts_with [] s = True"
| "starts_with (p # ps) [] = False"
| "starts_with (p # ps) (x # xs) = (p = x \<and> starts_with ps xs)"

fun find_str :: "string \<Rightarrow> string \<Rightarrow> nat option" where
  "find_str p [] = (if p = [] then Some 0 else None)"
| "find_str p (x # xs) =
     (if starts_with p (x # xs) then Some 0 else map_option Suc (find_str p xs))"

lemma find_char_None_iff [str_simps]: "find_char c s = None \<longleftrightarrow> c \<notin> set s"
  by (induction s) auto

lemma find_char_append_notin [str_simps]:
  "c \<notin> set xs \<Longrightarrow> find_char c (xs @ c # ys) = Some (length xs)"
  by (induction xs) auto

lemma find_char_SomeD:
  "find_char c s = Some n \<Longrightarrow> n < length s \<and> s ! n = c \<and> c \<notin> set (take n s)"
proof (induction s arbitrary: n)
  case Nil
  then show ?case by simp
next
  case (Cons x xs)
  show ?case
  proof (cases "x = c")
    case True
    with Cons.prems show ?thesis by simp
  next
    case False
    with Cons.prems obtain m where "find_char c xs = Some m" "n = Suc m" by auto
    with Cons.IH False show ?thesis by auto
  qed
qed

lemma find_char_split:
  assumes "find_char c s = Some n"
  shows "s = take n s @ c # drop (Suc n) s"
  using find_char_SomeD [OF assms] by (metis id_take_nth_drop)

lemma starts_with_iff: "starts_with p s \<longleftrightarrow> (\<exists>r. s = p @ r)"
  by (induction p s rule: starts_with.induct) auto

text \<open>
  The loop by which the sources cut a string at a separator, and \<^verbatim>\<open>std::getline\<close>: the pieces
  between the separators; an empty piece at the end is not visited.
\<close>

function segments :: "char \<Rightarrow> string \<Rightarrow> string list" where
  "segments c s =
     (if s = [] then []
      else case find_char c s of
             None \<Rightarrow> [s]
           | Some n \<Rightarrow> take n s # segments c (drop (n + 1) s))"
  by pat_completeness auto
termination by (relation "measure (\<lambda>(c, s). length s)") auto

declare segments.simps [simp del]

lemma segments_Nil [simp]: "segments c [] = []"
  by (simp add: segments.simps)

lemma segments_last: "s \<noteq> [] \<Longrightarrow> c \<notin> set s \<Longrightarrow> segments c s = [s]"
  by (simp add: segments.simps find_char_None_iff [THEN iffD2])

lemma segments_step: "c \<notin> set x \<Longrightarrow> segments c (x @ c # s) = x # segments c s"
  by (subst segments.simps) (simp add: find_char_append_notin)

lemma segments_free: "x \<in> set (segments c s) \<Longrightarrow> c \<notin> set x"
proof (induction c s rule: segments.induct)
  case (1 c s)
  show ?case
  proof (cases "find_char c s")
    case None
    with 1(2) show ?thesis by (auto simp: segments.simps [of c s] find_char_None_iff [THEN iffD1] split: if_splits)
  next
    case (Some n)
    then have "s \<noteq> []" "c \<notin> set (take n s)" using find_char_SomeD [OF Some] by auto
    with 1 Some show ?thesis by (auto simp: segments.simps [of c s])
  qed
qed

section \<open>Decimal printing and parsing\<close>

definition digit_char :: "nat \<Rightarrow> char" where
  "digit_char d = char_of (48 + d)"

fun nat_digits :: "nat \<Rightarrow> string" where
  "nat_digits n = (if n < 10 then [digit_char n] else nat_digits (n div 10) @ [digit_char (n mod 10)])"

declare nat_digits.simps [simp del]

text \<open>\<^verbatim>\<open>std::to_string\<close> on integers.\<close>

definition to_string :: "int \<Rightarrow> string" where
  "to_string i = (if i < 0 then CHR ''-'' # nat_digits (nat (- i)) else nat_digits (nat i))"

definition digit_val :: "char \<Rightarrow> nat" where
  "digit_val c = of_char c - 48"

definition digits_val :: "string \<Rightarrow> nat" where
  "digits_val ds = foldl (\<lambda>a c. 10 * a + digit_val c) 0 ds"

definition in_int64 :: "int \<Rightarrow> bool" where
  "in_int64 v \<longleftrightarrow> - (2 ^ 63) \<le> v \<and> v < 2 ^ 63"

definition strip_sign :: "string \<Rightarrow> bool \<times> string" where
  "strip_sign s = (case s of [] \<Rightarrow> (False, [])
     | c # r \<Rightarrow> if c = CHR ''-'' then (True, r) else if c = CHR ''+'' then (False, r) else (False, s))"

text \<open>
  \<^verbatim>\<open>std::stoll\<close>: leading white space and a sign are skipped, the longest digit prefix is
  read and what follows is ignored; no digit (\<^verbatim>\<open>invalid_argument\<close>) and a value outside
  \<^verbatim>\<open>int64_t\<close> (\<^verbatim>\<open>out_of_range\<close>) are \<open>None\<close>.
\<close>

definition stoll :: "string \<Rightarrow> int option" where
  "stoll s = (let (neg, u) = strip_sign (dropWhile is_space s); ds = takeWhile is_digit u
     in if ds = [] then None
        else let v = (if neg then - int (digits_val ds) else int (digits_val ds))
             in if in_int64 v then Some v else None)"

text \<open>\<^verbatim>\<open>std::stoi\<close> reads the same and has the range of a 32 bit \<^verbatim>\<open>int\<close>.\<close>

definition stoi :: "string \<Rightarrow> int option" where
  "stoi s = (case stoll s of None \<Rightarrow> None | Some v \<Rightarrow> if - (2 ^ 31) \<le> v \<and> v < 2 ^ 31 then Some v else None)"

text \<open>\<^verbatim>\<open>std::atoll\<close>: no digits give 0, and the value is cut to the range of the type.\<close>

definition atoll :: "string \<Rightarrow> int" where
  "atoll s = (let (neg, u) = strip_sign (dropWhile is_space s); v = int (digits_val (takeWhile is_digit u))
     in if neg then max (- (2 ^ 63)) (- v) else min (2 ^ 63 - 1) v)"

lemma of_char_digit_char: "d < 10 \<Longrightarrow> (of_char (digit_char d) :: nat) = 48 + d"
  by (simp add: digit_char_def)

lemma is_digit_digit_char [simp]: "d < 10 \<Longrightarrow> is_digit (digit_char d)"
  by (simp add: is_digit_def of_char_digit_char Let_def)

lemma digit_val_digit_char [simp]: "d < 10 \<Longrightarrow> digit_val (digit_char d) = d"
  by (simp add: digit_val_def of_char_digit_char)

lemma nat_digits_ne [simp]: "nat_digits n \<noteq> []"
  by (subst nat_digits.simps) simp

lemma nat_digits_is_digit: "c \<in> set (nat_digits n) \<Longrightarrow> is_digit c"
proof (induction n rule: nat_digits.induct)
  case (1 n)
  show ?case
  proof (cases "n < 10")
    case True
    with "1.prems" show ?thesis by (simp add: nat_digits.simps [of n])
  next
    case False
    with "1.prems" have "c = digit_char (n mod 10) \<or> c \<in> set (nat_digits (n div 10))"
      by (simp add: nat_digits.simps [of n])
    with "1.IH" False show ?thesis by auto
  qed
qed

lemma digits_val_snoc: "digits_val (ds @ [c]) = 10 * digits_val ds + digit_val c"
  by (simp add: digits_val_def)

lemma digits_val_nat_digits [simp]: "digits_val (nat_digits n) = n"
proof (induction n rule: nat_digits.induct)
  case (1 n)
  show ?case
  proof (cases "n < 10")
    case True
    then show ?thesis by (simp add: nat_digits.simps [of n] digits_val_def)
  next
    case False
    with 1 show ?thesis by (simp add: nat_digits.simps [of n] digits_val_snoc)
  qed
qed

lemma takeWhile_digits [simp]: "takeWhile is_digit (nat_digits n) = nat_digits n"
  by (simp add: takeWhile_eq_all_conv nat_digits_is_digit)

lemma nat_digits_hd: "is_digit (hd (nat_digits n))"
  by (rule nat_digits_is_digit [of _ n]) (simp add: hd_in_set)

lemma digit_classes:
  "is_digit c \<Longrightarrow> \<not> is_space c \<and> c \<noteq> CHR ''-'' \<and> c \<noteq> CHR ''+'' \<and> c \<noteq> CHR '':'' \<and> c \<noteq> CHR ''}''"
  by (auto simp: is_digit_def is_space_def Let_def)

lemma strip_sign_digits: "strip_sign (dropWhile is_space (nat_digits n)) = (False, nat_digits n)"
proof -
  obtain c r where n: "nat_digits n = c # r" by (cases "nat_digits n") auto
  with nat_digits_hd [of n] have "is_digit c" by simp
  with digit_classes [of c] n show ?thesis by (simp add: strip_sign_def)
qed

lemma not_space_minus [simp]: "\<not> is_space (CHR ''-'')"
  by (simp add: is_space_def)

lemma strip_sign_minus [simp]: "strip_sign (CHR ''-'' # s) = (True, s)"
  by (simp add: strip_sign_def)

lemma stoll_to_string [str_simps]: "in_int64 v \<Longrightarrow> stoll (to_string v) = Some v"
  by (auto simp: stoll_def to_string_def strip_sign_digits strip_sign_minus Let_def)

lemma to_string_ne [simp]: "to_string v \<noteq> []"
  by (simp add: to_string_def)

lemma nat_digits_inj: "nat_digits m = nat_digits n \<Longrightarrow> m = n"
  by (metis digits_val_nat_digits)

lemma to_string_inj [simp]: "to_string a = to_string b \<longleftrightarrow> a = b"
proof -
  have "CHR ''-'' # x \<noteq> nat_digits n" for x n
    using nat_digits_hd [of n] digit_classes by (metis list.sel(1))
  then show ?thesis
    by (auto simp: to_string_def dest!: nat_digits_inj split: if_splits)
       (metis)+
qed

lemma to_string_no_brace: "CHR ''}'' \<notin> set (to_string v)"
  using digit_classes nat_digits_is_digit by (auto simp: to_string_def)

lemma to_string_no_colon: "CHR '':'' \<notin> set (to_string v)"
  using digit_classes nat_digits_is_digit by (auto simp: to_string_def)

section \<open>Lists and finite maps\<close>

lemma append_sep_inj:
  assumes "c \<notin> set xs" "c \<notin> set xs'" "xs @ c # ys = xs' @ c # ys'"
  shows "xs = xs' \<and> ys = ys'"
  using assms
proof (induction xs arbitrary: xs')
  case Nil
  then show ?case by (cases xs') auto
next
  case (Cons x xs)
  then show ?case by (cases xs') auto
qed

text \<open>
  \<^verbatim>\<open>std::map\<close> and \<^verbatim>\<open>std::unordered_map\<close> values that the code iterates over are
  association lists with distinct keys; \<open>put\<close> and \<open>erase\<close> are assignment and erasure.
\<close>

fun put :: "'k \<Rightarrow> 'v \<Rightarrow> ('k \<times> 'v) list \<Rightarrow> ('k \<times> 'v) list" where
  "put k v [] = [(k, v)]"
| "put k v ((k', v') # xs) = (if k' = k then (k, v) # xs else (k', v') # put k v xs)"

definition erase :: "'k \<Rightarrow> ('k \<times> 'v) list \<Rightarrow> ('k \<times> 'v) list" where
  "erase k xs = filter (\<lambda>p. fst p \<noteq> k) xs"

lemma map_of_put [simp]: "map_of (put k v xs) = (map_of xs)(k \<mapsto> v)"
  by (induction k v xs rule: put.induct) auto

lemma map_of_erase [simp]: "map_of (erase k xs) = (map_of xs)(k := None)"
  by (induction xs) (auto simp: erase_def)

lemma set_keys_put: "fst ` set (put k v xs) = insert k (fst ` set xs)"
  by (induction k v xs rule: put.induct) auto

lemma distinct_put [simp]: "distinct (map fst xs) \<Longrightarrow> distinct (map fst (put k v xs))"
  by (induction k v xs rule: put.induct) (auto simp: set_keys_put)

lemma distinct_erase [simp]: "distinct (map fst xs) \<Longrightarrow> distinct (map fst (erase k xs))"
  unfolding erase_def by (induction xs) auto

definition uniq_keys :: "('k \<times> 'v) list \<Rightarrow> bool" where
  "uniq_keys xs \<longleftrightarrow> distinct (map fst xs)"

lemma uniq_keys_simps [simp]:
  "uniq_keys []" "uniq_keys xs \<Longrightarrow> uniq_keys (put k v xs)" "uniq_keys xs \<Longrightarrow> uniq_keys (erase k xs)"
  by (simp_all add: uniq_keys_def)

lemma uniq_keys_mem: "uniq_keys xs \<Longrightarrow> (k, v) \<in> set xs \<longleftrightarrow> map_of xs k = Some v"
  by (simp add: uniq_keys_def)

lemma map_of_None_erase: "map_of xs k = None \<Longrightarrow> erase k xs = xs"
  unfolding erase_def by (induction xs) (auto split: if_splits)

text \<open>
  \<^verbatim>\<open>std::map\<close>: an association list in strictly increasing key order. \<open>oput\<close> is
  \<^verbatim>\<open>m[k] = v\<close>, \<open>lower_bound\<close> the first entry whose key is not below \<open>h\<close>.
\<close>

fun oput :: "'k::linorder \<Rightarrow> 'v \<Rightarrow> ('k \<times> 'v) list \<Rightarrow> ('k \<times> 'v) list" where
  "oput k v [] = [(k, v)]"
| "oput k v ((k', v') # xs) =
     (if k < k' then (k, v) # (k', v') # xs
      else if k = k' then (k, v) # xs else (k', v') # oput k v xs)"

definition lower_bound :: "'k::linorder \<Rightarrow> ('k \<times> 'v) list \<Rightarrow> ('k \<times> 'v) option" where
  "lower_bound h xs = find (\<lambda>p. h \<le> fst p) xs"

abbreviation ordered :: "('k::linorder \<times> 'v) list \<Rightarrow> bool" where
  "ordered xs \<equiv> sorted_wrt (<) (map fst xs)"

lemma map_of_oput [simp]: "map_of (oput k v m) = (map_of m)(k \<mapsto> v)"
  by (induction k v m rule: oput.induct) auto

lemma fst_set_oput: "fst ` set (oput k v xs) = insert k (fst ` set xs)"
  by (induction k v xs rule: oput.induct) auto

lemma ordered_oput: "ordered xs \<Longrightarrow> ordered (oput k v xs)"
  by (induction k v xs rule: oput.induct) (auto simp: fst_set_oput)

lemma ordered_filter: "ordered xs \<Longrightarrow> ordered (filter P xs)"
  by (induction xs) auto

lemma set_oput_subset: "set (oput k v xs) \<subseteq> insert (k, v) (set xs)"
  by (induction k v xs rule: oput.induct) auto

lemma oput_ne [simp]: "oput k v xs \<noteq> []"
  by (induction k v xs rule: oput.induct) auto

lemma hd_oput: "hd (oput k v xs) = (if xs = [] \<or> k \<le> fst (hd xs) then (k, v) else hd xs)"
  by (cases xs) auto

lemma lower_bound_SomeD: "lower_bound h xs = Some p \<Longrightarrow> p \<in> set xs \<and> h \<le> fst p"
  by (auto simp: lower_bound_def find_Some_iff)

lemma lower_bound_oput:
  "ordered xs \<Longrightarrow> lower_bound h (oput k v xs) =
     (if h \<le> k \<and> (case lower_bound h xs of None \<Rightarrow> True | Some p \<Rightarrow> k \<le> fst p)
      then Some (k, v) else lower_bound h xs)"
proof (induction k v xs rule: oput.induct)
  case (1 k v)
  then show ?case by (simp add: lower_bound_def)
next
  case (2 k v k' v' xs)
  have above: "k' < fst p" if "lower_bound h xs = Some p" for p
    using lower_bound_SomeD [OF that] 2 by auto
  have Cons: "lower_bound h ((a, b) # ys) = (if h \<le> a then Some (a, b) else lower_bound h ys)"
    for a b and ys :: "('a \<times> 'b) list" by (simp add: lower_bound_def)
  show ?case using 2 above
    by (auto simp: Cons split: option.splits)
qed

lemma lower_bound_filter:
  "lower_bound h xs = Some p \<Longrightarrow> P p \<Longrightarrow> lower_bound h (filter P xs) = Some p"
  by (induction xs) (auto simp: lower_bound_def split: if_splits)

lemma lower_bound_filter_None: "lower_bound h xs = None \<Longrightarrow> lower_bound h (filter P xs) = None"
  by (induction xs) (auto simp: lower_bound_def split: if_splits)

section \<open>Machines with an invariant\<close>

text \<open>
  The contract most stateful components share: a start state, a step function over
  events, and a predicate every admitted step keeps. What a client gets from it is the
  predicate in every state of every run.
\<close>

locale guarded_machine =
  fixes init :: "'s"
    and step :: "'s \<Rightarrow> 'e \<Rightarrow> 's"
    and adm :: "'e \<Rightarrow> bool"
    and inv :: "'s \<Rightarrow> bool"
  assumes init_inv: "inv init"
    and step_inv: "adm e \<Longrightarrow> inv s \<Longrightarrow> inv (step s e)"
begin

lemma run_from_inv: "inv s \<Longrightarrow> list_all adm es \<Longrightarrow> inv (foldl step s es)"
  by (induction es arbitrary: s) (auto intro: step_inv)

lemma run_inv: "list_all adm es \<Longrightarrow> inv (foldl step init es)"
  by (rule run_from_inv [OF init_inv])

end

text \<open>The special case where every event is admitted.\<close>

locale inv_machine =
  fixes init :: "'s"
    and step :: "'s \<Rightarrow> 'e \<Rightarrow> 's"
    and inv :: "'s \<Rightarrow> bool"
  assumes init_inv: "inv init"
    and step_inv: "inv s \<Longrightarrow> inv (step s e)"

sublocale inv_machine \<subseteq> guarded: guarded_machine init step "\<lambda>e. True" inv
  by unfold_locales (auto intro: init_inv step_inv)

context inv_machine
begin

lemma run_from_inv: "inv s \<Longrightarrow> inv (foldl step s es)"
  by (rule guarded.run_from_inv) (simp_all add: list_all_iff)

lemma run_inv: "inv (foldl step init es)"
  by (rule run_from_inv [OF init_inv])

end

text \<open>
  A machine whose states stand for the states of a simpler one: what every run reaches is
  what the simpler machine reaches on the same events.
\<close>

locale refining_machine = inv_machine init step inv
  for init :: "'s" and step :: "'s \<Rightarrow> 'e \<Rightarrow> 's" and inv :: "'s \<Rightarrow> bool" +
  fixes sinit :: "'a"
    and sstep :: "'a \<Rightarrow> 'e \<Rightarrow> 'a"
    and abs :: "'s \<Rightarrow> 'a"
  assumes abs_init: "abs init = sinit"
    and abs_step: "inv s \<Longrightarrow> abs (step s e) = sstep (abs s) e"
begin

lemma run_from_refines: "inv s \<Longrightarrow> abs (foldl step s es) = foldl sstep (abs s) es"
  by (induction es arbitrary: s) (simp_all add: step_inv abs_step)

lemma run_refines: "abs (foldl step init es) = foldl sstep sinit es"
  by (simp add: run_from_refines [OF init_inv] abs_init)

end

end
