(* ===== verification/LogicClient.thy ===== *)
theory LogicClient
  imports Prelude
begin

text \<open>
  \<^verbatim>\<open>src/src/gateway/LogicClient.h\<close>: the gateway's client of one logic instance. The circuit
  breaker comes from another repository, so its operations are the parameter \<open>B\<close>; the gRPC
  call is the parameter \<open>rpc\<close>. Event frames go through the client's queue to the writer
  thread of \<^verbatim>\<open>streamLoop\<close>, one turn of which is \<open>writer_step\<close>.
\<close>

datatype grpc_code = OK | UNAVAILABLE | DEADLINE_EXCEEDED | OtherCode nat

type_synonym status = "grpc_code \<times> string"

record 'b breaker_lib =
  br_new :: 'b
  br_allow :: "'b \<Rightarrow> bool \<times> 'b"
  br_success :: "'b \<Rightarrow> 'b"
  br_failure :: "'b \<Rightarrow> 'b"

datatype gwevent = Hello string | ConnOpen uid string | ConnClose uid string | Heartbeat ms

record 'b lclient =
  lc_addr :: string
  lc_gatewayId :: string
  lc_breaker :: 'b
  lc_queue :: "gwevent list"
  lc_running :: bool

record msgreq =
  rq_trace_id :: string
  rq_instance :: string
  rq_routing_key :: string
  rq_uid :: uid
  rq_device_id :: string
  rq_conn_id :: string
  rq_payload :: string

type_synonym rpc = "string \<Rightarrow> msgreq \<Rightarrow> status \<times> string"

definition new_lclient :: "'b breaker_lib \<Rightarrow> string \<Rightarrow> string \<Rightarrow> 'b lclient" where
  "new_lclient B addr gatewayId =
     \<lparr>lc_addr = addr, lc_gatewayId = gatewayId, lc_breaker = br_new B, lc_queue = [], lc_running = False\<rparr>"

definition lc_start :: "'b lclient \<Rightarrow> 'b lclient" where
  "lc_start c = c\<lparr>lc_running := True\<rparr>"

definition healthy :: "'b breaker_lib \<Rightarrow> 'b lclient \<Rightarrow> bool \<times> 'b lclient" where
  "healthy B c = (let (h, b) = br_allow B (lc_breaker c) in (h, c\<lparr>lc_breaker := b\<rparr>))"

definition mk_request :: "'b lclient \<Rightarrow> ms \<Rightarrow> uid \<Rightarrow> string \<Rightarrow> string \<Rightarrow> string \<Rightarrow> msgreq" where
  "mk_request c nowMs u deviceId connId payload =
     \<lparr>rq_trace_id = connId @ ''-'' @ to_string nowMs, rq_instance = lc_gatewayId c,
      rq_routing_key = to_string u, rq_uid = u, rq_device_id = deviceId,
      rq_conn_id = connId, rq_payload = payload\<rparr>"

definition transport_error :: "status \<Rightarrow> bool" where
  "transport_error st \<longleftrightarrow> fst st = UNAVAILABLE \<or> fst st = DEADLINE_EXCEEDED"

text \<open>
  \<^verbatim>\<open>handleMessage\<close>: the status, the reply cell (written on success only), the client
  afterwards, and the addresses an RPC was issued to.
\<close>

definition lc_handleMessage ::
  "'b breaker_lib \<Rightarrow> rpc \<Rightarrow> ms \<Rightarrow> 'b lclient \<Rightarrow> uid \<Rightarrow> string \<Rightarrow> string \<Rightarrow> string \<Rightarrow> string
   \<Rightarrow> status \<times> string \<times> 'b lclient \<times> string list" where
  "lc_handleMessage B rpc nowMs c u deviceId connId payload reply =
     (let (allowed, b) = br_allow B (lc_breaker c); c1 = c\<lparr>lc_breaker := b\<rparr>
      in if \<not> allowed then ((UNAVAILABLE, ''circuit breaker open for '' @ lc_addr c), reply, c1, [])
         else
           (let (st, resp) = rpc (lc_addr c) (mk_request c nowMs u deviceId connId payload)
            in if fst st = OK then (st, resp, c1\<lparr>lc_breaker := br_success B b\<rparr>, [lc_addr c])
               else if transport_error st then (st, reply, c1\<lparr>lc_breaker := br_failure B b\<rparr>, [lc_addr c])
               else (st, reply, c1\<lparr>lc_breaker := br_success B b\<rparr>, [lc_addr c])))"

definition enqueue :: "gwevent \<Rightarrow> 'b lclient \<Rightarrow> 'b lclient" where
  "enqueue ev c = c\<lparr>lc_queue := lc_queue c @ [ev]\<rparr>"

definition lc_notifyConnOpen :: "uid \<Rightarrow> string \<Rightarrow> 'b lclient \<Rightarrow> 'b lclient" where
  "lc_notifyConnOpen u deviceId c = enqueue (ConnOpen u deviceId) c"

definition lc_notifyConnClose :: "uid \<Rightarrow> string \<Rightarrow> 'b lclient \<Rightarrow> 'b lclient" where
  "lc_notifyConnClose u deviceId c = enqueue (ConnClose u deviceId) c"

text \<open>The reconnect delay of \<^verbatim>\<open>streamLoop\<close>, in seconds.\<close>

definition next_backoff :: "nat \<Rightarrow> nat" where
  "next_backoff b = min (b * 2) 30"

text \<open>
  The sending half of \<^verbatim>\<open>streamLoop\<close>: connecting writes the hello frame (and resets the
  delay), a turn of the writer thread pops the front event, or makes a heartbeat when the
  queue is empty, and writes it; the popped frame of a failed write is gone and the writer
  stops. The reading half ends the connection.
\<close>

record stream =
  s_queue :: "gwevent list"
  s_wire :: "gwevent list"       \<comment> \<open>frames the stream accepted, oldest first\<close>
  s_up :: bool
  s_writer :: bool               \<comment> \<open>\<^verbatim>\<open>writerAlive\<close>\<close>
  s_backoff :: nat

datatype stream_event = Connect bool | Enqueue gwevent | WriterTurn bool ms | ReadEnded

definition stream_init :: stream where
  "stream_init = \<lparr>s_queue = [], s_wire = [], s_up = False, s_writer = False, s_backoff = 1\<rparr>"

definition writer_step :: "bool \<Rightarrow> ms \<Rightarrow> stream \<Rightarrow> stream" where
  "writer_step written nowMs s =
     (let (ev, q) = (case s_queue s of [] \<Rightarrow> (Heartbeat nowMs, []) | e # r \<Rightarrow> (e, r));
          s1 = s\<lparr>s_queue := q\<rparr>
      in if written then s1\<lparr>s_wire := s_wire s @ [ev]\<rparr>
         else s1\<lparr>s_writer := False\<rparr>)"

definition stream_step :: "string \<Rightarrow> stream \<Rightarrow> stream_event \<Rightarrow> stream" where
  "stream_step gatewayId s e =
     (case e of
        Connect helloWritten \<Rightarrow>
          if s_up s then s
          else if helloWritten then s\<lparr>s_wire := s_wire s @ [Hello gatewayId], s_up := True,
                                       s_writer := True, s_backoff := 1\<rparr>
          else s\<lparr>s_backoff := next_backoff (s_backoff s)\<rparr>
      | Enqueue ev \<Rightarrow> s\<lparr>s_queue := s_queue s @ [ev]\<rparr>
      | WriterTurn written nowMs \<Rightarrow> if s_up s \<and> s_writer s then writer_step written nowMs s else s
      | ReadEnded \<Rightarrow>
          if s_up s then s\<lparr>s_up := False, s_writer := False, s_backoff := next_backoff (s_backoff s)\<rparr> else s)"

section \<open>Lemmas\<close>

lemma lc_addr_healthy [simp]: "healthy B c = (h, c') \<Longrightarrow> lc_addr c' = lc_addr c"
  by (auto simp: healthy_def split: prod.splits)

lemma lc_handleMessage_addr:
  "lc_handleMessage B rpc t c u d k p r = (st, rep, c', calls) \<Longrightarrow> lc_addr c' = lc_addr c"
  by (auto simp: lc_handleMessage_def Let_def split: prod.splits if_splits)

lemma lc_handleMessage_calls:
  "lc_handleMessage B rpc t c u d k p r = (st, rep, c', calls) \<Longrightarrow>
     calls = (if fst (br_allow B (lc_breaker c)) then [lc_addr c] else [])"
  by (auto simp: lc_handleMessage_def Let_def split: prod.splits if_splits)

lemma lc_addr_enqueue [simp]:
  "lc_addr (lc_notifyConnOpen u d c) = lc_addr c" "lc_addr (lc_notifyConnClose u d c) = lc_addr c"
  by (simp_all add: lc_notifyConnOpen_def lc_notifyConnClose_def enqueue_def)

definition is_conn :: "gwevent \<Rightarrow> bool" where
  "is_conn e \<longleftrightarrow> (case e of ConnOpen _ _ \<Rightarrow> True | ConnClose _ _ \<Rightarrow> True | _ \<Rightarrow> False)"

definition enqueued :: "stream_event list \<Rightarrow> gwevent list" where
  "enqueued es = concat (map (\<lambda>e. case e of Enqueue ev \<Rightarrow> [ev] | _ \<Rightarrow> []) es)"

definition no_write_fails :: "stream_event list \<Rightarrow> bool" where
  "no_write_fails es \<longleftrightarrow> list_all (\<lambda>e. case e of WriterTurn w _ \<Rightarrow> w | _ \<Rightarrow> True) es"

lemma stream_conserves_from:
  assumes "no_write_fails es"
  shows "filter is_conn (s_wire (foldl (stream_step g) s es) @ s_queue (foldl (stream_step g) s es)) =
    filter is_conn (s_wire s @ s_queue s @ enqueued es)"
  using assms
proof (induction es arbitrary: s)
  case Nil
  then show ?case by (simp add: enqueued_def)
next
  case (Cons e es)
  have "filter is_conn (s_wire (stream_step g s e) @ s_queue (stream_step g s e) @ enqueued es) =
      filter is_conn (s_wire s @ s_queue s @ enqueued (e # es))"
    using Cons.prems
    by (cases e) (auto simp: stream_step_def writer_step_def enqueued_def no_write_fails_def
        is_conn_def split: list.splits)
  with Cons show ?case by (simp add: no_write_fails_def)
qed

definition stream_ok :: "string \<Rightarrow> stream \<Rightarrow> bool" where
  "stream_ok g s \<longleftrightarrow> 1 \<le> s_backoff s \<and> s_backoff s \<le> 30 \<and>
     (s_up s \<longrightarrow> Hello g \<in> set (s_wire s)) \<and> (s_writer s \<longrightarrow> s_up s)"

interpretation strm: inv_machine stream_init "stream_step g" "stream_ok g" for g
  by unfold_locales
    (auto simp: stream_ok_def stream_init_def stream_step_def writer_step_def next_backoff_def Let_def
      split: stream_event.splits list.splits)

text \<open>Connection events reach the logic service in the order they were raised: as long as
  no frame write fails, the open and close events on the wire followed by those still queued
  are the ones enqueued, none lost, duplicated or reordered, across any number of reconnects.\<close>

theorem stream_fifo:
  assumes "no_write_fails es" "list_all is_conn (enqueued es)"
  shows "filter is_conn (s_wire (foldl (stream_step g) stream_init es)) @
      filter is_conn (s_queue (foldl (stream_step g) stream_init es)) = enqueued es"
  using stream_conserves_from [OF assms(1), of g stream_init] assms(2)
  by (simp add: stream_init_def list_all_iff)

theorem stream_fifo_witness:
  "filter is_conn (s_wire (foldl (stream_step ''gw'') stream_init
      [Enqueue (ConnOpen 1 ''d''), Connect False, Connect True, WriterTurn True 5, ReadEnded,
       Enqueue (ConnClose 1 ''d'')])) @
    filter is_conn (s_queue (foldl (stream_step ''gw'') stream_init
      [Enqueue (ConnOpen 1 ''d''), Connect False, Connect True, WriterTurn True 5, ReadEnded,
       Enqueue (ConnClose 1 ''d'')])) =
    enqueued [Enqueue (ConnOpen 1 ''d''), Connect False, Connect True, WriterTurn True 5, ReadEnded,
       Enqueue (ConnClose 1 ''d'')]"
  by (rule stream_fifo) (simp_all add: no_write_fails_def enqueued_def is_conn_def)

text \<open>The reconnect delay stays between 1 and 30 seconds, and a connection that is up has
  sent its hello frame.\<close>

theorem stream_backoff_bounded: "stream_ok g (foldl (stream_step g) stream_init es)"
  by (rule strm.run_inv)

end
