(* ===== verification/GatewayReg.thy ===== *)
theory GatewayReg
  imports LogicClient
begin

text \<open>
  The logic side of the gateway streams: \<^verbatim>\<open>src/src/logic/GatewayRegistry.h\<close> and the handler
  \<^verbatim>\<open>RegisterGateway\<close> of \<^verbatim>\<open>src/src/logic/LogicServiceImpl.h\<close>. A stream is a number; the frames
  are those of \<open>LogicClient\<close>. The result of a stream write is an argument, and
  written commands are logged.
\<close>

record push_command =
  pc_stream :: nat
  pc_uid :: uid
  pc_payload :: string

record gwreg =
  gateways :: "string \<rightharpoonup> nat"
  userToGateway :: "uid \<rightharpoonup> string"
  pushed :: "push_command list"

definition new_gwreg :: gwreg where
  "new_gwreg = \<lparr>gateways = Map.empty, userToGateway = Map.empty, pushed = []\<rparr>"

definition registerGateway :: "string \<Rightarrow> nat \<Rightarrow> gwreg \<Rightarrow> gwreg" where
  "registerGateway g stream r = r\<lparr>gateways := (gateways r)(g \<mapsto> stream)\<rparr>"

definition deregisterGateway :: "string \<Rightarrow> gwreg \<Rightarrow> gwreg" where
  "deregisterGateway g r =
     r\<lparr>gateways := (gateways r)(g := None),
       userToGateway := (\<lambda>u. if userToGateway r u = Some g then None else userToGateway r u)\<rparr>"

definition onUserOpen :: "uid \<Rightarrow> string \<Rightarrow> gwreg \<Rightarrow> gwreg" where
  "onUserOpen u g r = r\<lparr>userToGateway := (userToGateway r)(u \<mapsto> g)\<rparr>"

definition onUserClose :: "uid \<Rightarrow> string \<Rightarrow> gwreg \<Rightarrow> gwreg" where
  "onUserClose u g r =
     (if userToGateway r u = Some g then r\<lparr>userToGateway := (userToGateway r)(u := None)\<rparr> else r)"

text \<open>\<^verbatim>\<open>pushToUser\<close>; \<open>written\<close> is the answer of the stream's \<^verbatim>\<open>Write\<close>.\<close>

definition pushToUser :: "(nat \<Rightarrow> bool) \<Rightarrow> uid \<Rightarrow> string \<Rightarrow> gwreg \<Rightarrow> gwreg \<times> bool" where
  "pushToUser written u payload r =
     (case userToGateway r u of None \<Rightarrow> (r, False)
      | Some g \<Rightarrow>
        (case gateways r g of None \<Rightarrow> (r, False)
         | Some s \<Rightarrow>
           if written s
           then (r\<lparr>pushed := pushed r @ [\<lparr>pc_stream = s, pc_uid = u, pc_payload = payload\<rparr>]\<rparr>, True)
           else (r, False)))"

section \<open>The stream handler\<close>

text \<open>
  A running \<^verbatim>\<open>RegisterGateway\<close> call is its local \<^verbatim>\<open>gatewayId\<close>, empty before the hello frame,
  and the time of the last frame. The watchdog looks at the latter every five seconds.
\<close>

record session =
  ss_gatewayId :: string
  ss_lastSeenMs :: ms

record logic_state =
  lg_reg :: gwreg
  sessions :: "nat \<rightharpoonup> session"

definition logic_init :: logic_state where
  "logic_init = \<lparr>lg_reg = new_gwreg, sessions = Map.empty\<rparr>"

definition kGatewaySilenceMs :: ms where
  "kGatewaySilenceMs = 45000"

definition stream_opened :: "nat \<Rightarrow> ms \<Rightarrow> logic_state \<Rightarrow> logic_state" where
  "stream_opened s now st = st\<lparr>sessions := (sessions st)(s \<mapsto> \<lparr>ss_gatewayId = [], ss_lastSeenMs = now\<rparr>)\<rparr>"

definition on_frame :: "nat \<Rightarrow> ms \<Rightarrow> gwevent \<Rightarrow> session \<Rightarrow> logic_state \<Rightarrow> logic_state" where
  "on_frame s now ev ss st =
     (let ss1 = ss\<lparr>ss_lastSeenMs := now\<rparr>
      in case ev of
           Hello g \<Rightarrow> st\<lparr>sessions := (sessions st)(s \<mapsto> ss1\<lparr>ss_gatewayId := g\<rparr>),
                         lg_reg := registerGateway g s (lg_reg st)\<rparr>
         | ConnOpen u d \<Rightarrow> st\<lparr>sessions := (sessions st)(s \<mapsto> ss1),
                              lg_reg := onUserOpen u (ss_gatewayId ss) (lg_reg st)\<rparr>
         | ConnClose u d \<Rightarrow> st\<lparr>sessions := (sessions st)(s \<mapsto> ss1),
                               lg_reg := onUserClose u (ss_gatewayId ss) (lg_reg st)\<rparr>
         | Heartbeat t \<Rightarrow> st\<lparr>sessions := (sessions st)(s \<mapsto> ss1)\<rparr>)"

definition stream_ended :: "nat \<Rightarrow> session \<Rightarrow> logic_state \<Rightarrow> logic_state" where
  "stream_ended s ss st =
     (let st1 = st\<lparr>sessions := (sessions st)(s := None)\<rparr>
      in if ss_gatewayId ss \<noteq> [] then st1\<lparr>lg_reg := deregisterGateway (ss_gatewayId ss) (lg_reg st)\<rparr> else st1)"

definition watchdog_cancels :: "ms \<Rightarrow> session \<Rightarrow> bool" where
  "watchdog_cancels now ss \<longleftrightarrow> now - ss_lastSeenMs ss > kGatewaySilenceMs"

text \<open>
  The runs in which gateways behave as \<open>stream_step\<close> makes them: the first frame of a stream is
  its only hello, with a non-empty id. What is assumed beyond that is that two live streams
  never carry the same gateway id.
\<close>

inductive gw_reach :: "logic_state \<Rightarrow> bool" where
  start: "gw_reach logic_init"
| opened: "gw_reach st \<Longrightarrow> sessions st s = None \<Longrightarrow> gw_reach (stream_opened s now st)"
| hello: "gw_reach st \<Longrightarrow> sessions st s = Some ss \<Longrightarrow> ss_gatewayId ss = [] \<Longrightarrow> g \<noteq> [] \<Longrightarrow>
    (\<forall>s' ss'. sessions st s' = Some ss' \<longrightarrow> ss_gatewayId ss' \<noteq> g) \<Longrightarrow>
    gw_reach (on_frame s now (Hello g) ss st)"
| frame: "gw_reach st \<Longrightarrow> sessions st s = Some ss \<Longrightarrow> ss_gatewayId ss \<noteq> [] \<Longrightarrow>
    (\<forall>g. ev \<noteq> Hello g) \<Longrightarrow> gw_reach (on_frame s now ev ss st)"
| ended: "gw_reach st \<Longrightarrow> sessions st s = Some ss \<Longrightarrow> gw_reach (stream_ended s ss st)"
| push: "gw_reach st \<Longrightarrow> gw_reach (st\<lparr>lg_reg := fst (pushToUser written u payload (lg_reg st))\<rparr>)"

definition tables_ok :: "(uid \<rightharpoonup> string) \<Rightarrow> (string \<rightharpoonup> nat) \<Rightarrow> (nat \<rightharpoonup> string) \<Rightarrow> bool" where
  "tables_ok us gs ids \<longleftrightarrow> (\<forall>u g. us u = Some g \<longrightarrow> (\<exists>s. gs g = Some s)) \<and>
     (\<forall>g s. gs g = Some s \<longleftrightarrow> g \<noteq> [] \<and> ids s = Some g)"

definition gw_ids :: "logic_state \<Rightarrow> nat \<rightharpoonup> string" where
  "gw_ids st s = map_option ss_gatewayId (sessions st s)"

definition gw_inv :: "logic_state \<Rightarrow> bool" where
  "gw_inv st \<longleftrightarrow> tables_ok (userToGateway (lg_reg st)) (gateways (lg_reg st)) (gw_ids st)"

lemma push_tables [simp]:
  "gateways (fst (pushToUser w u p r)) = gateways r"
  "userToGateway (fst (pushToUser w u p r)) = userToGateway r"
  by (auto simp: pushToUser_def split: option.splits)

lemma gw_ids_upd [simp]:
  "gw_ids (st\<lparr>sessions := (sessions st)(s \<mapsto> ss)\<rparr>) = (gw_ids st)(s \<mapsto> ss_gatewayId ss)"
  "gw_ids (st\<lparr>sessions := (sessions st)(s := None)\<rparr>) = (gw_ids st)(s := None)"
  "gw_ids (st\<lparr>lg_reg := r\<rparr>) = gw_ids st"
  "gw_ids (st\<lparr>sessions := (sessions st)(s \<mapsto> ss), lg_reg := r\<rparr>) = (gw_ids st)(s \<mapsto> ss_gatewayId ss)"
  "gw_ids (st\<lparr>sessions := (sessions st)(s := None), lg_reg := r\<rparr>) = (gw_ids st)(s := None)"
  by (simp_all add: gw_ids_def fun_eq_iff)

lemma tables_okI:
  assumes "\<And>u g. us u = Some g \<Longrightarrow> gs g \<noteq> None"
    "\<And>g s. gs g = Some s \<Longrightarrow> g \<noteq> [] \<and> ids s = Some g"
    "\<And>g s. g \<noteq> [] \<Longrightarrow> ids s = Some g \<Longrightarrow> gs g = Some s"
  shows "tables_ok us gs ids"
  using assms unfolding tables_ok_def by blast

lemma tables_okD:
  assumes "tables_ok us gs ids"
  shows "us u = Some g \<Longrightarrow> gs g \<noteq> None" "gs g = Some s \<Longrightarrow> g \<noteq> []" "gs g = Some s \<Longrightarrow> ids s = Some g"
    "g \<noteq> [] \<Longrightarrow> ids s = Some g \<Longrightarrow> gs g = Some s"
  using assms unfolding tables_ok_def by blast+

lemma tables_ok_hello:
  assumes ok: "tables_ok us gs ids" and s: "ids s = None \<or> ids s = Some []"
    and g: "g \<noteq> []" "\<And>s'. ids s' \<noteq> Some g"
  shows "tables_ok us (gs(g \<mapsto> s)) (ids(s \<mapsto> g))"
proof (rule tables_okI)
  fix g' s'
  show "g' \<noteq> [] \<and> (ids(s \<mapsto> g)) s' = Some g'" if "(gs(g \<mapsto> s)) g' = Some s'"
    using that tables_okD(2,3) [OF ok, of g' s'] s g by (cases "g' = g"; cases "s' = s") auto
  show "(gs(g \<mapsto> s)) g' = Some s'" if "g' \<noteq> []" "(ids(s \<mapsto> g)) s' = Some g'"
    using that tables_okD(4) [OF ok, of g' s'] g by (cases "g' = g"; cases "s' = s") auto
qed (use tables_okD(1) [OF ok] in auto)

lemma tables_ok_users:
  assumes ok: "tables_ok us gs ids" and u: "\<And>u g. us' u = Some g \<Longrightarrow> us u = Some g \<or> gs g \<noteq> None"
  shows "tables_ok us' gs ids"
  by (rule tables_okI) (use u tables_okD [OF ok] in blast)+

lemma tables_ok_ids:
  assumes ok: "tables_ok us gs ids" and i: "\<And>s g. g \<noteq> [] \<Longrightarrow> ids' s = Some g \<longleftrightarrow> ids s = Some g"
  shows "tables_ok us gs ids'"
  by (rule tables_okI) (use i tables_okD [OF ok] in blast)+

lemma tables_ok_open:
  assumes ok: "tables_ok us gs ids" and g: "ids s = Some g" "g \<noteq> []"
  shows "tables_ok (us(u \<mapsto> g)) gs ids" "tables_ok (us(u := None)) gs ids"
  using tables_okD(4) [OF ok g(2,1)] by (auto intro!: tables_ok_users [OF ok] split: if_splits)

lemma tables_ok_end:
  assumes ok: "tables_ok us gs ids" and g: "ids s = Some g" "g \<noteq> []"
  shows "tables_ok (\<lambda>u. if us u = Some g then None else us u) (gs(g := None)) (ids(s := None))"
proof (rule tables_okI)
  note gs = tables_okD(4) [OF ok g(2,1)]
  fix g' s'
  show "g' \<noteq> [] \<and> (ids(s := None)) s' = Some g'" if "(gs(g := None)) g' = Some s'"
    using that tables_okD(2,3) [OF ok, of g' s'] g by (cases "g' = g"; cases "s' = s") auto
  show "(gs(g := None)) g' = Some s'" if "g' \<noteq> []" "(ids(s := None)) s' = Some g'"
    using that tables_okD(4) [OF ok, of g' s'] gs by (cases "g' = g"; cases "s' = s") auto
qed (use tables_okD(1) [OF ok] in \<open>auto split: if_splits\<close>)

lemma tables_ok_drop:
  assumes ok: "tables_ok us gs ids" and s: "ids s = None \<or> ids s = Some []"
  shows "tables_ok us gs (ids(s := None))" "tables_ok us gs (ids(s \<mapsto> []))"
  using s by (auto intro!: tables_ok_ids [OF ok] split: if_splits)

lemma gw_inv_frame:
  assumes "gw_inv st" "sessions st s = Some ss" "ss_gatewayId ss \<noteq> []" "\<forall>g. ev \<noteq> Hello g"
  shows "gw_inv (on_frame s now ev ss st)"
proof -
  have id: "gw_ids st s = Some (ss_gatewayId ss)" using assms(2) by (simp add: gw_ids_def)
  then have same: "(gw_ids st)(s \<mapsto> ss_gatewayId ss) = gw_ids st" by auto
  show ?thesis
    using assms(1,4) tables_ok_open [where s = s and ids = "gw_ids st", OF _ id assms(3)] same
    by (cases ev) (simp_all add: gw_inv_def on_frame_def onUserOpen_def onUserClose_def)
qed

lemma gw_reach_inv: "gw_reach st \<Longrightarrow> gw_inv st"
proof (induction rule: gw_reach.induct)
  case start
  then show ?case by (simp add: gw_inv_def logic_init_def new_gwreg_def tables_ok_def gw_ids_def)
next
  case (opened st s now)
  then have "gw_ids st s = None" by (simp add: gw_ids_def)
  with opened show ?case by (simp add: gw_inv_def stream_opened_def tables_ok_drop)
next
  case (hello st s ss g now)
  then have "gw_ids st s = Some []" "\<And>s'. gw_ids st s' \<noteq> Some g" by (auto simp: gw_ids_def)
  with hello show ?case
    by (simp add: gw_inv_def on_frame_def registerGateway_def tables_ok_hello)
next
  case (frame st s ss ev now)
  then show ?case by (simp add: gw_inv_frame)
next
  case (ended st s ss)
  then have "gw_ids st s = Some (ss_gatewayId ss)" by (simp add: gw_ids_def)
  with ended tables_ok_end [of _ _ "gw_ids st" s "ss_gatewayId ss"] show ?case
    by (cases "ss_gatewayId ss = []")
      (simp_all add: gw_inv_def stream_ended_def deregisterGateway_def tables_ok_drop)
next
  case (push st written u payload)
  then show ?case by (simp add: gw_inv_def)
qed

section \<open>Properties\<close>


definition demo_gw :: logic_state where
  "demo_gw = on_frame 1 6 (ConnOpen 42 ''web'') \<lparr>ss_gatewayId = ''g1'', ss_lastSeenMs = 5\<rparr>
     (on_frame 1 5 (Hello ''g1'') \<lparr>ss_gatewayId = [], ss_lastSeenMs = 4\<rparr> (stream_opened 1 4 logic_init))"


text \<open>Without that proviso presence can be lost: when a gateway reconnects and its new
  stream says hello before the handler of the old stream ends, the end of the old stream
  removes the new stream's registration, and no user of that gateway can be reached.\<close>

theorem reconnect_overlap_unreachable:
  assumes "sessions st old = Some so" "ss_gatewayId so = g" "g \<noteq> []"
    "sessions st new = Some sn" "new \<noteq> old"
    "st' = stream_ended old so (on_frame new now (Hello g) sn st)"
  shows "gw_ids st' new = Some g \<and> gateways (lg_reg st') g = None \<and>
       (userToGateway (lg_reg st) u = Some g \<longrightarrow>
        pushToUser written u payload (lg_reg st') = (lg_reg st', False))"
  using assms
  by (auto simp: stream_ended_def on_frame_def registerGateway_def deregisterGateway_def
      pushToUser_def gw_ids_def Let_def)

theorem reconnect_overlap_unreachable_witness:
  "gateways (lg_reg (stream_ended 1 \<lparr>ss_gatewayId = ''g1'', ss_lastSeenMs = 6\<rparr>
     (on_frame 2 9 (Hello ''g1'') \<lparr>ss_gatewayId = [], ss_lastSeenMs = 8\<rparr> (stream_opened 2 8 demo_gw)))) ''g1'' = None"
  using reconnect_overlap_unreachable [of "stream_opened 2 8 demo_gw" 1
      "\<lparr>ss_gatewayId = ''g1'', ss_lastSeenMs = 6\<rparr>" "''g1''" 2 "\<lparr>ss_gatewayId = [], ss_lastSeenMs = 8\<rparr>",
      OF _ _ _ _ _ refl]
  by (simp add: stream_opened_def demo_gw_def on_frame_def)

end
