(* ===== verification/HashRing.thy ===== *)
theory HashRing
  imports Prelude
begin

text \<open>
  \<^verbatim>\<open>src/src/gateway/ConsistentHashRing.h\<close>. The ring is a \<^verbatim>\<open>std::map\<close> from 64-bit hash values to
  node names, kept as an ordered association list. \<^verbatim>\<open>std::hash<string>\<close> is a parameter
  \<open>H\<close>: nothing is assumed of it but that it is a function.
\<close>

type_synonym u64 = "64 word"
type_synonym hashfn = "string \<Rightarrow> u64"

record hring =
  virtualNodes :: nat
  ring_map :: "(u64 \<times> string) list"

definition new_ring :: "nat \<Rightarrow> hring" where
  "new_ring vn = \<lparr>virtualNodes = vn, ring_map = []\<rparr>"

definition vnode_hash :: "hashfn \<Rightarrow> string \<Rightarrow> nat \<Rightarrow> u64" where
  "vnode_hash H node i = H (node @ ''#'' @ to_string (int i))"

definition addNode :: "hashfn \<Rightarrow> hring \<Rightarrow> string \<Rightarrow> hring" where
  "addNode H r node =
     r\<lparr>ring_map := foldl (\<lambda>m i. oput (vnode_hash H node i) node m) (ring_map r) [0..<virtualNodes r]\<rparr>"

definition removeNode :: "hring \<Rightarrow> string \<Rightarrow> hring" where
  "removeNode r node = r\<lparr>ring_map := filter (\<lambda>p. snd p \<noteq> node) (ring_map r)\<rparr>"

definition ring_empty :: "hring \<Rightarrow> bool" where
  "ring_empty r \<longleftrightarrow> ring_map r = []"

text \<open>\<^verbatim>\<open>get\<close>; the empty ring gives the empty string.\<close>

definition ring_get :: "hashfn \<Rightarrow> hring \<Rightarrow> string \<Rightarrow> string" where
  "ring_get H r key =
     (if ring_map r = [] then []
      else case lower_bound (H key) (ring_map r) of
        Some p \<Rightarrow> snd p
      | None \<Rightarrow> snd (hd (ring_map r)))"

text \<open>The loop over the ring collects each node that differs from the last one collected; \<^verbatim>\<open>last\<close>
  starts as the empty string.\<close>

fun collect_runs :: "string \<Rightarrow> (u64 \<times> string) list \<Rightarrow> string list" where
  "collect_runs prev [] = []"
| "collect_runs prev (p # ps) =
     (if snd p \<noteq> prev then snd p # collect_runs (snd p) ps else collect_runs prev ps)"

definition distinctNodes :: "hring \<Rightarrow> string list" where
  "distinctNodes r = remdups_adj (sort (collect_runs [] (ring_map r)))"

section \<open>Invariant and nodes\<close>

definition ring_ok :: "hring \<Rightarrow> bool" where
  "ring_ok r \<longleftrightarrow> ordered (ring_map r)"

definition ring_nodes :: "hring \<Rightarrow> string set" where
  "ring_nodes r = snd ` set (ring_map r)"

lemma ring_ok_new [simp]: "ring_ok (new_ring n)" "ring_nodes (new_ring n) = {}"
  by (simp_all add: ring_ok_def new_ring_def ring_nodes_def)

lemma ordered_foldl_oput:
  "ordered m \<Longrightarrow> ordered (foldl (\<lambda>m i. oput (f i) node m) m is)"
  by (induction "is" arbitrary: m) (auto intro: ordered_oput)

lemma ring_ok_addNode [simp]: "ring_ok r \<Longrightarrow> ring_ok (addNode H r node)"
  by (simp add: ring_ok_def addNode_def ordered_foldl_oput)

lemma ring_ok_removeNode [simp]: "ring_ok r \<Longrightarrow> ring_ok (removeNode r node)"
  by (simp add: ring_ok_def removeNode_def ordered_filter)

lemma foldl_oput_nodes:
  "snd ` set (foldl (\<lambda>m i. oput (f i) node m) m is) \<subseteq> insert node (snd ` set m)"
proof (induction "is" arbitrary: m)
  case Nil
  then show ?case by auto
next
  case (Cons i "is")
  have "snd ` set (oput (f i) node m) \<subseteq> insert node (snd ` set m)"
    using set_oput_subset [of "f i" node m] by auto
  with Cons [of "oput (f i) node m"] show ?case by auto
qed

lemma ring_nodes_addNode: "ring_nodes (addNode H r node) \<subseteq> insert node (ring_nodes r)"
  using foldl_oput_nodes by (simp add: ring_nodes_def addNode_def)

lemma ring_nodes_removeNode [simp]: "ring_nodes (removeNode r node) = ring_nodes r - {node}"
  by (auto simp: ring_nodes_def removeNode_def)

lemma ring_get_in_nodes: "\<not> ring_empty r \<Longrightarrow> ring_get H r key \<in> ring_nodes r"
  by (auto simp: ring_get_def ring_nodes_def ring_empty_def split: option.splits
      dest!: lower_bound_SomeD intro: rev_image_eqI)

lemma ring_empty_iff: "ring_empty r \<longleftrightarrow> ring_nodes r = {}"
  by (simp add: ring_empty_def ring_nodes_def)

section \<open>Minimal disruption\<close>

lemma get_oput:
  assumes "ordered m"
  shows "ring_get H \<lparr>virtualNodes = n, ring_map = oput k node m\<rparr> key = node \<or>
    m \<noteq> [] \<and> ring_get H \<lparr>virtualNodes = n, ring_map = oput k node m\<rparr> key =
      ring_get H \<lparr>virtualNodes = n, ring_map = m\<rparr> key"
  using assms
  by (auto simp: ring_get_def lower_bound_oput hd_oput split: option.splits)
     (auto simp: lower_bound_def)

lemma get_foldl_oput:
  assumes "ordered m" "m \<noteq> []"
  shows "ring_get H \<lparr>virtualNodes = n, ring_map = foldl (\<lambda>m i. oput (f i) node m) m is\<rparr> key
    \<in> {node, ring_get H \<lparr>virtualNodes = n, ring_map = m\<rparr> key}"
  using assms
proof (induction "is" arbitrary: m)
  case Nil
  then show ?case by simp
next
  case (Cons i "is")
  from Cons.IH [of "oput (f i) node m"] Cons.prems
  show ?case using get_oput [OF Cons.prems(1), of H n "f i" node key] by (auto simp: ordered_oput)
qed

lemma ring_get_addNode:
  assumes "ring_ok r" "\<not> ring_empty r"
  shows "ring_get H (addNode H r node) key \<in> {node, ring_get H r key}"
  using get_foldl_oput [of "ring_map r" H "virtualNodes r" "vnode_hash H node" node] assms
  by (cases r) (simp add: addNode_def ring_ok_def ring_empty_def)

lemma hd_filter_keep: "xs \<noteq> [] \<Longrightarrow> P (hd xs) \<Longrightarrow> hd (filter P xs) = hd xs"
  by (cases xs) auto

lemma filter_ne_if_hd: "xs \<noteq> [] \<Longrightarrow> P (hd xs) \<Longrightarrow> filter P xs \<noteq> []"
  by (cases xs) auto

lemma ring_get_removeNode:
  assumes "ring_get H r key \<noteq> node" "\<not> ring_empty r"
  shows "ring_get H (removeNode r node) key = ring_get H r key"
proof (cases "lower_bound (H key) (ring_map r)")
  case None
  with assms have "snd (hd (ring_map r)) \<noteq> node" "ring_map r \<noteq> []"
    by (auto simp: ring_get_def ring_empty_def)
  with None show ?thesis
    by (simp add: ring_get_def removeNode_def lower_bound_filter_None hd_filter_keep filter_ne_if_hd)
next
  case (Some p)
  with assms have p: "snd p \<noteq> node" by (auto simp: ring_get_def ring_empty_def)
  with Some have "lower_bound (H key) (filter (\<lambda>p. snd p \<noteq> node) (ring_map r)) = Some p"
    by (simp add: lower_bound_filter)
  moreover from this have "filter (\<lambda>p. snd p \<noteq> node) (ring_map r) \<noteq> []"
    by (auto simp: lower_bound_def)
  ultimately show ?thesis using Some
    by (auto simp: ring_get_def removeNode_def)
qed

section \<open>The routing contract\<close>

text \<open>
  What a router promises its client: lookups stay within the current nodes, adding a node
  moves a key only to that node, and removing a node leaves every other key in place.
\<close>

locale router =
  fixes ok :: "'r \<Rightarrow> bool" and nodes :: "'r \<Rightarrow> string set"
    and add :: "'r \<Rightarrow> string \<Rightarrow> 'r" and remove :: "'r \<Rightarrow> string \<Rightarrow> 'r"
    and get :: "'r \<Rightarrow> string \<Rightarrow> string"
  assumes ok_add: "ok r \<Longrightarrow> ok (add r n)"
    and ok_remove: "ok r \<Longrightarrow> ok (remove r n)"
    and nodes_add: "nodes (add r n) \<subseteq> insert n (nodes r)"
    and nodes_remove: "nodes (remove r n) = nodes r - {n}"
    and get_in: "nodes r \<noteq> {} \<Longrightarrow> get r k \<in> nodes r"
    and get_add: "ok r \<Longrightarrow> nodes r \<noteq> {} \<Longrightarrow> get (add r n) k \<in> {n, get r k}"
    and get_remove: "nodes r \<noteq> {} \<Longrightarrow> get r k \<noteq> n \<Longrightarrow> get (remove r n) k = get r k"
begin

lemma get_after_replace:
  assumes "ok r" "nodes r \<noteq> {}" "get r k \<noteq> old" "nodes (remove r old) \<noteq> {}"
  shows "get (add (remove r old) new) k \<in> {new, get r k}"
  using get_add [OF ok_remove [OF assms(1)] assms(4)] get_remove [OF assms(2,3)] by metis

lemma remove_gone: "n \<notin> nodes (remove r n)"
  by (simp add: nodes_remove)

lemma get_remove_neq: "nodes (remove r n) \<noteq> {} \<Longrightarrow> get (remove r n) k \<noteq> n"
  using get_in remove_gone by metis

end

interpretation hr: router ring_ok ring_nodes "addNode H" removeNode "ring_get H" for H
  by unfold_locales
    (auto simp: ring_get_in_nodes ring_get_addNode ring_get_removeNode ring_empty_iff
      dest: ring_nodes_addNode [THEN subsetD] dest!: ring_get_addNode [unfolded ring_empty_iff])

lemma set_collect_runs:
  "set (collect_runs prev ps) \<subseteq> snd ` set ps"
  "snd ` set ps \<subseteq> insert prev (set (collect_runs prev ps))"
  by (induction prev ps rule: collect_runs.induct) auto

lemma set_distinctNodes:
  assumes "[] \<notin> ring_nodes r"
  shows "set (distinctNodes r) = ring_nodes r"
proof -
  let ?c = "set (collect_runs [] (ring_map r))"
  have "set (distinctNodes r) = ?c" by (simp add: distinctNodes_def)
  moreover have "?c \<subseteq> ring_nodes r" "ring_nodes r \<subseteq> insert [] ?c"
    unfolding ring_nodes_def by (rule set_collect_runs)+
  ultimately show ?thesis using assms by blast
qed

lemma distinct_remdups_adj_sorted: "sorted xs \<Longrightarrow> distinct (remdups_adj (xs :: 'a::linorder list))"
  by (induction xs rule: remdups_adj.induct) auto

lemma sorted_distinctNodes: "sorted (distinctNodes r)" "distinct (distinctNodes r)"
  unfolding distinctNodes_def
  by (simp_all add: sorted_remdups_adj distinct_remdups_adj_sorted)

section \<open>Rings built by the code\<close>

datatype ring_op = AddN string | RemoveN string

definition ring_step :: "hashfn \<Rightarrow> hring \<Rightarrow> ring_op \<Rightarrow> hring" where
  "ring_step H r e = (case e of AddN n \<Rightarrow> addNode H r n | RemoveN n \<Rightarrow> removeNode r n)"

interpretation hrm: inv_machine "new_ring v" "ring_step H" ring_ok for v H
  by unfold_locales (auto simp: ring_step_def split: ring_op.splits)

abbreviation ring_of :: "hashfn \<Rightarrow> nat \<Rightarrow> ring_op list \<Rightarrow> hring" where
  "ring_of H v ops \<equiv> foldl (ring_step H) (new_ring v) ops"

text \<open>C24. Consistent hashing on every ring that additions and removals can build: a lookup in
  a non-empty ring answers one of its nodes; adding a node moves a key only to the new node;
  removing a node leaves every key that was not on it where it was, and no key on it.\<close>

theorem ring_minimal_disruption:
  assumes "\<not> ring_empty (ring_of H v ops)"
  shows "ring_get H (ring_of H v ops) k \<in> ring_nodes (ring_of H v ops)
    \<and> ring_get H (ring_of H v (ops @ [AddN n])) k \<in> {n, ring_get H (ring_of H v ops) k}
    \<and> (ring_get H (ring_of H v ops) k \<noteq> n \<longrightarrow>
         ring_get H (ring_of H v (ops @ [RemoveN n])) k = ring_get H (ring_of H v ops) k)
    \<and> (\<not> ring_empty (ring_of H v (ops @ [RemoveN n])) \<longrightarrow>
         ring_get H (ring_of H v (ops @ [RemoveN n])) k \<noteq> n)"
  using assms hrm.run_inv [of H v ops] hr.get_remove_neq [of "ring_of H v ops" n H k]
    hr.get_add [of "ring_of H v ops" H n k]
  by (auto simp: ring_step_def ring_get_in_nodes ring_get_removeNode ring_empty_iff)

definition demo_hash :: hashfn where
  "demo_hash s = of_nat (length s) * 16 + of_char (last s)"

theorem ring_minimal_disruption_witness:
  "\<not> ring_empty (ring_of demo_hash 2 [AddN ''a:1''])
   \<and> ring_get demo_hash (ring_of demo_hash 2 ([AddN ''a:1''] @ [AddN ''bb:2''])) ''u''
     \<in> {''bb:2'', ring_get demo_hash (ring_of demo_hash 2 [AddN ''a:1'']) ''u''}"
proof -
  have ne: "\<not> ring_empty (ring_of demo_hash 2 [AddN ''a:1''])"
    by (simp add: ring_step_def addNode_def new_ring_def ring_empty_def upt_rec)
  with ring_minimal_disruption [OF ne, of "''u''" "''bb:2''"] show ?thesis by blast
qed

text \<open>distinctNodes lists the nodes of the ring (all non-empty addresses) once each, in
  increasing order.\<close>

theorem distinctNodes_correct:
  assumes "[] \<notin> ring_nodes r"
  shows "distinctNodes r = sorted_list_of_set (ring_nodes r)"
  using set_distinctNodes [OF assms] sorted_distinctNodes [of r]
  by (metis sorted_list_of_set.idem_if_sorted_distinct)

theorem distinctNodes_correct_witness:
  "distinctNodes (addNode demo_hash (new_ring 1) ''a:1'') =
     sorted_list_of_set (ring_nodes (addNode demo_hash (new_ring 1) ''a:1''))"
  by (rule distinctNodes_correct)
    (simp add: addNode_def new_ring_def ring_nodes_def)

end
