(* ===== verification/Json.thy ===== *)
theory Json
  imports Prelude
begin

text \<open>
  The JSON values the services exchange, with the accessors the sources call on them
  (\<^verbatim>\<open>j.value(key, default)\<close>, \<^verbatim>\<open>j.contains\<close>, \<^verbatim>\<open>is_array\<close>). Text conversion belongs to the JSON
  library and is a parameter of the model: \<open>lib_dump\<close> and \<open>lib_parse\<close> of a \<open>jlib\<close>.
  An accessor that throws \<^verbatim>\<open>type_error\<close> is \<open>None\<close>.
\<close>

datatype json = JNull | JBool bool | JInt int | JFloat int int | JStr string
  | JArr "json list" | JObj "(string \<times> json) list"

text \<open>Object members are kept in key order (\<open>oput\<close>), as \<^verbatim>\<open>std::map\<close> keeps them.\<close>

definition obj :: "(string \<times> json) list \<Rightarrow> json" where
  "obj kvs = JObj (foldl (\<lambda>m kv. oput (fst kv) (snd kv) m) [] kvs)"

definition members :: "json \<Rightarrow> (string \<times> json) list option" where
  "members j = (case j of JObj m \<Rightarrow> Some m | _ \<Rightarrow> None)"

text \<open>\<open>m * 2 ^ e\<close> cut towards zero, as the conversion of a floating-point number does.\<close>

definition float_trunc :: "int \<Rightarrow> int \<Rightarrow> int" where
  "float_trunc m e = (if 0 \<le> e then m * 2 ^ nat e else sgn m * (\<bar>m\<bar> div 2 ^ nat (- e)))"

definition value_str :: "json \<Rightarrow> string \<Rightarrow> string \<Rightarrow> string option" where
  "value_str j k d = (case members j of None \<Rightarrow> None
     | Some m \<Rightarrow> (case map_of m k of None \<Rightarrow> Some d | Some (JStr s) \<Rightarrow> Some s | Some _ \<Rightarrow> None))"

definition value_int :: "json \<Rightarrow> string \<Rightarrow> int \<Rightarrow> int option" where
  "value_int j k d = (case members j of None \<Rightarrow> None
     | Some m \<Rightarrow> (case map_of m k of None \<Rightarrow> Some d | Some (JInt i) \<Rightarrow> Some i
         | Some (JFloat a e) \<Rightarrow> Some (float_trunc a e) | Some _ \<Rightarrow> None))"

text \<open>The same accessor at the type \<^verbatim>\<open>int\<close>: booleans convert, and the result is cut to 32 bits.\<close>

definition wrap32 :: "int \<Rightarrow> int" where
  "wrap32 i = sint (word_of_int i :: 32 word)"

definition value_int32 :: "json \<Rightarrow> string \<Rightarrow> int \<Rightarrow> int option" where
  "value_int32 j k d = (case members j of None \<Rightarrow> None
     | Some m \<Rightarrow> (case map_of m k of None \<Rightarrow> Some d | Some (JInt i) \<Rightarrow> Some (wrap32 i)
         | Some (JFloat a e) \<Rightarrow> Some (wrap32 (float_trunc a e))
         | Some (JBool b) \<Rightarrow> Some (if b then 1 else 0) | Some _ \<Rightarrow> None))"

definition value_bool :: "json \<Rightarrow> string \<Rightarrow> bool \<Rightarrow> bool option" where
  "value_bool j k d = (case members j of None \<Rightarrow> None
     | Some m \<Rightarrow> (case map_of m k of None \<Rightarrow> Some d | Some (JBool b) \<Rightarrow> Some b | Some _ \<Rightarrow> None))"

definition contains :: "json \<Rightarrow> string \<Rightarrow> bool" where
  "contains j k = (case members j of None \<Rightarrow> False | Some m \<Rightarrow> map_of m k \<noteq> None)"

definition jlookup :: "json \<Rightarrow> string \<Rightarrow> json option" where
  "jlookup j k = (case members j of None \<Rightarrow> None | Some m \<Rightarrow> map_of m k)"

text \<open>\<^verbatim>\<open>j[k] = v\<close> on an object.\<close>

definition jset :: "json \<Rightarrow> string \<Rightarrow> json \<Rightarrow> json" where
  "jset j k v = (case j of JObj m \<Rightarrow> JObj (oput k v m) | _ \<Rightarrow> j)"

record jlib =
  lib_dump :: "json \<Rightarrow> string"
  lib_parse :: "string \<Rightarrow> json option"

lemma map_of_foldl_oput:
  "map_of (foldl (\<lambda>m kv. oput (fst kv) (snd kv) m) m0 kvs) = map_of m0 ++ map_of (rev kvs)"
  by (induction kvs arbitrary: m0) (auto simp: map_add_def fun_eq_iff split: option.splits)

lemma map_of_obj: "obj kvs = JObj m \<Longrightarrow> map_of m = map_of (rev kvs)"
  using map_of_foldl_oput [of "[]" kvs] by (simp add: obj_def)

lemma value_str_obj [simp]:
  "value_str (obj kvs) k d = (case map_of (rev kvs) k of None \<Rightarrow> Some d
     | Some (JStr s) \<Rightarrow> Some s | Some _ \<Rightarrow> None)"
  using map_of_foldl_oput [of "[]" kvs] by (simp add: value_str_def obj_def members_def)

lemma value_int_obj [simp]:
  "value_int (obj kvs) k d = (case map_of (rev kvs) k of None \<Rightarrow> Some d | Some (JInt i) \<Rightarrow> Some i
     | Some (JFloat a e) \<Rightarrow> Some (float_trunc a e) | Some _ \<Rightarrow> None)"
  using map_of_foldl_oput [of "[]" kvs] by (simp add: value_int_def obj_def members_def)

lemma value_bool_obj [simp]:
  "value_bool (obj kvs) k d = (case map_of (rev kvs) k of None \<Rightarrow> Some d
     | Some (JBool b) \<Rightarrow> Some b | Some _ \<Rightarrow> None)"
  using map_of_foldl_oput [of "[]" kvs] by (simp add: value_bool_def obj_def members_def)

lemma jlookup_obj [simp]: "jlookup (obj kvs) k = map_of (rev kvs) k"
  using map_of_foldl_oput [of "[]" kvs] by (simp add: jlookup_def obj_def members_def)

lemma contains_obj [simp]: "contains (obj kvs) k = (map_of (rev kvs) k \<noteq> None)"
  using map_of_foldl_oput [of "[]" kvs] by (simp add: contains_def obj_def members_def)

lemma jlookup_jset:
  "members j \<noteq> None \<Longrightarrow> jlookup (jset j k v) k' = (if k' = k then Some v else jlookup j k')"
  by (cases j) (auto simp: members_def jlookup_def jset_def)

lemma jset_obj: "jset (obj kvs) k v = obj (kvs @ [(k, v)])"
  by (simp add: jset_def obj_def)

end
