(* ===== verification/Registry.thy ===== *)
theory Registry
  imports Prelude
begin

text \<open>
  \<^verbatim>\<open>src/src/registry/RegistryServiceImpl.h\<close>: the in-memory service registry with leases, TTL
  collection and watch streams. The tables the code iterates over are association lists,
  whose order stands for the unspecified one of \<^verbatim>\<open>unordered_map\<close>. Times are nanoseconds of
  the steady clock. A watcher carries, besides its queue, the frames already written to
  its stream.
\<close>

record endpoint =
  ep_instance_id :: string
  ep_service :: string
  ep_addr :: string
  ep_weight :: int

datatype watch_event = ADDED endpoint | REMOVED endpoint

record watcher =
  w_id :: nat
  w_service :: string
  w_queue :: "watch_event list"
  w_sent :: "watch_event list"

record registry =
  endpoints :: "(string \<times> endpoint) list"
  lastSeen :: "(string \<times> int) list"
  leaseToInstance :: "int \<rightharpoonup> string"
  instanceToLease :: "string \<rightharpoonup> int"
  watchers :: "watcher list"
  leaseSeq :: int

definition kTtlSec :: int where
  "kTtlSec = 30"

definition new_registry :: registry where
  "new_registry = \<lparr>endpoints = [], lastSeen = [], leaseToInstance = Map.empty,
     instanceToLease = Map.empty, watchers = [], leaseSeq = 0\<rparr>"

definition ev_endpoint :: "watch_event \<Rightarrow> endpoint" where
  "ev_endpoint ev = (case ev of ADDED ep \<Rightarrow> ep | REMOVED ep \<Rightarrow> ep)"

definition broadcastEvent :: "watch_event \<Rightarrow> watcher list \<Rightarrow> watcher list" where
  "broadcastEvent ev ws =
     map (\<lambda>w. if w_service w \<noteq> [] \<and> w_service w \<noteq> ep_service (ev_endpoint ev) then w
              else w\<lparr>w_queue := w_queue w @ [ev]\<rparr>) ws"

text \<open>\<^verbatim>\<open>Register\<close>; the result is the new lease.\<close>

definition Register :: "int \<Rightarrow> endpoint \<Rightarrow> registry \<Rightarrow> registry \<times> int" where
  "Register now ep s =
     (let i = ep_instance_id ep;
          l2i = (case instanceToLease s i of None \<Rightarrow> leaseToInstance s
                 | Some old \<Rightarrow> (leaseToInstance s)(old := None));
          leaseId = leaseSeq s + 1
      in (s\<lparr>endpoints := put i ep (endpoints s), lastSeen := put i now (lastSeen s),
            leaseSeq := leaseId, leaseToInstance := l2i(leaseId \<mapsto> i),
            instanceToLease := (instanceToLease s)(i \<mapsto> leaseId),
            watchers := broadcastEvent (ADDED ep) (watchers s)\<rparr>, leaseId))"

definition removeInstanceLocked :: "string \<Rightarrow> registry \<Rightarrow> registry" where
  "removeInstanceLocked instanceId s =
     (case map_of (endpoints s) instanceId of None \<Rightarrow> s
      | Some ep \<Rightarrow>
        (let s1 = s\<lparr>watchers := broadcastEvent (REMOVED ep) (watchers s),
                    endpoints := erase instanceId (endpoints s),
                    lastSeen := erase instanceId (lastSeen s)\<rparr>
         in case instanceToLease s1 instanceId of None \<Rightarrow> s1
            | Some l \<Rightarrow> s1\<lparr>leaseToInstance := (leaseToInstance s1)(l := None),
                           instanceToLease := (instanceToLease s1)(instanceId := None)\<rparr>))"

definition Deregister :: "string \<Rightarrow> registry \<Rightarrow> registry" where
  "Deregister instanceId s = removeInstanceLocked instanceId s"

text \<open>\<^verbatim>\<open>KeepAlive\<close>: \<open>None\<close> is the NOT\_FOUND answer, \<open>Some\<close> the remaining time to live.\<close>

definition KeepAlive :: "int \<Rightarrow> int \<Rightarrow> registry \<Rightarrow> registry \<times> int option" where
  "KeepAlive now leaseId s =
     (case leaseToInstance s leaseId of None \<Rightarrow> (s, None)
      | Some i \<Rightarrow> (s\<lparr>lastSeen := put i now (lastSeen s)\<rparr>, Some kTtlSec))"

definition ListEndpoints :: "string \<Rightarrow> registry \<Rightarrow> endpoint list" where
  "ListEndpoints service s =
     filter (\<lambda>ep. service = [] \<or> ep_service ep = service) (map snd (endpoints s))"

text \<open>\<^verbatim>\<open>Watch\<close>: the registration under the lock, one turn of its loop, and its end.\<close>

definition watch_open :: "nat \<Rightarrow> string \<Rightarrow> registry \<Rightarrow> registry" where
  "watch_open wid service s =
     s\<lparr>watchers := watchers s @ [\<lparr>w_id = wid, w_service = service,
         w_queue = map ADDED (ListEndpoints service s), w_sent = []\<rparr>]\<rparr>"

definition watch_close :: "nat \<Rightarrow> registry \<Rightarrow> registry" where
  "watch_close wid s = s\<lparr>watchers := filter (\<lambda>w. w_id w \<noteq> wid) (watchers s)\<rparr>"

definition watcher_pop :: "watcher \<Rightarrow> watcher" where
  "watcher_pop w = (case w_queue w of [] \<Rightarrow> w
     | ev # r \<Rightarrow> w\<lparr>w_queue := r, w_sent := w_sent w @ [ev]\<rparr>)"

definition watch_turn :: "nat \<Rightarrow> bool \<Rightarrow> registry \<Rightarrow> registry" where
  "watch_turn wid written s =
     (if written
      then s\<lparr>watchers := map (\<lambda>w. if w_id w \<noteq> wid then w else watcher_pop w) (watchers s)\<rparr>
      else watch_close wid s)"

definition elapsed_sec :: "int \<Rightarrow> int \<Rightarrow> int" where
  "elapsed_sec now ts =
     (if ts \<le> now then (now - ts) div 1000000000 else - ((ts - now) div 1000000000))"

text \<open>One turn of \<^verbatim>\<open>gcLoop\<close>.\<close>

definition gc :: "int \<Rightarrow> registry \<Rightarrow> registry" where
  "gc now s =
     (let dead = map fst (filter (\<lambda>p. elapsed_sec now (snd p) > kTtlSec) (lastSeen s))
      in foldl (\<lambda>s i. removeInstanceLocked i s) s dead)"

datatype reg_event = Reg int endpoint | Dereg string | Keep int int | Gc int
  | WatchOpen nat string | WatchTurn nat bool | WatchClose nat

definition reg_step :: "registry \<Rightarrow> reg_event \<Rightarrow> registry" where
  "reg_step s e =
     (case e of
        Reg now ep \<Rightarrow> fst (Register now ep s)
      | Dereg i \<Rightarrow> Deregister i s
      | Keep now l \<Rightarrow> fst (KeepAlive now l s)
      | Gc now \<Rightarrow> gc now s
      | WatchOpen w svc \<Rightarrow> watch_open w svc s
      | WatchTurn w ok \<Rightarrow> watch_turn w ok s
      | WatchClose w \<Rightarrow> watch_close w s)"

section \<open>Table invariant\<close>

definition leases_ok :: "(int \<rightharpoonup> string) \<Rightarrow> (string \<rightharpoonup> int) \<Rightarrow> int \<Rightarrow> bool" where
  "leases_ok l2i i2l q \<longleftrightarrow> (\<forall>l i. l2i l = Some i \<longleftrightarrow> i2l i = Some l) \<and>
     (\<forall>i l. i2l i = Some l \<longrightarrow> 1 \<le> l \<and> l \<le> q) \<and> 0 \<le> q"

lemma leases_ok_unique: "leases_ok a b q \<Longrightarrow> b i = Some l \<Longrightarrow> b j = Some l \<Longrightarrow> i = j"
  unfolding leases_ok_def by (metis option.inject)

lemma leases_ok_drop:
  assumes "leases_ok a b q" "b i = Some l"
  shows "leases_ok (a(l := None)) (b(i := None)) q"
proof -
  have "b j = Some l \<longleftrightarrow> j = i" for j using assms leases_ok_unique by metis
  with assms show ?thesis by (simp add: leases_ok_def) (metis option.inject)
qed

lemma leases_ok_fresh:
  assumes "leases_ok a b q" "b i = None"
  shows "leases_ok (a(q + 1 \<mapsto> i)) (b(i \<mapsto> q + 1)) (q + 1)"
proof -
  have "b j \<noteq> Some (q + 1)" for j using assms by (force simp: leases_ok_def)
  then show ?thesis using assms unfolding leases_ok_def
    by (auto dest: spec intro: order_trans [of _ q])
qed

lemma leases_ok_renew:
  assumes "leases_ok a b q" "b i = Some l"
  shows "leases_ok ((a(l := None))(q + 1 \<mapsto> i)) (b(i \<mapsto> q + 1)) (q + 1)"
  using leases_ok_fresh [OF leases_ok_drop [OF assms], of i] by simp

definition reg_ok :: "registry \<Rightarrow> bool" where
  "reg_ok s \<longleftrightarrow>
     uniq_keys (endpoints s) \<and> uniq_keys (lastSeen s) \<and>
     (\<forall>i. map_of (lastSeen s) i = None \<longleftrightarrow> map_of (endpoints s) i = None) \<and>
     (\<forall>i. instanceToLease s i = None \<longleftrightarrow> map_of (endpoints s) i = None) \<and>
     leases_ok (leaseToInstance s) (instanceToLease s) (leaseSeq s) \<and>
     (\<forall>i ep. map_of (endpoints s) i = Some ep \<longrightarrow> ep_instance_id ep = i)"

lemma reg_ok_lease: "reg_ok s \<Longrightarrow> leaseToInstance s l = Some i \<longleftrightarrow> instanceToLease s i = Some l"
  by (simp add: reg_ok_def leases_ok_def)

lemma reg_ok_new [simp]: "reg_ok new_registry"
  by (simp add: reg_ok_def leases_ok_def new_registry_def)

lemma reg_ok_watchers [simp]: "reg_ok (s\<lparr>watchers := ws\<rparr>) = reg_ok s"
  by (simp add: reg_ok_def)

lemma registered_lease:
  "reg_ok s \<Longrightarrow> map_of (endpoints s) i \<noteq> None \<Longrightarrow> \<exists>l t. instanceToLease s i = Some l \<and> map_of (lastSeen s) i = Some t"
  unfolding reg_ok_def by (metis not_None_eq)

lemma remove_eq:
  assumes "map_of (endpoints s) i = Some ep" "instanceToLease s i = Some l"
  shows "removeInstanceLocked i s =
    s\<lparr>watchers := broadcastEvent (REMOVED ep) (watchers s),
      endpoints := erase i (endpoints s), lastSeen := erase i (lastSeen s),
      leaseToInstance := (leaseToInstance s)(l := None), instanceToLease := (instanceToLease s)(i := None)\<rparr>"
  using assms by (simp add: removeInstanceLocked_def)

lemma reg_ok_remove [simp]:
  assumes "reg_ok s"
  shows "reg_ok (removeInstanceLocked i s)"
proof (cases "map_of (endpoints s) i")
  case None
  with assms show ?thesis by (simp add: removeInstanceLocked_def)
next
  case (Some ep)
  then obtain l where l: "instanceToLease s i = Some l" using registered_lease [OF assms] by blast
  with assms show ?thesis
    unfolding remove_eq [OF Some l] by (simp add: reg_ok_def leases_ok_drop)
qed

lemma reg_ok_Register [simp]:
  assumes "reg_ok s"
  shows "reg_ok (fst (Register now ep s))"
proof (cases "instanceToLease s (ep_instance_id ep)")
  case None
  with assms show ?thesis
    unfolding Register_def None by (simp add: reg_ok_def Let_def leases_ok_fresh None)
next
  case (Some old)
  with assms show ?thesis
    unfolding Register_def Some by (simp add: reg_ok_def Let_def leases_ok_renew Some)
qed

lemma reg_ok_KeepAlive [simp]:
  assumes "reg_ok s"
  shows "reg_ok (fst (KeepAlive now l s))"
proof (cases "leaseToInstance s l")
  case None
  with assms show ?thesis by (simp add: KeepAlive_def)
next
  case (Some i)
  with assms have "map_of (endpoints s) i \<noteq> None"
    using reg_ok_lease [OF assms, of l i] unfolding reg_ok_def by (metis option.distinct(1))
  with assms show ?thesis unfolding KeepAlive_def Some by (auto simp: reg_ok_def)
qed

lemma reg_ok_removes: "reg_ok s \<Longrightarrow> reg_ok (foldl (\<lambda>s i. removeInstanceLocked i s) s is)"
  by (induction "is" arbitrary: s) auto

interpretation rg: inv_machine new_registry reg_step reg_ok
  by unfold_locales
    (auto simp: reg_step_def Deregister_def gc_def watch_open_def watch_turn_def watch_close_def
      Let_def reg_ok_removes split: reg_event.splits)

section \<open>Leases and collection\<close>

lemma endpoints_remove [simp]:
  "map_of (endpoints (removeInstanceLocked i s)) = (map_of (endpoints s))(i := None)"
  by (auto simp: removeInstanceLocked_def Let_def fun_eq_iff split: option.splits)

lemma remove_other:
  assumes "i \<noteq> j"
  shows "map_of (lastSeen (removeInstanceLocked j s)) i = map_of (lastSeen s) i"
    "instanceToLease (removeInstanceLocked j s) i = instanceToLease s i"
  using assms by (auto simp: removeInstanceLocked_def Let_def split: option.splits)

lemma endpoints_removes:
  "map_of (endpoints (foldl (\<lambda>s i. removeInstanceLocked i s) s is)) i =
     (if i \<in> set is then None else map_of (endpoints s) i)"
  by (induction "is" arbitrary: s) auto

lemma removes_other:
  assumes "i \<notin> set is"
  shows "map_of (lastSeen (foldl (\<lambda>s i. removeInstanceLocked i s) s is)) i = map_of (lastSeen s) i"
    "instanceToLease (foldl (\<lambda>s i. removeInstanceLocked i s) s is) i = instanceToLease s i"
  using assms by (induction "is" arbitrary: s) (auto simp: remove_other)

lemma dead_iff:
  assumes "reg_ok s"
  shows "i \<in> set (map fst (filter (\<lambda>p. elapsed_sec now (snd p) > kTtlSec) (lastSeen s))) \<longleftrightarrow>
    (\<exists>ts. map_of (lastSeen s) i = Some ts \<and> kTtlSec < elapsed_sec now ts)"
proof -
  have "uniq_keys (lastSeen s)" using assms by (simp add: reg_ok_def)
  from uniq_keys_mem [OF this] show ?thesis by (force simp: image_iff)
qed

lemma gc_endpoints:
  assumes "reg_ok s"
  shows "map_of (endpoints (gc now s)) i =
    (case map_of (lastSeen s) i of None \<Rightarrow> None
     | Some ts \<Rightarrow> if kTtlSec < elapsed_sec now ts then None else map_of (endpoints s) i)"
proof (cases "map_of (lastSeen s) i")
  case None
  with assms have "map_of (endpoints s) i = None" by (simp add: reg_ok_def)
  with None show ?thesis by (simp add: gc_def Let_def endpoints_removes)
next
  case (Some ts)
  with dead_iff [OF assms, of i now] show ?thesis
    unfolding gc_def Let_def endpoints_removes by simp
qed

lemma gc_other:
  assumes "reg_ok s" "map_of (lastSeen s) i = Some ts" "elapsed_sec now ts \<le> kTtlSec"
  shows "map_of (lastSeen (gc now s)) i = Some ts" "instanceToLease (gc now s) i = instanceToLease s i"
proof -
  have "i \<notin> set (map fst (filter (\<lambda>p. elapsed_sec now (snd p) > kTtlSec) (lastSeen s)))"
    using dead_iff [OF assms(1), of i now] assms(2,3) by simp
  from removes_other [OF this, of s] assms(2)
  show "map_of (lastSeen (gc now s)) i = Some ts" "instanceToLease (gc now s) i = instanceToLease s i"
    by (simp_all add: gc_def Let_def)
qed

text \<open>
  \<open>kept l i t es\<close>: during \<open>es\<close> nobody deregisters or re-registers \<open>i\<close>, and at every
  collection the last renewal of lease \<open>l\<close> (at first \<open>t\<close>) is at most the TTL old.
\<close>

fun kept :: "int \<Rightarrow> string \<Rightarrow> int \<Rightarrow> reg_event list \<Rightarrow> bool" where
  "kept l i t [] = True"
| "kept l i t (e # es) =
     (case e of
        Reg now ep \<Rightarrow> ep_instance_id ep \<noteq> i \<and> kept l i t es
      | Dereg j \<Rightarrow> j \<noteq> i \<and> kept l i t es
      | Keep now l' \<Rightarrow> kept l i (if l' = l then now else t) es
      | Gc now \<Rightarrow> elapsed_sec now t \<le> kTtlSec \<and> kept l i t es
      | _ \<Rightarrow> kept l i t es)"

definition holds_lease :: "int \<Rightarrow> string \<Rightarrow> endpoint \<Rightarrow> int \<Rightarrow> registry \<Rightarrow> bool" where
  "holds_lease l i ep t s \<longleftrightarrow> reg_ok s \<and> map_of (endpoints s) i = Some ep \<and>
     instanceToLease s i = Some l \<and> map_of (lastSeen s) i = Some t"

lemma holds_lease_step:
  assumes h: "holds_lease l i ep t s" and k: "kept l i t (e # es)"
  shows "\<exists>t'. holds_lease l i ep t' (reg_step s e) \<and> kept l i t' es"
proof -
  have ok: "reg_ok (reg_step s e)" using h rg.step_inv by (simp add: holds_lease_def)
  have l: "leaseToInstance s l' = Some i \<longleftrightarrow> l' = l" for l'
    using h reg_ok_lease by (auto simp: holds_lease_def)
  show ?thesis
  proof (cases e)
    case (Keep now l')
    show ?thesis
    proof (cases "leaseToInstance s l'")
      case None
      with Keep h k l [of l'] show ?thesis
        by (auto simp: reg_step_def KeepAlive_def)
    next
      case (Some j)
      with Keep h k ok l [of l'] show ?thesis
        by (cases "l' = l") (auto simp: reg_step_def KeepAlive_def holds_lease_def)
    qed
  next
    case (Gc now)
    with h k ok show ?thesis
      by (intro exI [of _ t]) (auto simp: reg_step_def holds_lease_def gc_endpoints gc_other)
  next
    case (Reg now ep')
    with h k ok show ?thesis
      by (intro exI [of _ t]) (auto simp: reg_step_def holds_lease_def Register_def Let_def)
  next
    case (Dereg j)
    with h k ok show ?thesis
      by (intro exI [of _ t]) (auto simp: reg_step_def holds_lease_def Deregister_def remove_other)
  qed (use h k ok in \<open>auto simp: reg_step_def holds_lease_def watch_open_def watch_turn_def
      watch_close_def intro!: exI [of _ t]\<close>)
qed

lemma holds_lease_run:
  "holds_lease l i ep t s \<Longrightarrow> kept l i t es \<Longrightarrow> \<exists>t'. holds_lease l i ep t' (foldl reg_step s es)"
proof (induction es arbitrary: s t)
  case Nil
  then show ?case by auto
next
  case (Cons e es)
  from holds_lease_step [OF Cons.prems] Cons.IH show ?case by auto
qed

lemma holds_lease_Register:
  "reg_ok s \<Longrightarrow> holds_lease (leaseSeq s + 1) (ep_instance_id ep) ep now (fst (Register now ep s))"
  using reg_ok_Register [of s now ep] by (simp add: holds_lease_def Register_def Let_def)

section \<open>What a watcher can reconstruct\<close>

definition apply_ev :: "(string \<rightharpoonup> endpoint) \<Rightarrow> watch_event \<Rightarrow> (string \<rightharpoonup> endpoint)" where
  "apply_ev m ev = (case ev of ADDED ep \<Rightarrow> m(ep_instance_id ep \<mapsto> ep)
     | REMOVED ep \<Rightarrow> m(ep_instance_id ep := None))"

definition replay :: "watch_event list \<Rightarrow> (string \<rightharpoonup> endpoint)" where
  "replay evs = foldl apply_ev Map.empty evs"

definition wants_ep :: "string \<Rightarrow> endpoint \<Rightarrow> bool" where
  "wants_ep service ep \<longleftrightarrow> service = [] \<or> ep_service ep = service"

definition visible :: "string \<Rightarrow> registry \<Rightarrow> (string \<rightharpoonup> endpoint)" where
  "visible service s i =
     (case map_of (endpoints s) i of None \<Rightarrow> None
      | Some ep \<Rightarrow> if wants_ep service ep then Some ep else None)"

text \<open>Histories in which an instance id always registers under the same service.\<close>

definition stable_service :: "(string \<Rightarrow> string) \<Rightarrow> reg_event \<Rightarrow> bool" where
  "stable_service svc e = (case e of Reg now ep \<Rightarrow> ep_service ep = svc (ep_instance_id ep) | _ \<Rightarrow> True)"

definition mirror_ok :: "(string \<Rightarrow> string) \<Rightarrow> registry \<Rightarrow> bool" where
  "mirror_ok svc s \<longleftrightarrow> reg_ok s \<and>
     (\<forall>i ep. map_of (endpoints s) i = Some ep \<longrightarrow> ep_service ep = svc i) \<and>
     (\<forall>w \<in> set (watchers s). replay (w_sent w @ w_queue w) = visible (w_service w) s)"

lemma apply_ev_simps [simp]:
  "apply_ev m (ADDED ep) = m(ep_instance_id ep \<mapsto> ep)"
  "apply_ev m (REMOVED ep) = m(ep_instance_id ep := None)"
  by (simp_all add: apply_ev_def)

lemma replay_snoc: "replay (evs @ [ev]) = apply_ev (replay evs) ev"
  by (simp add: replay_def)

lemma replay_list:
  assumes "uniq_keys xs" "\<forall>i ep. (i, ep) \<in> set xs \<longrightarrow> ep_instance_id ep = i"
  shows "foldl apply_ev m (map ADDED (filter P (map snd xs))) i =
    (case map_of xs i of None \<Rightarrow> m i | Some ep \<Rightarrow> if P ep then Some ep else m i)"
  using assms
proof (induction xs arbitrary: m i)
  case Nil
  then show ?case by simp
next
  case (Cons x xs)
  obtain k ep where x: "x = (k, ep)" by (metis prod.exhaust)
  have "map_of xs k = None" "uniq_keys xs" "ep_instance_id ep = k"
    using Cons.prems by (auto simp: x uniq_keys_def map_of_eq_None_iff)
  moreover have "\<forall>i ep. (i, ep) \<in> set xs \<longrightarrow> ep_instance_id ep = i" using Cons.prems by simp
  ultimately show ?case by (cases "i = k") (simp_all add: x Cons.IH split: option.splits)
qed

lemma replay_open:
  assumes "reg_ok s"
  shows "replay (map ADDED (ListEndpoints service s)) = visible service s"
proof
  fix i
  have "uniq_keys (endpoints s)" "\<forall>i ep. (i, ep) \<in> set (endpoints s) \<longrightarrow> ep_instance_id ep = i"
    using assms by (auto simp: reg_ok_def uniq_keys_mem)
  from replay_list [OF this] show "replay (map ADDED (ListEndpoints service s)) i = visible service s i"
    by (auto simp: replay_def ListEndpoints_def visible_def wants_ep_def split: option.splits)
qed

text \<open>Broadcasting the change of one table entry keeps every watcher's replay exact.\<close>

lemma mirror_broadcast:
  assumes ws: "\<forall>w \<in> set ws. replay (w_sent w @ w_queue w) = visible (w_service w) s"
    and same: "\<And>i. i \<noteq> ep_instance_id (ev_endpoint ev) \<Longrightarrow> map_of (endpoints s') i = map_of (endpoints s) i"
    and new: "map_of (endpoints s') (ep_instance_id (ev_endpoint ev)) =
      (case ev of ADDED ep \<Rightarrow> Some ep | REMOVED ep \<Rightarrow> None)"
    and old: "\<And>ep. map_of (endpoints s) (ep_instance_id (ev_endpoint ev)) = Some ep \<Longrightarrow>
      ep_service ep = ep_service (ev_endpoint ev)"
    and w: "w \<in> set (broadcastEvent ev ws)"
  shows "replay (w_sent w @ w_queue w) = visible (w_service w) s'"
proof
  fix i
  from w obtain w0 where w0: "w0 \<in> set ws" "w = (if w_service w0 \<noteq> [] \<and>
      w_service w0 \<noteq> ep_service (ev_endpoint ev) then w0 else w0\<lparr>w_queue := w_queue w0 @ [ev]\<rparr>)"
    by (auto simp: broadcastEvent_def)
  have r: "replay (w_sent w0 @ w_queue w0) i = visible (w_service w0) s i" using ws w0(1) by simp
  show "replay (w_sent w @ w_queue w) i = visible (w_service w) s' i"
  proof (cases "wants_ep (w_service w0) (ev_endpoint ev)")
    case True
    then have "w = w0\<lparr>w_queue := w_queue w0 @ [ev]\<rparr>" using w0(2) by (auto simp: wants_ep_def)
    then have rp: "replay (w_sent w @ w_queue w) i = apply_ev (replay (w_sent w0 @ w_queue w0)) ev i"
      and "w_service w = w_service w0" using replay_snoc [of "w_sent w0 @ w_queue w0" ev] by simp_all
    with True r same [of i] new show ?thesis
      by (cases "i = ep_instance_id (ev_endpoint ev)"; cases ev)
        (simp_all add: rp visible_def ev_endpoint_def)
  next
    case False
    then have "w = w0" using w0(2) by (auto simp: wants_ep_def)
    with False r same [of i] new old show ?thesis
      by (cases "i = ep_instance_id (ev_endpoint ev)"; cases ev)
        (auto simp: visible_def wants_ep_def ev_endpoint_def split: option.splits)
  qed
qed

lemma mirror_remove:
  assumes "mirror_ok svc s"
  shows "mirror_ok svc (removeInstanceLocked i s)"
proof (cases "map_of (endpoints s) i")
  case None
  with assms show ?thesis by (simp add: removeInstanceLocked_def)
next
  case (Some ep)
  have ok: "reg_ok s" and id: "ep_instance_id ep = i"
    using assms Some by (auto simp: mirror_ok_def reg_ok_def)
  obtain l where l: "instanceToLease s i = Some l" using registered_lease [OF ok] Some by blast
  let ?s' = "removeInstanceLocked i s"
  have "replay (w_sent w @ w_queue w) = visible (w_service w) ?s'" if "w \<in> set (watchers ?s')" for w
    by (rule mirror_broadcast [where ev = "REMOVED ep" and ws = "watchers s" and s = s])
      (use assms Some l id that in \<open>auto simp: mirror_ok_def remove_eq [OF Some l] ev_endpoint_def\<close>)
  with assms show ?thesis by (auto simp: mirror_ok_def)
qed

lemma mirror_removes:
  "mirror_ok svc s \<Longrightarrow> mirror_ok svc (foldl (\<lambda>s i. removeInstanceLocked i s) s is)"
  by (induction "is" arbitrary: s) (auto simp: mirror_remove)

lemma mirror_Register:
  assumes "mirror_ok svc s" "ep_service ep = svc (ep_instance_id ep)"
  shows "mirror_ok svc (fst (Register now ep s))"
proof -
  let ?s' = "fst (Register now ep s)"
  have "replay (w_sent w @ w_queue w) = visible (w_service w) ?s'" if "w \<in> set (watchers ?s')" for w
    by (rule mirror_broadcast [where ev = "ADDED ep" and ws = "watchers s" and s = s])
      (use assms that in \<open>auto simp: mirror_ok_def Register_def Let_def ev_endpoint_def\<close>)
  with assms show ?thesis by (auto simp: mirror_ok_def) (auto simp: Register_def Let_def split: if_splits)
qed

lemma visible_cong: "endpoints s' = endpoints s \<Longrightarrow> visible service s' = visible service s"
  by (simp add: visible_def fun_eq_iff)

lemma watcher_pop_conserves [simp]:
  "w_sent (watcher_pop w) @ w_queue (watcher_pop w) = w_sent w @ w_queue w"
  "w_service (watcher_pop w) = w_service w"
  by (auto simp: watcher_pop_def split: list.splits)

lemma mirror_turn: "mirror_ok svc s \<Longrightarrow> mirror_ok svc (watch_turn wid written s)"
  using visible_cong [of "watch_turn wid written s" s]
  by (auto simp: mirror_ok_def watch_turn_def watch_close_def)

lemma mirror_open: "mirror_ok svc s \<Longrightarrow> mirror_ok svc (watch_open wid service s)"
  using visible_cong [of "watch_open wid service s" s]
  by (auto simp: mirror_ok_def watch_open_def replay_open)

lemma mirror_close: "mirror_ok svc s \<Longrightarrow> mirror_ok svc (watch_close wid s)"
  using visible_cong [of "watch_close wid s" s] by (auto simp: mirror_ok_def watch_close_def)

lemma mirror_Keep: "mirror_ok svc s \<Longrightarrow> mirror_ok svc (fst (KeepAlive now l s))"
  using visible_cong [of "fst (KeepAlive now l s)" s] reg_ok_KeepAlive [of s now l]
  by (cases "leaseToInstance s l") (simp_all add: mirror_ok_def KeepAlive_def)

interpretation mirror: guarded_machine new_registry reg_step "stable_service svc" "mirror_ok svc" for svc
proof unfold_locales
  show "mirror_ok svc new_registry" by (simp add: mirror_ok_def) (simp add: new_registry_def)
next
  fix e s
  assume "stable_service svc e" "mirror_ok svc s"
  then show "mirror_ok svc (reg_step s e)"
    by (cases e) (simp_all add: reg_step_def stable_service_def mirror_Register Deregister_def
        mirror_remove gc_def Let_def mirror_removes mirror_turn mirror_open mirror_close mirror_Keep)
qed

section \<open>Properties\<close>

text \<open>C15. The registry's five tables stay consistent through every history of calls: an
  instance is listed iff it has a last-seen time and a lease, leases and instances are in
  bijection, and lease numbers are positive and never exceed the sequence counter.\<close>

theorem registry_consistent: "reg_ok (foldl reg_step new_registry es)"
  by (rule rg.run_inv)

text \<open>A garbage collection at time now drops exactly the instances whose last renewal
  is more than 30 full seconds old, whatever happened before.\<close>

theorem gc_exact:
  "map_of (endpoints (gc now (foldl reg_step new_registry es))) i =
    (case map_of (lastSeen (foldl reg_step new_registry es)) i of None \<Rightarrow> None
     | Some ts \<Rightarrow> if kTtlSec < elapsed_sec now ts then None
                   else map_of (endpoints (foldl reg_step new_registry es)) i)"
  by (rule gc_endpoints [OF rg.run_inv])

text \<open>C29. An instance that renews its lease in time stays registered: after a registration,
  whatever else happens, as long as nobody deregisters or re-registers it and at each
  collection its last renewal is at most 30 seconds old, it is still listed and its lease
  still renews.\<close>

theorem lease_keeps_instance:
  assumes "kept (leaseSeq (foldl reg_step new_registry es0) + 1) (ep_instance_id ep) t es"
  shows "map_of (endpoints (foldl reg_step new_registry (es0 @ Reg t ep # es))) (ep_instance_id ep) = Some ep
    \<and> snd (KeepAlive now (leaseSeq (foldl reg_step new_registry es0) + 1)
          (foldl reg_step new_registry (es0 @ Reg t ep # es))) = Some kTtlSec"
proof -
  from holds_lease_run [OF holds_lease_Register [OF rg.run_inv] assms]
  obtain t' where "holds_lease (leaseSeq (foldl reg_step new_registry es0) + 1) (ep_instance_id ep) ep t'
      (foldl reg_step new_registry (es0 @ Reg t ep # es))"
    by (auto simp: reg_step_def)
  then show ?thesis by (auto simp: holds_lease_def KeepAlive_def reg_ok_lease [THEN iffD2])
qed

definition demo_endpoint :: endpoint where
  "demo_endpoint = \<lparr>ep_instance_id = ''l1'', ep_service = ''logic'', ep_addr = ''a:1'', ep_weight = 1\<rparr>"

theorem lease_keeps_instance_witness:
  "map_of (endpoints (foldl reg_step new_registry ([] @ Reg 0 demo_endpoint #
      [Gc 20000000000, Keep 25000000000 1, Gc 50000000000]))) ''l1'' = Some demo_endpoint"
proof -
  have "kept (leaseSeq (foldl reg_step new_registry []) + 1) (ep_instance_id demo_endpoint) 0
      [Gc 20000000000, Keep 25000000000 1, Gc 50000000000]"
    by (simp add: new_registry_def elapsed_sec_def kTtlSec_def)
  from lease_keeps_instance [OF this] show ?thesis by (simp add: demo_endpoint_def)
qed

text \<open>C16. What a watch stream has sent, followed by what it still queues, replays to exactly
  the registered endpoints of the watched service, at every moment of every history in
  which no instance id changes its service.\<close>

theorem watch_stream_mirrors:
  assumes "list_all (stable_service svc) es" "w \<in> set (watchers (foldl reg_step new_registry es))"
  shows "replay (w_sent w @ w_queue w) = visible (w_service w) (foldl reg_step new_registry es)"
  using mirror.run_inv [OF assms(1)] assms(2) by (auto simp: mirror_ok_def)

theorem watch_stream_mirrors_witness:
  "replay ([] @ [ADDED demo_endpoint]) = visible ''logic''
     (foldl reg_step new_registry [WatchOpen 0 ''logic'', Reg 5 demo_endpoint])"
  using watch_stream_mirrors [of "\<lambda>i. ''logic''" "[WatchOpen 0 ''logic'', Reg 5 demo_endpoint]"
      "\<lparr>w_id = 0, w_service = ''logic'', w_queue = [ADDED demo_endpoint], w_sent = []\<rparr>"]
  by (simp add: stable_service_def reg_step_def watch_open_def Register_def new_registry_def
      broadcastEvent_def ListEndpoints_def ev_endpoint_def demo_endpoint_def Let_def)

end
