(* ===== verification/LogicPool.thy ===== *)
theory LogicPool
  imports LogicClient HashRing Json Registry
begin

text \<open>
  \<^verbatim>\<open>src/src/gateway/LogicClientPool.h\<close>: the gateway's pool of logic instances, maintained from
  registry or etcd events, and the routing of upstream messages with one failover attempt.
  The iteration order of the \<^verbatim>\<open>unordered_map\<close> of clients is the parameter \<open>order\<close>.
\<close>

record 'b pool =
  clients :: "string \<rightharpoonup> 'b lclient"
  instanceToAddr :: "string \<rightharpoonup> string"
  p_ring :: hring
  localAz :: string
  addrToAz :: "string \<rightharpoonup> string"
  ringByAz :: "string \<rightharpoonup> hring"
  p_gatewayId :: string

definition new_pool :: "string \<Rightarrow> string \<Rightarrow> 'b pool" where
  "new_pool gatewayId az =
     \<lparr>clients = Map.empty, instanceToAddr = Map.empty, p_ring = new_ring 200, localAz = az,
      addrToAz = Map.empty, ringByAz = Map.empty, p_gatewayId = gatewayId\<rparr>"

definition addEndpoint :: "'b breaker_lib \<Rightarrow> hashfn \<Rightarrow> endpoint \<Rightarrow> string \<Rightarrow> 'b pool \<Rightarrow> 'b pool" where
  "addEndpoint B H ep az p =
     (if clients p (ep_addr ep) \<noteq> None then p
      else
        (let c = lc_start (new_lclient B (ep_addr ep) (p_gatewayId p));
             p1 = p\<lparr>clients := (clients p)(ep_addr ep \<mapsto> c),
                    instanceToAddr := (instanceToAddr p)(ep_instance_id ep \<mapsto> ep_addr ep),
                    p_ring := addNode H (p_ring p) (ep_addr ep)\<rparr>
         in if az \<noteq> [] then
              (let r = (case ringByAz p1 az of Some r \<Rightarrow> r | None \<Rightarrow> new_ring 200)
               in p1\<lparr>ringByAz := (ringByAz p1)(az \<mapsto> addNode H r (ep_addr ep)),
                     addrToAz := (addrToAz p1)(ep_addr ep \<mapsto> az)\<rparr>)
            else p1))"

definition removeEndpoint :: "string \<Rightarrow> 'b pool \<Rightarrow> 'b pool" where
  "removeEndpoint instanceId p =
     (case instanceToAddr p instanceId of None \<Rightarrow> p
      | Some addr \<Rightarrow>
        (let p1 = p\<lparr>instanceToAddr := (instanceToAddr p)(instanceId := None)\<rparr>
         in case clients p1 addr of None \<Rightarrow> p1
            | Some c \<Rightarrow>
              (let p2 = p1\<lparr>clients := (clients p1)(addr := None), p_ring := removeNode (p_ring p1) addr\<rparr>
               in case addrToAz p2 addr of None \<Rightarrow> p2
                  | Some az \<Rightarrow>
                    (let p3 = (case ringByAz p2 az of None \<Rightarrow> p2
                               | Some r \<Rightarrow> p2\<lparr>ringByAz := (ringByAz p2)(az \<mapsto> removeNode r addr)\<rparr>)
                     in p3\<lparr>addrToAz := (addrToAz p3)(addr := None)\<rparr>))))"

text \<open>The first critical section of \<^verbatim>\<open>handleMessage\<close>: the address chosen for a routing key.\<close>

definition az_choice :: "hashfn \<Rightarrow> 'b pool \<Rightarrow> string \<Rightarrow> string" where
  "az_choice H p routingKey =
     (if localAz p \<noteq> [] then
        (case ringByAz p (localAz p) of None \<Rightarrow> []
         | Some r \<Rightarrow> if \<not> ring_empty r then ring_get H r routingKey else [])
      else [])"

definition choose_primary :: "hashfn \<Rightarrow> 'b pool \<Rightarrow> string \<Rightarrow> status + string" where
  "choose_primary H p routingKey =
     (let a = az_choice H p routingKey
      in if a = [] \<and> ring_empty (p_ring p) then Inl (UNAVAILABLE, ''no logic instance'')
         else
           (let addr = (if a = [] then ring_get H (p_ring p) routingKey else a)
            in case clients p addr of None \<Rightarrow> Inl (UNAVAILABLE, ''no client for '' @ addr)
               | Some c \<Rightarrow> Inr addr))"

text \<open>One loop over the clients: skip the primary and the unhealthy, stop at the first wanted.\<close>

fun scan_backup :: "'b breaker_lib \<Rightarrow> string \<Rightarrow> (string \<Rightarrow> bool) \<Rightarrow> string list
    \<Rightarrow> (string \<rightharpoonup> 'b lclient) \<Rightarrow> string option \<times> (string \<rightharpoonup> 'b lclient)" where
  "scan_backup B primaryAddr wanted [] cs = (None, cs)"
| "scan_backup B primaryAddr wanted (addr # rest) cs =
     (case cs addr of None \<Rightarrow> scan_backup B primaryAddr wanted rest cs
      | Some c \<Rightarrow>
        if addr = primaryAddr then scan_backup B primaryAddr wanted rest cs
        else
          (let (h, c') = healthy B c; cs' = cs(addr \<mapsto> c')
           in if \<not> h then scan_backup B primaryAddr wanted rest cs'
              else if wanted addr then (Some addr, cs')
              else scan_backup B primaryAddr wanted rest cs'))"

definition pick_backup :: "'b breaker_lib \<Rightarrow> string list \<Rightarrow> string \<Rightarrow> 'b pool \<Rightarrow> string option \<times> 'b pool" where
  "pick_backup B order primaryAddr p =
     (let (b1, cs1) = (if localAz p \<noteq> []
              then scan_backup B primaryAddr (\<lambda>a. addrToAz p a = Some (localAz p)) order (clients p)
              else (None, clients p))
      in case b1 of Some a \<Rightarrow> (Some a, p\<lparr>clients := cs1\<rparr>)
         | None \<Rightarrow>
           (let (b2, cs2) = scan_backup B primaryAddr (\<lambda>a. True) order cs1
            in (b2, p\<lparr>clients := cs2\<rparr>)))"

text \<open>\<open>call_client\<close> runs one client's RPC and stores the client back.\<close>

definition call_client :: "'b breaker_lib \<Rightarrow> rpc \<Rightarrow> ms \<Rightarrow> string \<Rightarrow> uid \<Rightarrow> string \<Rightarrow> string \<Rightarrow> string
    \<Rightarrow> string \<Rightarrow> 'b pool \<Rightarrow> status \<times> string \<times> string list \<times> 'b pool" where
  "call_client B rpc nowMs addr u deviceId connId payload reply p =
     (case clients p addr of
        None \<Rightarrow> ((UNAVAILABLE, ''no client for '' @ addr), reply, [], p)
      | Some c \<Rightarrow>
        (let (st, rep, c', calls) = lc_handleMessage B rpc nowMs c u deviceId connId payload reply
         in (st, rep, calls, p\<lparr>clients := (clients p)(addr \<mapsto> c')\<rparr>)))"

definition pool_handleMessage :: "'b breaker_lib \<Rightarrow> hashfn \<Rightarrow> rpc \<Rightarrow> ms \<Rightarrow> string list \<Rightarrow> uid \<Rightarrow> string
    \<Rightarrow> string \<Rightarrow> string \<Rightarrow> string \<Rightarrow> string \<Rightarrow> 'b pool \<Rightarrow> status \<times> string \<times> string list \<times> 'b pool" where
  "pool_handleMessage B H rpc nowMs order u deviceId connId routingKey payload reply p =
     (case choose_primary H p routingKey of Inl st \<Rightarrow> (st, reply, [], p)
      | Inr primaryAddr \<Rightarrow>
        (let (st, rep, calls, p1) = call_client B rpc nowMs primaryAddr u deviceId connId payload reply p
         in if fst st = OK then (st, rep, calls, p1)
            else if \<not> transport_error st then (st, rep, calls, p1)
            else
              (case pick_backup B order primaryAddr p1 of
                 (None, p2) \<Rightarrow> (st, rep, calls, p2)
               | (Some backup, p2) \<Rightarrow>
                 (let (st2, rep2, calls2, p3) =
                        call_client B rpc nowMs backup u deviceId connId payload rep p2
                  in (st2, rep2, calls @ calls2, p3)))))"

definition pool_notifyConnOpen :: "uid \<Rightarrow> string \<Rightarrow> 'b pool \<Rightarrow> 'b pool" where
  "pool_notifyConnOpen u d p = p\<lparr>clients := map_option (lc_notifyConnOpen u d) \<circ> clients p\<rparr>"

definition pool_notifyConnClose :: "uid \<Rightarrow> string \<Rightarrow> 'b pool \<Rightarrow> 'b pool" where
  "pool_notifyConnClose u d p = p\<lparr>clients := map_option (lc_notifyConnClose u d) \<circ> clients p\<rparr>"

section \<open>Discovery events\<close>

definition instanceIdFromKey :: "string \<Rightarrow> string \<Rightarrow> string" where
  "instanceIdFromKey etcdPrefix key =
     (if length key \<le> length etcdPrefix then []
      else if take (length etcdPrefix) key \<noteq> etcdPrefix then []
      else drop (length etcdPrefix) key)"

text \<open>\<^verbatim>\<open>parseEndpoint\<close>: a malformed value is skipped, a member of the wrong type throws.\<close>

datatype parse_error = Malformed | TypeError

definition parseEndpoint :: "jlib \<Rightarrow> string \<Rightarrow> string \<Rightarrow> string \<Rightarrow> parse_error + endpoint \<times> string" where
  "parseEndpoint L etcdPrefix key v =
     (case lib_parse L v of None \<Rightarrow> Inl Malformed
      | Some j \<Rightarrow>
        if \<not> contains j ''addr'' then Inl Malformed
        else
          (case (value_str j ''instance'' (instanceIdFromKey etcdPrefix key),
                 value_str j ''service'' ''logic'', jlookup j ''addr'',
                 value_int32 j ''weight'' 1, value_str j ''az'' []) of
             (Some i, Some s, Some (JStr a), Some w, Some az) \<Rightarrow>
               Inr (\<lparr>ep_instance_id = i, ep_service = s, ep_addr = a, ep_weight = w\<rparr>, az)
           | _ \<Rightarrow> Inl TypeError))"

text \<open>
  The callback of \<^verbatim>\<open>etcdPollLoop\<close> on one diff; \<open>None\<close> in the second component says that the
  callback ran to its end, \<open>Some\<close> that an exception left it (the loop catches and logs it).
\<close>

fun etcd_adds :: "jlib \<Rightarrow> 'b breaker_lib \<Rightarrow> hashfn \<Rightarrow> string \<Rightarrow> bool \<Rightarrow> (string \<times> string) list \<Rightarrow> 'b pool
    \<Rightarrow> 'b pool \<times> parse_error option" where
  "etcd_adds L B H pre replace [] p = (p, None)"
| "etcd_adds L B H pre replace ((k, v) # kvs) p =
     (case parseEndpoint L pre k v of
        Inl TypeError \<Rightarrow> (p, Some TypeError)
      | Inl Malformed \<Rightarrow> etcd_adds L B H pre replace kvs p
      | Inr (ep, az) \<Rightarrow>
          etcd_adds L B H pre replace kvs
            (addEndpoint B H ep az (if replace then removeEndpoint (ep_instance_id ep) p else p)))"

fun etcd_removes :: "string \<Rightarrow> string list \<Rightarrow> 'b pool \<Rightarrow> 'b pool" where
  "etcd_removes pre [] p = p"
| "etcd_removes pre (key # keys) p =
     (let instId = instanceIdFromKey pre key
      in etcd_removes pre keys (if instId \<noteq> [] then removeEndpoint instId p else p))"

definition etcd_diff :: "jlib \<Rightarrow> 'b breaker_lib \<Rightarrow> hashfn \<Rightarrow> string \<Rightarrow> (string \<times> string) list \<Rightarrow> string list
    \<Rightarrow> (string \<times> string) list \<Rightarrow> 'b pool \<Rightarrow> 'b pool \<times> parse_error option" where
  "etcd_diff L B H pre added removedKeys updated p =
     (case etcd_adds L B H pre False added p of
        (p1, Some e) \<Rightarrow> (p1, Some e)
      | (p1, None) \<Rightarrow> etcd_adds L B H pre True updated (etcd_removes pre removedKeys p1))"

datatype pool_event = Added endpoint | Removed string | Updated endpoint | Unspecified
  | EtcdDiff "(string \<times> string) list" "string list" "(string \<times> string) list"
  | Message ms "string list" uid string string string string string
  | UserOpen uid string | UserClose uid string

definition pool_step :: "jlib \<Rightarrow> 'b breaker_lib \<Rightarrow> hashfn \<Rightarrow> rpc \<Rightarrow> string \<Rightarrow> 'b pool \<Rightarrow> pool_event \<Rightarrow> 'b pool" where
  "pool_step L B H rpc pre p e =
     (case e of
        Added ep \<Rightarrow> addEndpoint B H ep [] p
      | Removed i \<Rightarrow> removeEndpoint i p
      | Updated ep \<Rightarrow> addEndpoint B H ep [] p
      | Unspecified \<Rightarrow> p
      | EtcdDiff a r u \<Rightarrow> fst (etcd_diff L B H pre a r u p)
      | Message t order u d c k pay rep \<Rightarrow>
          snd (snd (snd (pool_handleMessage B H rpc t order u d c k pay rep p)))
      | UserOpen u d \<Rightarrow> pool_notifyConnOpen u d p
      | UserClose u d \<Rightarrow> pool_notifyConnClose u d p)"

section \<open>Invariant\<close>

text \<open>
  Every node of a ring has a client, a zone's ring holds only addresses tagged with that
  zone, and a client is filed under its own address.
\<close>

definition rings_ok :: "'b pool \<Rightarrow> bool" where
  "rings_ok p \<longleftrightarrow> ring_ok (p_ring p) \<and> (\<forall>a \<in> ring_nodes (p_ring p). clients p a \<noteq> None) \<and>
     (\<forall>az r. ringByAz p az = Some r \<longrightarrow> ring_ok r) \<and>
     (\<forall>az r. ringByAz p az = Some r \<longrightarrow> (\<forall>a \<in> ring_nodes r. addrToAz p a = Some az)) \<and>
     (\<forall>a. addrToAz p a \<noteq> None \<longrightarrow> clients p a \<noteq> None)"

definition pool_ok :: "'b pool \<Rightarrow> bool" where
  "pool_ok p \<longleftrightarrow> rings_ok p \<and> (\<forall>a c. clients p a = Some c \<longrightarrow> lc_addr c = a)"

lemma pool_ok_new [simp]: "pool_ok (new_pool g az)"
  by (simp add: pool_ok_def rings_ok_def new_pool_def)

text \<open>Updates of the client table that keep its addresses keep the invariant.\<close>

lemma pool_ok_clients_upd:
  assumes "pool_ok p" "\<And>a. cs a = None \<longleftrightarrow> clients p a = None" "\<And>a c. cs a = Some c \<Longrightarrow> lc_addr c = a"
  shows "pool_ok (p\<lparr>clients := cs\<rparr>)"
  using assms by (simp add: pool_ok_def rings_ok_def)

lemma rings_ok_add_plain:
  assumes "rings_ok p"
  shows "rings_ok (p\<lparr>clients := (clients p)(a \<mapsto> c), instanceToAddr := m,
    p_ring := addNode H (p_ring p) a\<rparr>)"
  using assms ring_nodes_addNode [of H "p_ring p" a] by (auto simp: rings_ok_def)

lemma rings_ok_add_az:
  assumes "rings_ok p" "addrToAz p a = None" "clients p a \<noteq> None"
  shows "rings_ok (p\<lparr>ringByAz := (ringByAz p)(az \<mapsto>
      addNode H (case ringByAz p az of Some r \<Rightarrow> r | None \<Rightarrow> new_ring 200) a),
    addrToAz := (addrToAz p)(a \<mapsto> az)\<rparr>)"
proof -
  let ?r = "case ringByAz p az of Some r \<Rightarrow> r | None \<Rightarrow> new_ring 200"
  have r: "ring_ok ?r" "\<forall>b \<in> ring_nodes ?r. addrToAz p b = Some az"
    using assms(1) by (auto simp: rings_ok_def split: option.splits)
  have "\<forall>b \<in> ring_nodes (addNode H ?r a). ((addrToAz p)(a \<mapsto> az)) b = Some az"
    using ring_nodes_addNode [of H ?r a] r(2) by auto
  moreover have "\<forall>az' r'. ringByAz p az' = Some r' \<longrightarrow> a \<notin> ring_nodes r'"
    using assms(1,2) by (fastforce simp: rings_ok_def)
  ultimately show ?thesis
    using assms r(1) by (simp add: rings_ok_def) metis
qed

lemma pool_ok_addEndpoint [simp]:
  assumes "pool_ok p"
  shows "pool_ok (addEndpoint B H ep az p)"
proof (cases "clients p (ep_addr ep)")
  case None
  let ?c = "lc_start (new_lclient B (ep_addr ep) (p_gatewayId p))"
  let ?p1 = "p\<lparr>clients := (clients p)(ep_addr ep \<mapsto> ?c),
      instanceToAddr := (instanceToAddr p)(ep_instance_id ep \<mapsto> ep_addr ep),
      p_ring := addNode H (p_ring p) (ep_addr ep)\<rparr>"
  have "rings_ok ?p1" using assms by (intro rings_ok_add_plain) (simp add: pool_ok_def)
  moreover have "addrToAz ?p1 (ep_addr ep) = None"
    using assms None by (auto simp: pool_ok_def rings_ok_def domIff subset_iff)
  moreover have "lc_addr ?c = ep_addr ep" by (simp add: lc_start_def new_lclient_def)
  ultimately show ?thesis
    using assms None rings_ok_add_az [of ?p1 "ep_addr ep" az H]
    by (auto simp: pool_ok_def addEndpoint_def Let_def)
next
  case (Some c)
  then show ?thesis using assms by (simp add: addEndpoint_def)
qed

lemma rings_ok_drop_client:
  assumes "rings_ok p"
  shows "rings_ok (case addrToAz p a of
      None \<Rightarrow> p\<lparr>clients := (clients p)(a := None), p_ring := removeNode (p_ring p) a, instanceToAddr := m\<rparr>
    | Some az \<Rightarrow>
        (case ringByAz p az of
           None \<Rightarrow> p\<lparr>clients := (clients p)(a := None), p_ring := removeNode (p_ring p) a,
             instanceToAddr := m, addrToAz := (addrToAz p)(a := None)\<rparr>
         | Some r \<Rightarrow> p\<lparr>clients := (clients p)(a := None), p_ring := removeNode (p_ring p) a,
             instanceToAddr := m, addrToAz := (addrToAz p)(a := None),
             ringByAz := (ringByAz p)(az \<mapsto> removeNode r a)\<rparr>))"
proof (cases "addrToAz p a")
  case None
  with assms have "\<forall>az r. ringByAz p az = Some r \<longrightarrow> a \<notin> ring_nodes r"
    by (fastforce simp: rings_ok_def)
  with None assms show ?thesis by (simp add: rings_ok_def)
next
  case (Some az)
  have other: "\<forall>az' r'. ringByAz p az' = Some r' \<longrightarrow> az' \<noteq> az \<longrightarrow> a \<notin> ring_nodes r'"
    using assms Some by (fastforce simp: rings_ok_def)
  show ?thesis
  proof (cases "ringByAz p az")
    case None
    with assms Some other show ?thesis by (auto simp: rings_ok_def)
  next
    case (Some r)
    with assms \<open>addrToAz p a = Some az\<close> other show ?thesis
      by (auto simp: rings_ok_def)
  qed
qed

lemma pool_ok_removeEndpoint [simp]:
  assumes "pool_ok p"
  shows "pool_ok (removeEndpoint i p)"
proof (cases "instanceToAddr p i")
  case None
  with assms show ?thesis by (simp add: removeEndpoint_def)
next
  case (Some a)
  show ?thesis
  proof (cases "clients p a")
    case None
    with Some assms show ?thesis
      by (simp add: removeEndpoint_def pool_ok_def rings_ok_def)
  next
    case c: (Some c)
    show ?thesis
      using Some c assms rings_ok_drop_client [of p "(instanceToAddr p)(i := None)" a]
      by (cases "addrToAz p a"; cases "ringByAz p (the (addrToAz p a))")
        (simp_all add: removeEndpoint_def pool_ok_def rings_ok_def Let_def)
  qed
qed

section \<open>Message handling keeps the tables\<close>

definition same_addrs :: "(string \<rightharpoonup> 'b lclient) \<Rightarrow> (string \<rightharpoonup> 'b lclient) \<Rightarrow> bool" where
  "same_addrs cs cs' \<longleftrightarrow> (\<forall>a. map_option lc_addr (cs' a) = map_option lc_addr (cs a))"

lemma same_addrs_refl [simp]: "same_addrs cs cs"
  by (simp add: same_addrs_def)

lemma same_addrs_trans: "same_addrs a b \<Longrightarrow> same_addrs b c \<Longrightarrow> same_addrs a c"
  by (simp add: same_addrs_def)

lemma same_addrs_upd:
  "cs a = Some c \<Longrightarrow> lc_addr c' = lc_addr c \<Longrightarrow> same_addrs cs (cs(a \<mapsto> c'))"
  by (simp add: same_addrs_def)

lemma pool_ok_same_addrs:
  assumes "pool_ok p" "same_addrs (clients p) cs"
  shows "pool_ok (p\<lparr>clients := cs\<rparr>)"
proof (rule pool_ok_clients_upd [OF assms(1)])
  fix a c
  show "cs a = None \<longleftrightarrow> clients p a = None"
    using assms(2) by (metis same_addrs_def option.map_disc_iff)
  assume "cs a = Some c"
  with assms(2) obtain c0 where "clients p a = Some c0" "lc_addr c0 = lc_addr c"
    by (metis (no_types, lifting) same_addrs_def map_option_eq_Some)
  with assms(1) show "lc_addr c = a" by (auto simp: pool_ok_def)
qed

lemma scan_backup_ConsE:
  assumes "scan_backup B pa w (addr # rest) cs = (r, cs')"
  obtains (skip) "scan_backup B pa w rest cs = (r, cs')"
    | (probe) c h c' where "cs addr = Some c" "healthy B c = (h, c')"
        "scan_backup B pa w rest (cs(addr \<mapsto> c')) = (r, cs')"
    | (found) c c' where "cs addr = Some c" "healthy B c = (True, c')" "addr \<noteq> pa" "w addr"
        "r = Some addr" "cs' = cs(addr \<mapsto> c')"
proof (cases "cs addr")
  case None
  then show ?thesis using assms skip by simp
next
  case (Some c)
  obtain h c' where h: "healthy B c = (h, c')" by (metis prod.exhaust)
  consider "addr = pa" | "addr \<noteq> pa" "h" "w addr" | "addr \<noteq> pa" "\<not> h \<or> \<not> w addr" by blast
  then show ?thesis
  proof cases
    case 1
    show ?thesis by (rule skip) (use assms Some 1 in simp)
  next
    case 2
    show ?thesis by (rule found [of c c']) (use assms Some h 2 in \<open>simp_all add: Let_def\<close>)
  next
    case 3
    show ?thesis
      by (rule probe [of c h c']) (use assms Some h 3 in \<open>auto simp: Let_def split: if_splits\<close>)
  qed
qed

lemma scan_backup_same: "scan_backup B pa w ord cs = (r, cs') \<Longrightarrow> same_addrs cs cs'"
proof (induction ord arbitrary: cs)
  case Nil
  then show ?case by simp
next
  case (Cons addr rest)
  from Cons.prems show ?case
  proof (cases rule: scan_backup_ConsE)
    case skip
    then show ?thesis by (rule Cons.IH)
  next
    case (probe c h c')
    then show ?thesis
      using Cons.IH [OF probe(3)] same_addrs_upd [where cs = cs and a = addr and c = c and c' = c']
        lc_addr_healthy [OF probe(2)] by (metis same_addrs_trans)
  next
    case (found c c')
    then show ?thesis
      using same_addrs_upd [where cs = cs and a = addr and c = c and c' = c'] lc_addr_healthy by metis
  qed
qed

lemma scan_backup_SomeD:
  "scan_backup B pa w ord cs = (Some b, cs') \<Longrightarrow> b \<noteq> pa \<and> w b \<and> b \<in> set ord \<and> cs' b \<noteq> None"
proof (induction ord arbitrary: cs)
  case Nil
  then show ?case by simp
next
  case (Cons addr rest)
  from Cons.prems show ?case
  proof (cases rule: scan_backup_ConsE)
    case skip
    then show ?thesis using Cons.IH by simp
  next
    case (probe c h c')
    then show ?thesis using Cons.IH by simp
  next
    case (found c c')
    then show ?thesis by simp
  qed
qed

lemma pick_backup_keeps:
  assumes "pick_backup B ord pa p = (b, p')"
  shows "p' = p\<lparr>clients := clients p'\<rparr> \<and> same_addrs (clients p) (clients p')"
  using assms
  by (auto simp: pick_backup_def Let_def split: option.splits if_splits prod.splits
      dest!: scan_backup_same intro: same_addrs_trans)

lemma pick_backup_SomeD:
  "pick_backup B ord pa p = (Some b, p') \<Longrightarrow> b \<noteq> pa \<and> b \<in> set ord \<and> clients p' b \<noteq> None"
  by (auto simp: pick_backup_def Let_def split: option.splits if_splits prod.splits
      dest!: scan_backup_SomeD)

lemma call_client_keeps:
  assumes "call_client B rpc t a u d k pay rep p = (st, rep', calls, p')"
  shows "p' = p\<lparr>clients := clients p'\<rparr> \<and> same_addrs (clients p) (clients p')"
  using assms
  by (auto simp: call_client_def Let_def split: option.splits prod.splits
      intro!: same_addrs_upd dest: lc_handleMessage_addr)

lemma call_client_calls:
  assumes "call_client B rpc t a u d k pay rep p = (st, rep', calls, p')" "pool_ok p"
  shows "set calls \<subseteq> {a} \<and> length calls \<le> 1"
  using assms
  by (auto simp: call_client_def Let_def pool_ok_def split: option.splits prod.splits
      dest!: lc_handleMessage_calls)

lemma pool_ok_of_keeps:
  assumes "pool_ok p" "p' = p\<lparr>clients := clients p'\<rparr> \<and> same_addrs (clients p) (clients p')"
  shows "pool_ok p'"
  using pool_ok_same_addrs assms by metis

lemmas pool_ok_call = pool_ok_of_keeps [OF _ call_client_keeps]
lemmas pool_ok_pick = pool_ok_of_keeps [OF _ pick_backup_keeps]

lemma pool_ok_handleMessage:
  assumes "pool_ok p" "pool_handleMessage B H rpc t ord u d k rk pay rep p = (st, rep', calls, p')"
  shows "pool_ok p'"
proof (cases "choose_primary H p rk")
  case (Inl e)
  with assms show ?thesis by (simp add: pool_handleMessage_def)
next
  case (Inr pa)
  obtain st1 rep1 calls1 p1 where c1: "call_client B rpc t pa u d k pay rep p = (st1, rep1, calls1, p1)"
    by (metis prod_cases4)
  obtain b p2 where b: "pick_backup B ord pa p1 = (b, p2)" by (metis prod.exhaust)
  have ok: "pool_ok p1" "pool_ok p2"
    using pool_ok_call [OF assms(1) c1] pool_ok_pick [OF _ b] by auto
  show ?thesis
    using assms(2) Inr c1 b ok
    by (auto simp: pool_handleMessage_def Let_def dest: pool_ok_call [OF ok(2)]
        split: if_splits option.splits prod.splits)
qed

lemma pool_ok_handleMessage':
  "pool_ok p \<Longrightarrow> pool_ok (snd (snd (snd (pool_handleMessage B H rpc t ord u d k rk pay rep p))))"
  by (metis pool_ok_handleMessage prod.collapse)

lemma pool_ok_notify:
  "pool_ok p \<Longrightarrow> pool_ok (pool_notifyConnOpen u d p)"
  "pool_ok p \<Longrightarrow> pool_ok (pool_notifyConnClose u d p)"
  unfolding pool_notifyConnOpen_def pool_notifyConnClose_def
  by (erule pool_ok_same_addrs, simp add: same_addrs_def option.map_comp comp_def)+

lemma pool_ok_etcd_adds: "pool_ok p \<Longrightarrow> pool_ok (fst (etcd_adds L B H pre rp kvs p))"
  by (induction L B H pre rp kvs p rule: etcd_adds.induct)
    (auto split: sum.splits parse_error.splits)

lemma pool_ok_etcd_removes: "pool_ok p \<Longrightarrow> pool_ok (etcd_removes pre keys p)"
  by (induction pre keys p rule: etcd_removes.induct) (simp_all add: Let_def)

lemma pool_ok_etcd_diff: "pool_ok p \<Longrightarrow> pool_ok (fst (etcd_diff L B H pre a r u p))"
  using pool_ok_etcd_adds [of p L B H pre False a] pool_ok_etcd_adds pool_ok_etcd_removes
  by (fastforce simp: etcd_diff_def split: prod.splits option.splits)

interpretation pl: inv_machine "new_pool g az" "pool_step L B H rpc pre" pool_ok for g az L B H rpc pre
  by unfold_locales
    (auto simp: pool_step_def pool_ok_handleMessage' pool_ok_notify pool_ok_etcd_diff
      split: pool_event.splits)

section \<open>Properties\<close>

lemma az_choice_tag:
  assumes "pool_ok p" "az_choice H p k \<noteq> []"
  shows "addrToAz p (az_choice H p k) = Some (localAz p)"
proof -
  from assms(2) obtain r where r: "ringByAz p (localAz p) = Some r" "\<not> ring_empty r"
      "az_choice H p k = ring_get H r k"
    by (auto simp: az_choice_def split: if_splits option.splits)
  with assms(1) ring_get_in_nodes [OF r(2), of H k] show ?thesis
    by (simp add: pool_ok_def rings_ok_def)
qed

lemma choose_primary_InrD:
  "choose_primary H p k = Inr a \<Longrightarrow> clients p a \<noteq> None"
  by (auto simp: choose_primary_def Let_def split: if_splits option.splits)

lemma choose_primary_ok:
  assumes ok: "pool_ok p"
  shows "case choose_primary H p k of
     Inl st \<Rightarrow> st = (UNAVAILABLE, ''no logic instance'') \<and> ring_empty (p_ring p)
   | Inr a \<Rightarrow> clients p a \<noteq> None \<and>
       (if az_choice H p k = [] then True else addrToAz p a = Some (localAz p))"
proof (cases "az_choice H p k = []")
  case True
  have "clients p (ring_get H (p_ring p) k) \<noteq> None" if "\<not> ring_empty (p_ring p)"
    using ring_get_in_nodes [OF that] ok by (auto simp: pool_ok_def rings_ok_def)
  with True show ?thesis
    by (cases "ring_empty (p_ring p)") (auto simp: choose_primary_def)
next
  case False
  then have "addrToAz p (az_choice H p k) = Some (localAz p)" by (rule az_choice_tag [OF ok])
  moreover from this ok obtain c where "clients p (az_choice H p k) = Some c"
    unfolding pool_ok_def rings_ok_def by fastforce
  ultimately show ?thesis using False by (simp add: choose_primary_def)
qed

lemma call_client_pool_calls:
  assumes "call_client B rpc t a u d k pay rep p = (st, rep', calls, p')" "pool_ok p"
    "clients p a = Some c"
  shows "calls = [] \<or> calls = [a] \<and> fst (rpc a (mk_request c t u d k pay)) = st"
  using assms
  by (auto simp: call_client_def lc_handleMessage_def Let_def pool_ok_def
      split: if_splits prod.splits)

lemma handleMessage_calls:
  assumes ok: "pool_ok p" and msg: "pool_handleMessage B H rpc t ord u d k rk pay rep p =
      (st, rep', calls, p')"
  shows "calls = [] \<or>
    (\<exists>a. calls = [a] \<and> clients p a \<noteq> None) \<or>
    (\<exists>a b c. calls = [a, b] \<and> a \<noteq> b \<and> clients p a = Some c \<and>
       clients p b \<noteq> None \<and>
       transport_error (fst (rpc a (mk_request c t u d k pay))))"
proof -
  show ?thesis
  proof (cases "choose_primary H p rk")
    case (Inl e)
    with msg show ?thesis by (simp add: pool_handleMessage_def)
  next
    case (Inr pa)
    obtain c where c: "clients p pa = Some c" using choose_primary_InrD [OF Inr] by blast
    obtain st1 rep1 calls1 p1 where c1:
        "call_client B rpc t pa u d k pay rep p = (st1, rep1, calls1, p1)" by (metis prod_cases4)
    obtain b p2 where b: "pick_backup B ord pa p1 = (b, p2)" by (metis prod.exhaust)
    have ok1: "pool_ok p1" and ok2: "pool_ok p2"
      using pool_ok_call [OF ok c1] pool_ok_pick [OF _ b] by auto
    have same: "same_addrs (clients p) (clients p2)"
      using call_client_keeps [OF c1] pick_backup_keeps [OF b] same_addrs_trans by metis
    note first = call_client_pool_calls [OF c1 ok c]
    show ?thesis
    proof (cases "transport_error st1 \<and> fst st1 \<noteq> OK \<and> b \<noteq> None")
      case False
      with msg Inr c1 b first c show ?thesis
        by (auto simp: pool_handleMessage_def Let_def split: if_splits option.splits)
    next
      case True
      then obtain a2 where a2: "b = Some a2" by blast
      with b have b': "pick_backup B ord pa p1 = (Some a2, p2)" by simp
      obtain c2 where cp: "clients p2 a2 = Some c2" "a2 \<noteq> pa" using pick_backup_SomeD [OF b'] by blast
      then have inp: "clients p a2 \<noteq> None" using same by (metis same_addrs_def option.map_disc_iff option.distinct(1))
      obtain st3 rep3 calls3 p3 where c3:
          "call_client B rpc t a2 u d k pay rep1 p2 = (st3, rep3, calls3, p3)" by (metis prod_cases4)
      have "calls = calls1 @ calls3"
        using msg Inr c1 b' c3 True by (simp add: pool_handleMessage_def Let_def)
      with first call_client_pool_calls [OF c3 ok2 cp(1)] True c cp inp show ?thesis by auto
    qed
  qed
qed


abbreviation pool_run :: "jlib \<Rightarrow> 'b breaker_lib \<Rightarrow> hashfn \<Rightarrow> rpc \<Rightarrow> string \<Rightarrow> string \<Rightarrow> string
    \<Rightarrow> pool_event list \<Rightarrow> 'b pool" where
  "pool_run L B H rpc pre g az es \<equiv> foldl (pool_step L B H rpc pre) (new_pool g az) es"

text \<open>Routing after any history of discovery events, messages and connection events: a
  message is refused only when the ring has no node, and then as unavailable; otherwise the
  chosen address has a live client, and it lies in the gateway's own zone whenever that
  zone's ring answers. The branch reporting a missing client is never taken.\<close>

theorem pool_routes_to_client:
  "case choose_primary H (pool_run L B H rpc pre g az es) k of
     Inl st \<Rightarrow> st = (UNAVAILABLE, ''no logic instance'') \<and> ring_empty (p_ring (pool_run L B H rpc pre g az es))
   | Inr a \<Rightarrow> clients (pool_run L B H rpc pre g az es) a \<noteq> None \<and>
       (if az_choice H (pool_run L B H rpc pre g az es) k = [] then True
        else addrToAz (pool_run L B H rpc pre g az es) a = Some (localAz (pool_run L B H rpc pre g az es)))"
  by (rule choose_primary_ok [OF pl.run_inv])

text \<open>C25. One message costs at most two RPCs, to two different instances that both have
  clients in the pool, and the second is made only when the first failed in transport: an
  instance that answered with a business error is never asked twice nor is another asked.\<close>

theorem pool_failover:
  assumes "pool_handleMessage B H rpc t ord u d k rk pay rep (pool_run L B H rpc pre g az es) =
      (st, rep', calls, p')"
  shows "calls = [] \<or>
    (\<exists>a. calls = [a] \<and> clients (pool_run L B H rpc pre g az es) a \<noteq> None) \<or>
    (\<exists>a b c. calls = [a, b] \<and> a \<noteq> b \<and> clients (pool_run L B H rpc pre g az es) a = Some c \<and>
       clients (pool_run L B H rpc pre g az es) b \<noteq> None \<and>
       transport_error (fst (rpc a (mk_request c t u d k pay))))"
  using handleMessage_calls [OF pl.run_inv assms] .

definition demo_breaker :: "nat breaker_lib" where
  "demo_breaker = \<lparr>br_new = 0, br_allow = (\<lambda>n. (n < 3, n)), br_success = (\<lambda>n. 0), br_failure = Suc\<rparr>"

definition demo_rpc :: rpc where
  "demo_rpc a r = (if a = ''a:1'' then (UNAVAILABLE, ''down'') else (OK, []), ''hi'')"

definition demo_ep :: "string \<Rightarrow> string \<Rightarrow> endpoint" where
  "demo_ep i a = \<lparr>ep_instance_id = i, ep_service = ''logic'', ep_addr = a, ep_weight = 1\<rparr>"

theorem pool_failover_witness:
  "\<exists>st rep' calls p'.
     pool_handleMessage demo_breaker demo_hash demo_rpc 9 [''a:1''] 5 ''d'' ''k'' ''5'' ''m'' []
       (pool_run \<lparr>lib_dump = \<lambda>j. [], lib_parse = \<lambda>t. None\<rparr> demo_breaker demo_hash demo_rpc ''services/logic/'' ''g'' [] [Added (demo_ep ''i'' ''a:1'')]) =
       (st, rep', calls, p') \<and> length calls \<le> 2"
proof -
  let ?p = "pool_run \<lparr>lib_dump = \<lambda>j. [], lib_parse = \<lambda>t. None\<rparr> demo_breaker demo_hash demo_rpc ''services/logic/'' ''g'' [] [Added (demo_ep ''i'' ''a:1'')]"
  obtain st rep' calls p' where r: "pool_handleMessage demo_breaker demo_hash demo_rpc 9 [''a:1''] 5 ''d'' ''k'' ''5'' ''m'' [] ?p =
       (st, rep', calls, p')" by (metis prod_cases4)
  from pool_failover [OF r] have "length calls \<le> 2" by auto
  with r show ?thesis by blast
qed

text \<open>An address registered under a second instance id keeps the first id as its only
  owner, so the removal of the first instance takes the client and the ring node of the
  second one away although that one is still registered.\<close>

theorem reregistered_address_lost:
  assumes "clients p (ep_addr e1) = None" "ep_addr e2 = ep_addr e1"
  shows "let p' = removeEndpoint (ep_instance_id e1) (addEndpoint B H e2 az2 (addEndpoint B H e1 az1 p))
    in clients p' (ep_addr e2) = None \<and> ep_addr e2 \<notin> ring_nodes (p_ring p')"
  using assms by (auto simp: addEndpoint_def removeEndpoint_def Let_def split: option.splits)

theorem reregistered_address_lost_witness:
  "let p' = removeEndpoint (ep_instance_id (demo_ep ''i1'' ''a:1''))
       (addEndpoint demo_breaker demo_hash (demo_ep ''i2'' ''a:1'') []
         (addEndpoint demo_breaker demo_hash (demo_ep ''i1'' ''a:1'') [] (new_pool ''g'' [])))
    in clients p' (ep_addr (demo_ep ''i2'' ''a:1'')) = None \<and>
      ep_addr (demo_ep ''i2'' ''a:1'') \<notin> ring_nodes (p_ring p')"
  by (rule reregistered_address_lost) (simp_all add: new_pool_def demo_ep_def)

end
