(* ===== verification/Discovery.thy ===== *)
theory Discovery
  imports LogicPool
begin

text \<open>
  A gateway finds its logic instances: the list it fetches at the start and the watch stream of the
  registry drive the pool (\<^verbatim>\<open>bootstrap\<close> and \<^verbatim>\<open>watchLoop\<close> of \<^verbatim>\<open>gateway/LogicClientPool.h\<close>), composed with
  the registry of \<open>Registry\<close>. Messages and connections may use the pool between any two events.
\<close>

section \<open>The loops\<close>

text \<open>The answer to \<^verbatim>\<open>List\<close>, \<open>None\<close> when the call fails.\<close>

definition bootstrap :: "'b breaker_lib \<Rightarrow> hashfn \<Rightarrow> endpoint list option \<Rightarrow> 'b pool \<Rightarrow> 'b pool" where
  "bootstrap B H answer p = (case answer of None \<Rightarrow> p | Some eps \<Rightarrow> foldl (\<lambda>p ep. addEndpoint B H ep [] p) p eps)"

definition pool_event_of :: "watch_event \<Rightarrow> pool_event" where
  "pool_event_of ev = (case ev of ADDED ep \<Rightarrow> Added ep | REMOVED ep \<Rightarrow> Removed (ep_instance_id ep))"

text \<open>The events of a history of the pool that come from discovery.\<close>

definition from_discovery :: "pool_event \<Rightarrow> bool" where
  "from_discovery e = (case e of Message t ord u d c k pay rep \<Rightarrow> False | UserOpen u d \<Rightarrow> False | UserClose u d \<Rightarrow> False | _ \<Rightarrow> True)"

section \<open>The pool follows the events\<close>

text \<open>An instance keeps its address, and no two share one.\<close>

definition at_home :: "(string \<Rightarrow> string) \<Rightarrow> endpoint \<Rightarrow> bool" where
  "at_home addr_of ep \<longleftrightarrow> ep_addr ep = addr_of (ep_instance_id ep)"

definition tracks :: "(string \<Rightarrow> string) \<Rightarrow> 'b pool \<Rightarrow> string set \<Rightarrow> bool" where
  "tracks addr_of p D \<longleftrightarrow> (\<forall>i. instanceToAddr p i = (if i \<in> D then Some (addr_of i) else None)) \<and>
     dom (clients p) = addr_of ` D"

lemma tracks_new: "tracks addr_of (new_pool g az) {}"
  by (simp add: tracks_def new_pool_def)

lemma tracks_add:
  assumes "inj addr_of" "tracks addr_of p D" "at_home addr_of ep"
  shows "tracks addr_of (addEndpoint B H ep az p) (insert (ep_instance_id ep) D)"
proof (cases "clients p (ep_addr ep) = None")
  case True
  with assms(2,3) show ?thesis by (simp add: tracks_def addEndpoint_def at_home_def Let_def)
next
  case False
  then have "ep_addr ep \<in> dom (clients p)" by auto
  then have "addr_of (ep_instance_id ep) \<in> addr_of ` D" using assms(2,3) by (simp add: tracks_def at_home_def)
  then have "ep_instance_id ep \<in> D" by (simp add: inj_image_mem_iff [OF assms(1)])
  with False assms(2) show ?thesis by (simp add: addEndpoint_def insert_absorb)
qed

lemma tracks_remove:
  assumes "inj addr_of" "tracks addr_of p D"
  shows "tracks addr_of (removeEndpoint i p) (D - {i})"
proof (cases "i \<in> D")
  case False
  then have "D - {i} = D" by auto
  with False assms(2) show ?thesis by (simp add: tracks_def removeEndpoint_def)
next
  case True
  then have i: "instanceToAddr p i = Some (addr_of i)" "addr_of i \<in> dom (clients p)" using assms(2) by (auto simp: tracks_def)
  then obtain c where c: "clients p (addr_of i) = Some c" by auto
  have "instanceToAddr (removeEndpoint i p) = (instanceToAddr p)(i := None)" "clients (removeEndpoint i p) = (clients p)(addr_of i := None)"
    using i(1) c by (simp_all add: removeEndpoint_def Let_def split: option.split)
  moreover have "addr_of ` (D - {i}) = addr_of ` D - {addr_of i}"
    using assms(1) by (simp add: image_set_diff)
  ultimately show ?thesis using assms(2) by (simp add: tracks_def)
qed

lemma tracks_unknown: "inj addr_of \<Longrightarrow> tracks addr_of p D \<Longrightarrow> i \<notin> D \<Longrightarrow> clients p (addr_of i) = None"
  unfolding tracks_def by (metis domIff inj_image_mem_iff)

definition keeps :: "'b pool \<Rightarrow> 'b pool \<Rightarrow> bool" where
  "keeps p p' \<longleftrightarrow> p' = p\<lparr>clients := clients p'\<rparr> \<and> same_addrs (clients p) (clients p')"

lemma keeps_trans: "keeps p q \<Longrightarrow> keeps q r \<Longrightarrow> keeps p r"
  unfolding keeps_def by (metis same_addrs_trans pool.surjective pool.update_convs(1))

lemma keeps_tables:
  assumes "keeps p p'"
  shows "instanceToAddr p' = instanceToAddr p" "clients p' a = None \<longleftrightarrow> clients p a = None"
  using assms unfolding keeps_def
  by (metis pool.select_convs(2) pool.surjective pool.update_convs(1), metis same_addrs_def option.map_disc_iff)

lemma keeps_message:
  assumes "pool_handleMessage B H rpc t ord u d k rk pay rep p = (st, rep', calls, p')"
  shows "keeps p p'"
proof (cases "choose_primary H p rk")
  case (Inl e)
  with assms show ?thesis by (simp add: pool_handleMessage_def keeps_def)
next
  case (Inr pa)
  obtain st1 rep1 calls1 p1 where c1: "call_client B rpc t pa u d k pay rep p = (st1, rep1, calls1, p1)" by (metis prod_cases4)
  obtain b p2 where b: "pick_backup B ord pa p1 = (b, p2)" by (metis prod.exhaust)
  have t1: "keeps p p1" using call_client_keeps [OF c1] by (simp add: keeps_def)
  have t2: "keeps p p2" using keeps_trans [OF t1] pick_backup_keeps [OF b] by (simp add: keeps_def)
  have t3: "keeps p p3" if "call_client B rpc t x u d k pay rep1 p2 = (st2, rep2, calls2, p3)" for x st2 rep2 calls2 p3
    using keeps_trans [OF t2] call_client_keeps [OF that] by (simp add: keeps_def)
  show ?thesis
    using assms Inr c1 b t1 t2 by (auto simp: pool_handleMessage_def Let_def dest: t3 split: if_splits option.splits prod.splits)
qed

lemma keeps_other:
  assumes "\<not> from_discovery e"
  shows "keeps p (pool_step L B H rpc pre p e)"
proof (cases e)
  case (Message t ord u d c k pay rep)
  then show ?thesis by (simp add: pool_step_def) (metis keeps_message prod.collapse)
next
  case (UserOpen u d)
  then show ?thesis by (simp add: pool_step_def keeps_def pool_notifyConnOpen_def same_addrs_def option.map_comp comp_def)
next
  case (UserClose u d)
  then show ?thesis by (simp add: pool_step_def keeps_def pool_notifyConnClose_def same_addrs_def option.map_comp comp_def)
qed (use assms in \<open>simp_all add: from_discovery_def\<close>)

lemma tracks_keeps: "tracks addr_of p D \<Longrightarrow> keeps p p' \<Longrightarrow> tracks addr_of p' D"
  using keeps_tables [of p p'] by (simp add: tracks_def dom_def)

lemma tracks_run:
  assumes "inj addr_of" "filter from_discovery pes = map pool_event_of evs" "\<forall>ev \<in> set evs. at_home addr_of (ev_endpoint ev)"
    and "tracks addr_of p (dom m)"
  shows "tracks addr_of (foldl (pool_step L B H rpc pre) p pes) (dom (foldl apply_ev m evs))"
  using assms(2-4)
proof (induction pes arbitrary: p m evs)
  case (Cons e pes)
  show ?case
  proof (cases "from_discovery e")
    case False
    with Cons tracks_keeps [OF Cons.prems(3) keeps_other [OF False]] show ?thesis by simp
  next
    case True
    with Cons.prems(1) obtain ev evs' where evs: "evs = ev # evs'" "e = pool_event_of ev" "filter from_discovery pes = map pool_event_of evs'"
      by (cases evs) auto
    have "tracks addr_of (pool_step L B H rpc pre p e) (dom (apply_ev m ev))"
      using tracks_add [OF assms(1) Cons.prems(3)] tracks_remove [OF assms(1) Cons.prems(3)] Cons.prems(2) evs(1,2)
      by (cases ev) (auto simp: pool_event_of_def pool_step_def ev_endpoint_def)
    from Cons.IH [OF evs(3) _ this] Cons.prems(2) evs(1) show ?thesis by simp
  qed
qed simp

lemma tracks_bootstrap:
  assumes "inj addr_of" "\<forall>ep \<in> set eps. at_home addr_of ep" "tracks addr_of p (dom m)"
  shows "tracks addr_of (bootstrap B H (Some eps) p) (dom (foldl apply_ev m (map ADDED eps)))"
  using assms(2,3)
proof (induction eps arbitrary: p m)
  case (Cons ep eps)
  have "tracks addr_of (addEndpoint B H ep [] p) (dom (apply_ev m (ADDED ep)))"
    using tracks_add [OF assms(1) Cons.prems(2)] Cons.prems(1) by simp
  from Cons.IH [OF _ this] Cons.prems(1) show ?case by (simp add: bootstrap_def del: apply_ev_simps)
qed (simp add: bootstrap_def)

section \<open>What the streams carry\<close>

text \<open>Everything that is registered, and everything on the streams \<open>W\<close>, satisfies \<open>Q\<close>.\<close>

definition carries :: "(endpoint \<Rightarrow> bool) \<Rightarrow> nat set \<Rightarrow> registry \<Rightarrow> bool" where
  "carries Q W s \<longleftrightarrow> (\<forall>x \<in> set (endpoints s). Q (snd x)) \<and>
     (\<forall>w \<in> set (watchers s). w_id w \<in> W \<longrightarrow> (\<forall>ev \<in> set (w_sent w @ w_queue w). Q (ev_endpoint ev)))"

definition registers :: "(endpoint \<Rightarrow> bool) \<Rightarrow> reg_event \<Rightarrow> bool" where
  "registers Q e = (case e of Reg t ep \<Rightarrow> Q ep | _ \<Rightarrow> True)"

lemma opens_registers: "registers Q (WatchOpen k svc)"
  by (simp add: registers_def)

lemma set_put_subset: "set (put k v xs) \<subseteq> insert (k, v) (set xs)"
  by (induction k v xs rule: put.induct) auto

lemma carries_broadcast:
  assumes "carries Q W s" "Q (ev_endpoint ev)" "w \<in> set (broadcastEvent ev (watchers s))" "w_id w \<in> W" "e \<in> set (w_sent w @ w_queue w)"
  shows "Q (ev_endpoint e)"
  using assms by (fastforce simp: carries_def broadcastEvent_def split: if_splits)

lemma carries_remove:
  assumes "carries Q W s"
  shows "carries Q W (removeInstanceLocked i s)"
proof (cases "map_of (endpoints s) i")
  case (Some ep)
  then have q: "Q ep" using assms map_of_SomeD [OF Some] by (auto simp: carries_def)
  have b: "Q (ev_endpoint e)" if "w \<in> set (broadcastEvent (REMOVED ep) (watchers s))" "w_id w \<in> W" "e \<in> set (w_sent w @ w_queue w)" for w e
    using carries_broadcast [OF assms _ that] q by (simp add: ev_endpoint_def)
  have "\<forall>x \<in> set (endpoints s). Q (snd x)" using assms by (simp add: carries_def)
  with Some b show ?thesis by (fastforce simp: removeInstanceLocked_def carries_def erase_def Let_def split: option.split)
qed (use assms in \<open>simp add: removeInstanceLocked_def\<close>)

lemma carries_gc: "carries Q W s \<Longrightarrow> carries Q W (gc t s)"
proof -
  have "carries Q W s \<Longrightarrow> carries Q W (foldl (\<lambda>s i. removeInstanceLocked i s) s is)" for "is" s
    by (induction "is" arbitrary: s) (simp_all add: carries_remove)
  then show "carries Q W s \<Longrightarrow> carries Q W (gc t s)" by (simp add: gc_def Let_def)
qed

lemma carries_pop:
  assumes "carries Q W s"
  shows "carries Q W (s\<lparr>watchers := map (\<lambda>w. if w_id w \<noteq> k then w else watcher_pop w) (watchers s)\<rparr>)"
proof -
  have same: "set (w_sent (watcher_pop w) @ w_queue (watcher_pop w)) = set (w_sent w @ w_queue w)" "w_id (watcher_pop w) = w_id w" for w
    by (cases "w_queue w"; simp add: watcher_pop_def)+
  show ?thesis unfolding carries_def
  proof (intro conjI ballI impI)
    fix x assume "x \<in> set (endpoints (s\<lparr>watchers := map (\<lambda>w. if w_id w \<noteq> k then w else watcher_pop w) (watchers s)\<rparr>))"
    with assms show "Q (snd x)" by (simp add: carries_def)
  next
    fix w ev
    assume w: "w \<in> set (watchers (s\<lparr>watchers := map (\<lambda>w. if w_id w \<noteq> k then w else watcher_pop w) (watchers s)\<rparr>))"
      and W: "w_id w \<in> W" and ev: "ev \<in> set (w_sent w @ w_queue w)"
    from w obtain v where v: "v \<in> set (watchers s)" "w = (if w_id v \<noteq> k then v else watcher_pop v)" by auto
    have eq: "w_id w = w_id v" "set (w_sent w @ w_queue w) = set (w_sent v @ w_queue v)"
      unfolding v(2) using same [of v] by (cases "w_id v = k"; simp)+
    from assms v(1) W ev show "Q (ev_endpoint ev)" unfolding eq carries_def by blast
  qed
qed

lemma carries_step:
  assumes "carries Q W s" "registers Q e"
  shows "carries Q W (reg_step s e)"
proof (cases e)
  case (Reg t ep)
  with assms(2) have q: "Q ep" by (simp add: registers_def)
  have b: "Q (ev_endpoint e)" if "w \<in> set (broadcastEvent (ADDED ep) (watchers s))" "w_id w \<in> W" "e \<in> set (w_sent w @ w_queue w)" for w e
    using carries_broadcast [OF assms(1) _ that] q by (simp add: ev_endpoint_def)
  have "\<forall>x \<in> set (put (ep_instance_id ep) ep (endpoints s)). Q (snd x)"
    using set_put_subset [of "ep_instance_id ep" ep "endpoints s"] q assms(1) by (auto simp: carries_def)
  with b Reg show ?thesis by (auto simp: reg_step_def Register_def carries_def Let_def)
next
  case (WatchOpen w svc)
  with assms(1) show ?thesis by (auto simp: reg_step_def watch_open_def carries_def ListEndpoints_def ev_endpoint_def)
next
  case (WatchTurn w ok)
  with carries_pop [OF assms(1), of w] assms(1) show ?thesis
    by (cases ok) (auto simp: reg_step_def watch_turn_def watch_close_def carries_def)
next
  case (WatchClose w)
  with assms(1) show ?thesis by (auto simp: reg_step_def watch_close_def carries_def)
next
  case (Dereg i)
  with carries_remove [OF assms(1)] show ?thesis by (simp add: reg_step_def Deregister_def)
next
  case (Gc t)
  with carries_gc [OF assms(1)] show ?thesis by (simp add: reg_step_def)
next
  case (Keep t l)
  with assms(1) show ?thesis by (simp add: reg_step_def KeepAlive_def carries_def split: option.split)
qed

lemma carries_run:
  "carries Q W s \<Longrightarrow> list_all (registers Q) es \<Longrightarrow> carries Q W (foldl reg_step s es)"
  by (induction es arbitrary: s) (simp_all add: carries_step)

lemma carries_new: "carries Q W new_registry"
  by (simp add: carries_def new_registry_def)

section \<open>Composition\<close>

lemma apply_evs_touched:
  "i \<in> ep_instance_id ` ev_endpoint ` set evs \<Longrightarrow> foldl apply_ev m evs i = foldl apply_ev m' evs i"
proof (induction evs arbitrary: m m')
  case (Cons ev evs)
  show ?case
  proof (cases "i \<in> ep_instance_id ` ev_endpoint ` set evs")
    case False
    have other: "foldl apply_ev n evs i = n i" for n
      using False by (induction evs arbitrary: n) (auto simp: ev_endpoint_def apply_ev_def split: watch_event.splits)
    from Cons.prems False have "i = ep_instance_id (ev_endpoint ev)" by auto
    then have "apply_ev m ev i = apply_ev m' ev i" by (cases ev) (simp_all add: ev_endpoint_def)
    with other show ?thesis by simp
  next
    case True
    show ?thesis using Cons.IH [OF True, of "apply_ev m ev" "apply_ev m' ev"] by simp
  qed
qed simp

lemma apply_evs_untouched:
  "i \<notin> ep_instance_id ` ev_endpoint ` set evs \<Longrightarrow> foldl apply_ev m evs i = m i"
  by (induction evs arbitrary: m) (auto simp: ev_endpoint_def apply_ev_def split: watch_event.splits)

lemma apply_evs_covered:
  assumes "dom m \<subseteq> ep_instance_id ` ev_endpoint ` set evs"
  shows "foldl apply_ev m evs = foldl apply_ev Map.empty evs"
proof
  fix i
  show "foldl apply_ev m evs i = foldl apply_ev Map.empty evs i"
  proof (cases "i \<in> ep_instance_id ` ev_endpoint ` set evs")
    case False
    with assms have "m i = None" by blast
    with apply_evs_untouched [OF False] show ?thesis by simp
  qed (rule apply_evs_touched)
qed

lemma dom_added: "dom (foldl apply_ev m (map ADDED eps)) = dom m \<union> ep_instance_id ` set eps"
  by (induction eps arbitrary: m) auto



section \<open>An outage of the stream\<close>

definition holds_on :: "string \<Rightarrow> string \<Rightarrow> 'b pool \<Rightarrow> bool" where
  "holds_on i a p \<longleftrightarrow> instanceToAddr p i = Some a \<and> clients p a \<noteq> None \<and> (\<forall>j. instanceToAddr p j = Some a \<longrightarrow> j = i)"

lemma holds_on_add: "holds_on i a p \<Longrightarrow> ep_instance_id ep \<noteq> i \<Longrightarrow> holds_on i a (addEndpoint B H ep [] p)"
  by (auto simp: holds_on_def addEndpoint_def Let_def)

lemma holds_on_remove: "holds_on i a p \<Longrightarrow> j \<noteq> i \<Longrightarrow> holds_on i a (removeEndpoint j p)"
  by (auto simp: holds_on_def removeEndpoint_def Let_def split: option.splits)

lemma holds_on_keeps: "holds_on i a p \<Longrightarrow> keeps p p' \<Longrightarrow> holds_on i a p'"
  using keeps_tables [of p p'] by (simp add: holds_on_def)

lemma holds_on_run:
  assumes "filter from_discovery pes = map pool_event_of evs" "\<forall>ev \<in> set evs. ep_instance_id (ev_endpoint ev) \<noteq> i" "holds_on i a p"
  shows "holds_on i a (foldl (pool_step L B H rpc pre) p pes)"
  using assms
proof (induction pes arbitrary: p evs)
  case (Cons e pes)
  show ?case
  proof (cases "from_discovery e")
    case False
    with Cons holds_on_keeps [OF Cons.prems(3) keeps_other [OF False]] show ?thesis by simp
  next
    case True
    with Cons.prems(1) obtain ev evs' where evs: "evs = ev # evs'" "e = pool_event_of ev" "filter from_discovery pes = map pool_event_of evs'"
      by (cases evs) auto
    have "holds_on i a (pool_step L B H rpc pre p e)"
      using holds_on_add [OF Cons.prems(3)] holds_on_remove [OF Cons.prems(3)] Cons.prems(2) evs(1,2)
      by (cases ev) (auto simp: pool_event_of_def pool_step_def ev_endpoint_def)
    from Cons.IH [OF evs(3) _ this] Cons.prems(2) evs(1) show ?thesis by simp
  qed
qed simp

lemma carries_gone:
  assumes "reg_ok s" "map_of (endpoints s) i = None" "\<forall>w \<in> set (watchers s). w_id w \<noteq> k"
  shows "carries (\<lambda>ep. ep_instance_id ep \<noteq> i) {k} s"
proof -
  have "ep_instance_id (snd x) \<noteq> i" if "x \<in> set (endpoints s)" for x
  proof -
    have "map_of (endpoints s) (fst x) = Some (snd x)"
      using uniq_keys_mem [of "endpoints s" "fst x" "snd x"] that assms(1) by (simp add: reg_ok_def)
    with assms(1,2) show ?thesis by (auto simp: reg_ok_def)
  qed
  with assms(3) show ?thesis by (auto simp: carries_def)
qed

text \<open>
  What the registry drops while a gateway is without a stream stays in the pool of the gateway: the new
  stream begins with the instances that are there and never mentions the one that has gone, so its
  client is kept through everything that follows, until the instance registers again.
\<close>

theorem outage_keeps_dead_instance:
  assumes gone: "s0 = foldl reg_step new_registry es0" "map_of (endpoints s0) i = None" "\<forall>w \<in> set (watchers s0). w_id w \<noteq> k"
    and after: "list_all (registers (\<lambda>ep. ep_instance_id ep \<noteq> i)) es1" "s1 = foldl reg_step s0 (WatchOpen k ''logic'' # es1)"
    and stream: "w \<in> set (watchers s1)" "w_id w = k" "filter from_discovery pes = map pool_event_of (w_sent w)"
    and pool: "instanceToAddr p i = Some a" "clients p a \<noteq> None" "\<forall>j. instanceToAddr p j = Some a \<longrightarrow> j = i"
  shows "clients (foldl (pool_step L B H rpc pre) p pes) a \<noteq> None \<and> map_of (endpoints s1) i = None"
proof -
  have "reg_ok s0" unfolding gone(1) by (rule rg.run_inv)
  then have "reg_ok s1" unfolding after(2) by (rule rg.run_from_inv)
  have c: "carries (\<lambda>ep. ep_instance_id ep \<noteq> i) {k} s1"
    unfolding after(2) by (rule carries_run [OF carries_gone [OF \<open>reg_ok s0\<close> gone(2,3)]]) (simp add: after(1) opens_registers)
  then have evs: "\<forall>ev \<in> set (w_sent w). ep_instance_id (ev_endpoint ev) \<noteq> i" using stream(1,2) by (auto simp: carries_def)
  have "holds_on i a p" unfolding holds_on_def using pool by blast
  from holds_on_run [OF stream(3) evs this] have "clients (foldl (pool_step L B H rpc pre) p pes) a \<noteq> None"
    unfolding holds_on_def by blast
  moreover have "map_of (endpoints s1) i = None"
  proof (rule ccontr)
    assume "map_of (endpoints s1) i \<noteq> None"
    then obtain ep where ep: "map_of (endpoints s1) i = Some ep" by auto
    have "ep_instance_id ep = i" using \<open>reg_ok s1\<close> ep by (simp add: reg_ok_def)
    moreover have "ep_instance_id (snd (i, ep)) \<noteq> i" using c map_of_SomeD [OF ep] unfolding carries_def by blast
    ultimately show False by simp
  qed
  ultimately show ?thesis by simp
qed

theorem outage_keeps_dead_instance_witness:
  "let p = addEndpoint demo_breaker demo_hash (demo_ep ''1'' ''a:1'') [] (new_pool ''g'' []);
       s0 = foldl reg_step new_registry [Reg 5 (demo_ep ''1'' ''a:1''), Dereg ''1''];
       s1 = foldl reg_step s0 [WatchOpen 7 ''logic'']
   in clients (foldl (pool_step \<lparr>lib_dump = \<lambda>j. [], lib_parse = \<lambda>t. None\<rparr> demo_breaker demo_hash demo_rpc ''services/logic/'')
        p []) ''a:1'' \<noteq> None \<and> map_of (endpoints s1) ''1'' = None"
proof -
  let ?p = "addEndpoint demo_breaker demo_hash (demo_ep ''1'' ''a:1'') [] (new_pool ''g'' [])"
  let ?s0 = "foldl reg_step new_registry [Reg 5 (demo_ep ''1'' ''a:1''), Dereg ''1'']"
  let ?w = "\<lparr>w_id = 7, w_service = ''logic'', w_queue = [], w_sent = []\<rparr>"
  have s0: "endpoints ?s0 = []" "watchers ?s0 = []"
    by (simp_all add: reg_step_def Register_def Deregister_def removeInstanceLocked_def new_registry_def broadcastEvent_def erase_def demo_ep_def Let_def)
  have w: "?w \<in> set (watchers (foldl reg_step ?s0 (WatchOpen 7 ''logic'' # [])))"
    using s0 by (simp add: reg_step_def [of _ "WatchOpen _ _"] watch_open_def ListEndpoints_def)
  have p: "instanceToAddr ?p ''1'' = Some ''a:1''" "clients ?p ''a:1'' \<noteq> None" "\<forall>j. instanceToAddr ?p j = Some ''a:1'' \<longrightarrow> j = ''1''"
    by (simp_all add: addEndpoint_def new_pool_def demo_ep_def Let_def)
  from outage_keeps_dead_instance [OF refl _ _ _ refl w _ _ p, of "[]"] s0
  show ?thesis unfolding Let_def by simp
qed

end
