(* ===== verification/LogicReg.thy ===== *)
theory LogicReg
  imports Registry Json
begin

text \<open>
  How a logic instance announces itself, \<^verbatim>\<open>logic/main.cpp\<close>: the thread that registers with the
  registry service and renews the lease, composed with the registry of \<open>Registry\<close>, and the
  thread that does the same with etcd. One turn is one pass of a loop after its sleep; etcd
  belongs to another repository, so its answers are the input of a turn and the calls its output.
\<close>

section \<open>With the registry service\<close>

datatype phase = Registering nat | Keeping int | Deregistered

text \<open>
  Whether the process still runs, whether the call reached the registry, whether its answer came
  back in time, and the registry's clock.
\<close>

record rturn =
  running :: bool
  executed :: bool
  answered :: bool
  rnow :: int

definition advertised :: "string \<Rightarrow> string \<Rightarrow> string" where
  "advertised host addr = (case find_char (CHR '':'') addr of Some colon \<Rightarrow> host @ drop colon addr | None \<Rightarrow> addr)"

definition logic_endpoint :: "string \<Rightarrow> string \<Rightarrow> endpoint" where
  "logic_endpoint inst adv = \<lparr>ep_instance_id = inst, ep_service = ''logic'', ep_addr = adv, ep_weight = 1\<rparr>"

definition reg_turn :: "string \<Rightarrow> string \<Rightarrow> rturn \<Rightarrow> phase \<times> registry \<Rightarrow> phase \<times> registry" where
  "reg_turn inst adv x st =
     (let (p, s) = st; leave = (Deregistered, if executed x then Deregister inst s else s)
      in case p of
           Registering backoffSec \<Rightarrow>
             if \<not> running x then leave
             else (let (s', lease) = (if executed x then Register (rnow x) (logic_endpoint inst adv) s else (s, 0))
                   in if executed x \<and> answered x then (Keeping lease, s') else (Registering (min (backoffSec * 2) 30), s'))
         | Keeping lease \<Rightarrow>
             if \<not> running x then leave
             else (Keeping lease, if executed x then fst (KeepAlive (rnow x) lease s) else s)
         | Deregistered \<Rightarrow> st)"

text \<open>The thread and everything else that happens at the registry.\<close>

datatype reg_input = Client rturn | Others reg_event

fun announce_step :: "string \<Rightarrow> string \<Rightarrow> phase \<times> registry \<Rightarrow> reg_input \<Rightarrow> phase \<times> registry" where
  "announce_step inst adv st (Client x) = reg_turn inst adv x st"
| "announce_step inst adv st (Others e) = (fst st, reg_step (snd st) e)"

text \<open>The process keeps running, and nobody else registers its instance.\<close>

definition undisturbed :: "string \<Rightarrow> reg_input \<Rightarrow> bool" where
  "undisturbed inst e = (case e of Client x \<Rightarrow> running x | Others (Reg t ep) \<Rightarrow> ep_instance_id ep \<noteq> inst | Others _ \<Rightarrow> True)"

definition forgotten :: "string \<Rightarrow> int \<Rightarrow> phase \<times> registry \<Rightarrow> bool" where
  "forgotten inst l st \<longleftrightarrow> fst st = Keeping l \<and> reg_ok (snd st) \<and> map_of (endpoints (snd st)) inst = None \<and>
     leaseToInstance (snd st) l = None \<and> l \<le> leaseSeq (snd st)"

lemma endpoints_after_remove: "map_of (endpoints s) i = None \<Longrightarrow> map_of (endpoints (removeInstanceLocked j s)) i = None"
  by (auto simp: removeInstanceLocked_def Let_def split: option.splits)

lemma lease_remove: "leaseToInstance s l = None \<Longrightarrow> leaseToInstance (removeInstanceLocked j s) l = None"
  "leaseSeq (removeInstanceLocked j s) = leaseSeq s"
  by (auto simp: removeInstanceLocked_def Let_def split: option.splits)

lemma forgotten_removes:
  assumes "map_of (endpoints s) i = None" "leaseToInstance s l = None"
  shows "map_of (endpoints (foldl (\<lambda>s i. removeInstanceLocked i s) s is)) i = None
    \<and> leaseToInstance (foldl (\<lambda>s i. removeInstanceLocked i s) s is) l = None
    \<and> leaseSeq (foldl (\<lambda>s i. removeInstanceLocked i s) s is) = leaseSeq s"
  using assms
proof (induction "is" arbitrary: s)
  case (Cons j "is")
  from Cons.IH [OF endpoints_after_remove [OF Cons.prems(1), of j] lease_remove(1) [OF Cons.prems(2), of j]] show ?case
    by (simp add: lease_remove(2))
qed simp

lemma forgotten_other:
  assumes "forgotten inst l (p, s)" "undisturbed inst (Others e)"
  shows "forgotten inst l (p, reg_step s e)"
proof -
  have s: "reg_ok s" "map_of (endpoints s) inst = None" "leaseToInstance s l = None" "l \<le> leaseSeq s" "p = Keeping l"
    using assms(1) by (simp_all add: forgotten_def)
  have ok: "reg_ok (reg_step s e)" using rg.step_inv [OF s(1)] .
  show ?thesis
  proof (cases e)
    case (Reg t ep)
    with assms(2) ok s show ?thesis
      by (auto simp: forgotten_def undisturbed_def reg_step_def Register_def Let_def split: option.splits)
  next
    case (Keep t k)
    with ok s show ?thesis
      by (auto simp: forgotten_def reg_step_def KeepAlive_def split: option.splits)
  next
    case (Gc t)
    with ok s forgotten_removes [OF s(2,3)] show ?thesis
      by (simp add: forgotten_def reg_step_def gc_def Let_def)
  qed (use ok s in \<open>auto simp: forgotten_def reg_step_def Deregister_def endpoints_after_remove lease_remove watch_open_def watch_turn_def
      watch_close_def\<close>)
qed


lemma forgotten_machine:
  assumes "forgotten inst l st"
  shows "guarded_machine st (announce_step inst adv) (undisturbed inst) (forgotten inst l)"
proof (unfold_locales, rule assms)
  fix e st
  assume e: "undisturbed inst e" and f: "forgotten inst l st"
  show "forgotten inst l (announce_step inst adv st e)"
  proof (cases e)
    case (Client x)
    with e f show ?thesis
      by (cases st) (simp add: undisturbed_def forgotten_def reg_turn_def KeepAlive_def)
  next
    case (Others ev)
    with e f forgotten_other [of inst l "fst st" "snd st" ev] show ?thesis by (cases st) simp
  qed
qed

lemma gc_forgets:
  assumes "reg_ok s" "leaseToInstance s l = Some inst" "map_of (lastSeen s) inst = Some ts" "kTtlSec < elapsed_sec t ts"
  shows "forgotten inst l (Keeping l, gc t s)"
proof -
  have ok: "reg_ok (gc t s)" using rg.step_inv [OF assms(1), of "Gc t"] by (simp add: reg_step_def)
  have e: "map_of (endpoints (gc t s)) inst = None" using gc_endpoints [OF assms(1)] assms(3,4) by simp
  have seq: "leaseSeq (gc t s) = leaseSeq s" for t s
  proof -
    have "leaseSeq (foldl (\<lambda>s i. removeInstanceLocked i s) s is) = leaseSeq s" for s "is"
      by (induction "is" arbitrary: s) (simp_all add: lease_remove(2))
    then show ?thesis by (simp add: gc_def Let_def)
  qed
  have step: "leaseToInstance (removeInstanceLocked j s) l' = Some i \<Longrightarrow> leaseToInstance s l' = Some i" for j s l' i
    by (auto simp: removeInstanceLocked_def Let_def split: option.splits if_splits)
  have all: "leaseToInstance (foldl (\<lambda>s i. removeInstanceLocked i s) s is) l' = Some i \<Longrightarrow> leaseToInstance s l' = Some i" for s l' i "is"
  proof (induction "is" arbitrary: s)
    case (Cons j "is")
    then have "leaseToInstance (removeInstanceLocked j s) l' = Some i" by simp
    then show ?case by (rule step)
  qed simp
  have mono: "leaseToInstance (gc t s) l' = Some i \<Longrightarrow> leaseToInstance s l' = Some i" for l' i
    unfolding gc_def Let_def by (rule all)
  have gone: "instanceToLease (gc t s) inst = None" using ok e by (simp add: reg_ok_def)
  have "leaseToInstance (gc t s) l = None"
  proof (rule ccontr)
    assume "leaseToInstance (gc t s) l \<noteq> None"
    then obtain i where i: "leaseToInstance (gc t s) l = Some i" by blast
    with mono assms(2) have "i = inst" by fastforce
    with i reg_ok_lease [OF ok] gone show False by simp
  qed
  moreover have "l \<le> leaseSeq s" using assms(1,2) by (auto simp: reg_ok_def leases_ok_def)
  ultimately show ?thesis using ok e seq by (simp add: forgotten_def)
qed

text \<open>
  The renewing loop ignores the answers to its calls. Once an instance has been collected,
  because a pause of the process or of the network kept its renewals away for more than the
  time to live, it never comes back: however long it runs on and renews its lease, the registry
  does not list it again.
\<close>

theorem collected_instance_never_returns:
  assumes "s = foldl reg_step new_registry es" "leaseToInstance s l = Some inst" "map_of (lastSeen s) inst = Some ts"
    and "kTtlSec < elapsed_sec t ts" "list_all (undisturbed inst) later"
  shows "let (p, s') = foldl (announce_step inst adv) (Keeping l, gc t s) later
    in p = Keeping l \<and> map_of (endpoints s') inst = None"
proof -
  have "reg_ok s" unfolding assms(1) by (rule rg.run_inv)
  from forgotten_machine [OF gc_forgets [OF this assms(2-4)]] assms(5)
  have "forgotten inst l (foldl (announce_step inst adv) (Keeping l, gc t s) later)"
    by (rule guarded_machine.run_inv)
  then show ?thesis by (simp add: forgotten_def case_prod_beta)
qed

definition demo_rturn :: "int \<Rightarrow> rturn" where
  "demo_rturn t = \<lparr>running = True, executed = True, answered = True, rnow = t\<rparr>"

theorem collected_instance_never_returns_witness:
  "let s = foldl reg_step new_registry [Reg 0 (logic_endpoint ''l1'' ''a:1'')];
       (p, s') = foldl (announce_step ''l1'' ''a:1'') (Keeping 1, gc 40000000000 s) [Client (demo_rturn 41000000000)]
   in p = Keeping 1 \<and> map_of (endpoints s') ''l1'' = None"
proof -
  let ?s = "foldl reg_step new_registry [Reg 0 (logic_endpoint ''l1'' ''a:1'')]"
  have s: "leaseToInstance ?s 1 = Some ''l1''" "map_of (lastSeen ?s) ''l1'' = Some 0"
    by (simp_all add: reg_step_def Register_def new_registry_def logic_endpoint_def Let_def)
  from collected_instance_never_returns [OF refl s, of 40000000000 "[Client (demo_rturn 41000000000)]" "''a:1''"]
  show ?thesis by (simp add: elapsed_sec_def kTtlSec_def undisturbed_def demo_rturn_def Let_def)
qed

section \<open>With etcd\<close>

datatype etcd_phase = Granting nat int | Holding int nat | Left

record eturn =
  erunning :: bool
  grant :: int
  put_ok :: bool
  ttl :: int

datatype etcd_call = GrantLease int | PutKey string string int | KeepLease int | DelKey string

definition etcd_key :: "string \<Rightarrow> string" where
  "etcd_key inst = ''services/logic/'' @ inst"

definition etcd_value :: "jlib \<Rightarrow> string \<Rightarrow> string \<Rightarrow> string \<Rightarrow> string" where
  "etcd_value L inst adv az =
     (let j = obj [(''service'', JStr ''logic''), (''addr'', JStr adv), (''weight'', JInt 1), (''instance'', JStr inst)]
      in lib_dump L (if az = [] then j else jset j ''az'' (JStr az)))"

text \<open>The end of the thread: the key is deleted if there is a lease.\<close>

definition etcd_leave :: "string \<Rightarrow> int \<Rightarrow> etcd_phase \<times> etcd_call list" where
  "etcd_leave key lease = (Left, if lease \<noteq> 0 then [DelKey key] else [])"

definition etcd_turn :: "string \<Rightarrow> string \<Rightarrow> eturn \<Rightarrow> etcd_phase \<Rightarrow> etcd_phase \<times> etcd_call list" where
  "etcd_turn key v x p =
     (case p of
        Granting backoffSec lease \<Rightarrow>
          if \<not> erunning x then etcd_leave key lease
          else (let l = grant x; calls = GrantLease 15 # (if l > 0 then [PutKey key v l] else [])
                in if l > 0 \<and> put_ok x then (Holding l 0, calls) else (Granting (min (backoffSec * 2) 30) l, calls))
      | Holding lease keepFailures \<Rightarrow>
          if \<not> erunning x then etcd_leave key lease
          else if ttl x \<le> 0 then
            (if keepFailures + 1 \<ge> 3
             then (let l = grant x; calls = [KeepLease lease, GrantLease 15] @ (if l > 0 then [PutKey key v l] else [])
                   in if l = 0 then (fst (etcd_leave key l), calls @ snd (etcd_leave key l)) else (Holding l 0, calls))
             else (Holding lease (keepFailures + 1), [KeepLease lease]))
          else (Holding lease 0, [KeepLease lease])
      | Left \<Rightarrow> (Left, []))"

fun etcd_run :: "string \<Rightarrow> string \<Rightarrow> eturn list \<Rightarrow> etcd_phase \<Rightarrow> etcd_phase \<times> etcd_call list" where
  "etcd_run key v [] p = (p, [])"
| "etcd_run key v (x # xs) p = (let (p1, cs) = etcd_turn key v x p; (p2, cs') = etcd_run key v xs p1 in (p2, cs @ cs'))"

text \<open>The delay between attempts stays between one and thirty seconds.\<close>

definition backoff_ok :: "etcd_phase \<Rightarrow> bool" where
  "backoff_ok p = (case p of Granting b l \<Rightarrow> 1 \<le> b \<and> b \<le> 30 | Holding l f \<Rightarrow> l \<noteq> 0 \<and> f \<le> 2 | Left \<Rightarrow> True)"

lemma etcd_turn_backoff: "backoff_ok p \<Longrightarrow> backoff_ok (fst (etcd_turn key v x p))"
  by (auto simp: backoff_ok_def etcd_turn_def etcd_leave_def Let_def split: etcd_phase.splits)

interpretation etcd_thread: inv_machine "Granting 1 0" "\<lambda>p x. fst (etcd_turn key v x p)" backoff_ok for key v
  by unfold_locales (simp_all add: etcd_turn_backoff, simp add: backoff_ok_def)

lemma holding_run:
  "list_all (\<lambda>x. erunning x \<and> 0 < ttl x) xs \<Longrightarrow> etcd_run key v xs (Holding l 0) = (Holding l 0, map (\<lambda>x. KeepLease l) xs)"
  by (induction xs) (simp_all add: etcd_turn_def)

text \<open>
  After three failed renewals the thread takes a new lease and writes its key under it, but does
  not look at the result. If the lease cannot be had, the thread ends while the process runs on;
  if the key cannot be written, the new lease is renewed from then on and the key is not written
  again. Either way the instance is not announced any more.
\<close>

theorem failed_reannouncement_is_final:
  assumes "erunning x" "ttl x \<le> 0" "grant x = 0 \<or> 0 < grant x \<and> \<not> put_ok x"
    and "list_all (\<lambda>y. erunning y \<and> 0 < ttl y) later"
  shows "let (p, calls) = etcd_turn key v x (Holding l 2); (p', calls') = etcd_run key v later p
    in (grant x = 0 \<longrightarrow> p' = Left) \<and> (\<forall>k w m. PutKey k w m \<notin> set calls')"
proof (cases "grant x = 0")
  case True
  have "etcd_run key v later Left = (Left, [])" by (induction later) (simp_all add: etcd_turn_def)
  with True assms(1,2) show ?thesis by (simp add: etcd_turn_def etcd_leave_def Let_def)
next
  case False
  then have "fst (etcd_turn key v x (Holding l 2)) = Holding (grant x) 0"
    using assms(1,2) by (simp add: etcd_turn_def Let_def)
  with holding_run [OF assms(4)] False show ?thesis by (auto simp: case_prod_beta Let_def)
qed

theorem failed_reannouncement_is_final_witness:
  "let x = \<lparr>erunning = True, grant = 4, put_ok = False, ttl = -1\<rparr>; y = \<lparr>erunning = True, grant = 0, put_ok = True, ttl = 15\<rparr>;
       (p, calls) = etcd_turn ''k'' ''v'' x (Holding 3 2); (p', calls') = etcd_run ''k'' ''v'' [y, y] p
   in (\<forall>k w m. PutKey k w m \<notin> set calls')"
  using failed_reannouncement_is_final [of "\<lparr>erunning = True, grant = 4, put_ok = False, ttl = -1\<rparr>"
      "[\<lparr>erunning = True, grant = 0, put_ok = True, ttl = 15\<rparr>, \<lparr>erunning = True, grant = 0, put_ok = True, ttl = 15\<rparr>]" "''k''" "''v''" 3]
  by (simp add: Let_def case_prod_beta)

end
