(* ===== verification/EtcdPool.thy ===== *)
theory EtcdPool
  imports Discovery LogicReg
begin

text \<open>
  Discovery through etcd (\<^verbatim>\<open>etcdPollLoop\<close> of \<^verbatim>\<open>gateway/LogicClientPool.h\<close>): the pool follows the listing of
  a key prefix that is fetched again and again. The client of etcd is outside the repository; it
  remembers the listing of the last poll and calls back with the differences. How it computes them
  is an argument, and the laws it is relied on for are the locale \<open>snapshot_diff\<close>.
\<close>

section \<open>The client of etcd\<close>

type_synonym listing = "(string \<times> string) list"

text \<open>
  The differences of two listings as added entries, removed keys and changed entries, and whether the
  new listing is remembered already when the callback throws.
\<close>

record etcd_lib =
  snap_diff :: "listing \<Rightarrow> listing \<Rightarrow> listing \<times> string list \<times> listing"
  store_first :: bool

locale snapshot_diff =
  fixes diff :: "listing \<Rightarrow> listing \<Rightarrow> listing \<times> string list \<times> listing"
  assumes added: "diff old new = (a, r, u) \<Longrightarrow> set a = {kv \<in> set new. fst kv \<notin> fst ` set old}"
    and removed: "diff old new = (a, r, u) \<Longrightarrow> set r = fst ` set old - fst ` set new"
    and changed: "diff old new = (a, r, u) \<Longrightarrow> set u = {kv \<in> set new. fst kv \<in> fst ` set old \<and> kv \<notin> set old}"
begin

text \<open>An entry that was in the old listing and is in the new one is not mentioned.\<close>

lemma quiet:
  assumes "diff old new = (a, r, u)" "(k, v) \<in> set old" "(k, v) \<in> set new" "distinct (map fst new)"
  shows "k \<notin> fst ` set a" "k \<notin> set r" "k \<notin> fst ` set u"
proof -
  show "k \<notin> fst ` set a" using added [OF assms(1)] assms(2) by force
  show "k \<notin> set r" using removed [OF assms(1)] assms(3) by force
  have "v' = v" if "(k, v') \<in> set new" for v' using that assms(3,4) by (metis map_of_is_SomeI option.inject)
  then show "k \<notin> fst ` set u" using changed [OF assms(1)] assms(2) by auto
qed

text \<open>The keys of the new listing are the old ones with the differences applied.\<close>

lemma keys_new:
  assumes "diff old new = (a, r, u)"
  shows "(fst ` set old \<union> fst ` set a - set r) \<union> fst ` set u = fst ` set new"
proof -
  have "fst ` set u \<subseteq> fst ` set new" "fst ` set a = fst ` set new - fst ` set old" "set r = fst ` set old - fst ` set new"
    unfolding added [OF assms] removed [OF assms] changed [OF assms] by auto
  then show ?thesis by blast
qed

end

definition list_diff :: "listing \<Rightarrow> listing \<Rightarrow> listing \<times> string list \<times> listing" where
  "list_diff old new =
     (filter (\<lambda>kv. fst kv \<notin> fst ` set old) new, filter (\<lambda>k. k \<notin> fst ` set new) (map fst old),
      filter (\<lambda>kv. fst kv \<in> fst ` set old \<and> kv \<notin> set old) new)"

interpretation ld: snapshot_diff list_diff
  by unfold_locales (auto simp: list_diff_def)

section \<open>The loop\<close>

text \<open>
  One round: \<open>None\<close> is a poll that throws, which is caught; an exception of the callback is caught
  as well.
\<close>

definition etcd_poll :: "etcd_lib \<Rightarrow> jlib \<Rightarrow> 'b breaker_lib \<Rightarrow> hashfn \<Rightarrow> string \<Rightarrow> 'b pool \<times> listing \<Rightarrow> listing option \<Rightarrow> 'b pool \<times> listing" where
  "etcd_poll E L B H pre s answer =
     (case answer of None \<Rightarrow> s
      | Some new \<Rightarrow>
        (let (a, r, u) = snap_diff E (snd s) new; (p, exc) = etcd_diff L B H pre a r u (fst s)
         in (p, if exc = None \<or> store_first E then new else snd s)))"

text \<open>
  The whole loop: the listing \<open>listed\<close> fills the pool, the first poll answers \<open>polled\<close> to a callback that does
  nothing, then come the rounds. An exception in the first two steps leaves the thread, which ends
  the process: \<open>None\<close>.
\<close>

definition etcdPollLoop :: "etcd_lib \<Rightarrow> jlib \<Rightarrow> 'b breaker_lib \<Rightarrow> hashfn \<Rightarrow> string \<Rightarrow> listing \<Rightarrow> listing option \<Rightarrow> listing option list
    \<Rightarrow> 'b pool \<Rightarrow> ('b pool \<times> listing) option" where
  "etcdPollLoop E L B H pre listed first answers p =
     (case (etcd_adds L B H pre False listed p, first) of
        ((p', None), Some polled) \<Rightarrow> Some (foldl (etcd_poll E L B H pre) (p', polled) answers)
      | _ \<Rightarrow> None)"

lemma etcd_poll_failed [simp]: "etcd_poll E L B H pre s None = s"
  by (simp add: etcd_poll_def)

section \<open>The pool follows the listings\<close>

text \<open>An entry is written as the logic instances write theirs, and every listing has distinct keys.\<close>

definition entry_ok :: "jlib \<Rightarrow> string \<Rightarrow> (string \<Rightarrow> string) \<Rightarrow> string \<times> string \<Rightarrow> bool" where
  "entry_ok L pre addr_of kv \<longleftrightarrow> instanceIdFromKey pre (fst kv) \<noteq> [] \<and>
     (case parseEndpoint L pre (fst kv) (snd kv) of Inl e \<Rightarrow> False
      | Inr (ep, az) \<Rightarrow> ep_instance_id ep = instanceIdFromKey pre (fst kv) \<and> at_home addr_of ep)"

definition listing_ok :: "jlib \<Rightarrow> string \<Rightarrow> (string \<Rightarrow> string) \<Rightarrow> listing \<Rightarrow> bool" where
  "listing_ok L pre addr_of l \<longleftrightarrow> list_all (entry_ok L pre addr_of) l \<and> distinct (map fst l)"

abbreviation key_ids :: "string \<Rightarrow> string set \<Rightarrow> string set" where
  "key_ids pre ks \<equiv> instanceIdFromKey pre ` ks"

lemma instanceIdFromKey_inj:
  assumes "instanceIdFromKey pre k = instanceIdFromKey pre k'" "instanceIdFromKey pre k \<noteq> []"
  shows "k = k'"
proof -
  have "x = pre @ instanceIdFromKey pre x" if "instanceIdFromKey pre x \<noteq> []" for x
    using that by (simp add: instanceIdFromKey_def split: if_splits) (metis append_take_drop_id)
  with assms show ?thesis by metis
qed

lemma key_ids_diff:
  assumes "\<forall>k \<in> A \<union> B. instanceIdFromKey pre k \<noteq> []"
  shows "key_ids pre (A - B) = key_ids pre A - key_ids pre B"
  by (rule inj_on_image_set_diff [of _ "A \<union> B"]) (use assms instanceIdFromKey_inj in \<open>auto intro: inj_onI\<close>)

lemma tracks_etcd_adds:
  assumes "inj addr_of" "list_all (entry_ok L pre addr_of) kvs" "tracks addr_of p D"
  shows "\<exists>p'. etcd_adds L B H pre rp kvs p = (p', None) \<and> tracks addr_of p' (D \<union> key_ids pre (fst ` set kvs))"
  using assms(2,3)
proof (induction kvs arbitrary: p D)
  case (Cons kv kvs)
  obtain k v where kv: "kv = (k, v)" by (cases kv)
  with Cons.prems(1) obtain ep az where ep: "parseEndpoint L pre k v = Inr (ep, az)" "ep_instance_id ep = instanceIdFromKey pre k" "at_home addr_of ep"
    by (auto simp: entry_ok_def split: sum.splits prod.splits)
  let ?q = "if rp then removeEndpoint (ep_instance_id ep) p else p"
  have "tracks addr_of ?q (if rp then D - {instanceIdFromKey pre k} else D)"
    using tracks_remove [OF assms(1) Cons.prems(2)] Cons.prems(2) by (simp add: ep(2))
  from tracks_add [OF assms(1) this ep(3), of B H az]
  have "tracks addr_of (addEndpoint B H ep az ?q) (insert (instanceIdFromKey pre k) D)" by (cases rp) (simp_all add: ep(2))
  from Cons.IH [OF _ this] Cons.prems(1) kv ep(1) show ?case by simp
qed simp

lemma tracks_etcd_removes:
  assumes "inj addr_of" "\<forall>k \<in> set ks. instanceIdFromKey pre k \<noteq> []" "tracks addr_of p D"
  shows "tracks addr_of (etcd_removes pre ks p) (D - key_ids pre (set ks))"
  using assms(2,3)
proof (induction ks arbitrary: p D)
  case (Cons k ks)
  have "D - {instanceIdFromKey pre k} - key_ids pre (set ks) = D - key_ids pre (set (k # ks))" by auto
  with Cons.IH [OF _ tracks_remove [OF assms(1) Cons.prems(2)], of "instanceIdFromKey pre k"] Cons.prems(1)
  show ?case by (simp add: Let_def)
qed simp

lemma tracks_etcd_diff:
  assumes "inj addr_of" "list_all (entry_ok L pre addr_of) a" "\<forall>k \<in> set r. instanceIdFromKey pre k \<noteq> []"
    and "list_all (entry_ok L pre addr_of) u" "tracks addr_of p D"
  shows "\<exists>p'. etcd_diff L B H pre a r u p = (p', None) \<and>
    tracks addr_of p' ((D \<union> key_ids pre (fst ` set a) - key_ids pre (set r)) \<union> key_ids pre (fst ` set u))"
proof -
  obtain p1 where p1: "etcd_adds L B H pre False a p = (p1, None)" "tracks addr_of p1 (D \<union> key_ids pre (fst ` set a))"
    using tracks_etcd_adds [OF assms(1,2,5)] by blast
  from tracks_etcd_adds [OF assms(1,4) tracks_etcd_removes [OF assms(1,3) p1(2)]] p1(1) show ?thesis
    by (simp add: etcd_diff_def)
qed

text \<open>One round with listings of good entries.\<close>

lemma tracks_etcd_poll:
  assumes "inj addr_of" "snapshot_diff (snap_diff E)" "listing_ok L pre addr_of old" "listing_ok L pre addr_of new"
    and "tracks addr_of p D" "snap_diff E old new = (a, r, u)"
  shows "\<exists>p'. etcd_poll E L B H pre (p, old) (Some new) = (p', new) \<and>
    tracks addr_of p' ((D \<union> key_ids pre (fst ` set a) - key_ids pre (set r)) \<union> key_ids pre (fst ` set u))"
proof -
  note laws = snapshot_diff.added [OF assms(2,6)] snapshot_diff.removed [OF assms(2,6)] snapshot_diff.changed [OF assms(2,6)]
  have "list_all (entry_ok L pre addr_of) a" "list_all (entry_ok L pre addr_of) u"
    using assms(4) laws by (auto simp: listing_ok_def list_all_iff)
  moreover have "\<forall>k \<in> set r. instanceIdFromKey pre k \<noteq> []"
    using assms(3) laws(2) by (auto simp: listing_ok_def list_all_iff entry_ok_def)
  ultimately obtain p' where "etcd_diff L B H pre a r u p = (p', None)"
      "tracks addr_of p' ((D \<union> key_ids pre (fst ` set a) - key_ids pre (set r)) \<union> key_ids pre (fst ` set u))"
    using tracks_etcd_diff [OF assms(1) _ _ _ assms(5)] by blast
  with assms(6) show ?thesis by (simp add: etcd_poll_def)
qed

definition last_listing :: "'a \<Rightarrow> 'a option list \<Rightarrow> 'a" where
  "last_listing l answers = foldl (\<lambda>l a. case a of None \<Rightarrow> l | Some l' \<Rightarrow> l') l answers"

lemma last_listing_simps [simp]:
  "last_listing l [] = l" "last_listing l (None # as) = last_listing l as" "last_listing l (Some l' # as) = last_listing l' as"
  by (simp_all add: last_listing_def)

lemma tracks_polls:
  assumes "inj addr_of" "snapshot_diff (snap_diff E)" "listing_ok L pre addr_of l" "\<forall>l. Some l \<in> set answers \<longrightarrow> listing_ok L pre addr_of l"
    and "tracks addr_of p (key_ids pre (fst ` set l))"
  shows "\<exists>p'. foldl (etcd_poll E L B H pre) (p, l) answers = (p', last_listing l answers) \<and>
    tracks addr_of p' (key_ids pre (fst ` set (last_listing l answers)))"
  using assms(3-5)
proof (induction answers arbitrary: p l)
  case (Cons answer answers)
  show ?case
  proof (cases answer)
    case None
    with Cons.IH [OF Cons.prems(1) _ Cons.prems(3)] Cons.prems(2) show ?thesis by simp
  next
    case (Some new)
    then have new: "listing_ok L pre addr_of new" using Cons.prems(2) by simp
    obtain a r u where d: "snap_diff E l new = (a, r, u)" by (metis prod_cases3)
    have good: "\<forall>k \<in> fst ` set l \<union> fst ` set a \<union> set r. instanceIdFromKey pre k \<noteq> []"
      using Cons.prems(1) new snapshot_diff.added [OF assms(2) d] snapshot_diff.removed [OF assms(2) d]
      by (auto simp: listing_ok_def list_all_iff entry_ok_def)
    obtain p' where p': "etcd_poll E L B H pre (p, l) (Some new) = (p', new)"
        "tracks addr_of p' ((key_ids pre (fst ` set l) \<union> key_ids pre (fst ` set a) - key_ids pre (set r)) \<union> key_ids pre (fst ` set u))"
      using tracks_etcd_poll [OF assms(1,2) Cons.prems(1) new Cons.prems(3) d] by blast
    have "(key_ids pre (fst ` set l) \<union> key_ids pre (fst ` set a) - key_ids pre (set r)) \<union> key_ids pre (fst ` set u) = key_ids pre (fst ` set new)"
      using key_ids_diff [OF good] snapshot_diff.keys_new [OF assms(2) d] by (metis image_Un)
    with p'(2) have "tracks addr_of p' (key_ids pre (fst ` set new))" by simp
    from Cons.IH [OF new _ this] Cons.prems(2) Some p'(1) show ?thesis by simp
  qed
qed simp

text \<open>
  A gateway that polls etcd has clients for exactly the instances of the last listing it got, when the
  first two listings have the same keys, every instance has an address of its own and every
  entry is of the form the instances write. Polls that fail change nothing.
\<close>

lemma etcd_pool_mirrors:
  assumes "inj addr_of" "snapshot_diff (snap_diff E)" "listing_ok L pre addr_of listed" "listing_ok L pre addr_of polled"
    and "fst ` set listed = fst ` set polled" "\<forall>l. Some l \<in> set answers \<longrightarrow> listing_ok L pre addr_of l"
  shows "\<exists>p. etcdPollLoop E L B H pre listed (Some polled) answers (new_pool g az) = Some (p, last_listing polled answers) \<and>
    dom (clients p) = (addr_of \<circ> instanceIdFromKey pre \<circ> fst) ` set (last_listing polled answers)"
proof -
  have "list_all (entry_ok L pre addr_of) listed" using assms(3) by (simp add: listing_ok_def)
  from tracks_etcd_adds [OF assms(1) this tracks_new [of addr_of g az], of B H False] obtain p0
    where p0: "etcd_adds L B H pre False listed (new_pool g az) = (p0, None)" "tracks addr_of p0 (key_ids pre (fst ` set polled))"
    by (auto simp: assms(5))
  obtain p where p: "foldl (etcd_poll E L B H pre) (p0, polled) answers = (p, last_listing polled answers)"
      "tracks addr_of p (key_ids pre (fst ` set (last_listing polled answers)))"
    using tracks_polls [OF assms(1,2,4,6) p0(2)] by blast
  from p(2) have "dom (clients p) = (addr_of \<circ> instanceIdFromKey pre \<circ> fst) ` set (last_listing polled answers)"
    by (simp add: tracks_def image_image comp_def)
  with p0(1) p(1) show ?thesis by (simp add: etcdPollLoop_def)
qed

section \<open>What the instances write\<close>

text \<open>The object behind \<open>etcd_value\<close>, and the entry of an instance \<open>i\<close> in the zone \<open>az\<close>.\<close>

definition etcd_json :: "string \<Rightarrow> string \<Rightarrow> string \<Rightarrow> json" where
  "etcd_json inst adv az =
     (let j = obj [(''service'', JStr ''logic''), (''addr'', JStr adv), (''weight'', JInt 1), (''instance'', JStr inst)]
      in if az = [] then j else jset j ''az'' (JStr az))"

definition announcement :: "jlib \<Rightarrow> (string \<Rightarrow> string) \<Rightarrow> string \<times> string \<Rightarrow> string \<times> string" where
  "announcement L addr_of x = (etcd_key (fst x), etcd_value L (fst x) (addr_of (fst x)) (snd x))"

definition announcements_ok :: "jlib \<Rightarrow> (string \<Rightarrow> string) \<Rightarrow> (string \<times> string) list \<Rightarrow> bool" where
  "announcements_ok L addr_of xs \<longleftrightarrow> distinct (map fst xs) \<and>
     list_all (\<lambda>(i, az). i \<noteq> [] \<and> lib_parse L (lib_dump L (etcd_json i (addr_of i) az)) = Some (etcd_json i (addr_of i) az)) xs"

lemma etcd_value_json: "etcd_value L inst adv az = lib_dump L (etcd_json inst adv az)"
  by (simp add: etcd_value_def etcd_json_def Let_def)

lemma instanceIdFromKey_etcd_key: "instanceIdFromKey ''services/logic/'' (etcd_key i) = i"
  by (simp add: instanceIdFromKey_def etcd_key_def)

lemma etcd_key_eq: "etcd_key i = etcd_key j \<longleftrightarrow> i = j"
  by (simp add: etcd_key_def)

text \<open>
  The two processes agree on the format: what an instance writes under its key the gateway reads as the
  endpoint that the instance also announces to the registry service, with the zone beside it.
\<close>

lemma announced_entry_is_read:
  assumes "lib_parse L (lib_dump L (etcd_json inst adv az)) = Some (etcd_json inst adv az)"
  shows "parseEndpoint L pre (etcd_key inst) (etcd_value L inst adv az) = Inr (logic_endpoint inst adv, az)"
proof -
  have m: "members (etcd_json inst adv az) \<noteq> None" "jlookup (etcd_json inst adv az) ''addr'' = Some (JStr adv)"
      "jlookup (etcd_json inst adv az) ''service'' = Some (JStr ''logic'')" "jlookup (etcd_json inst adv az) ''weight'' = Some (JInt 1)"
      "jlookup (etcd_json inst adv az) ''instance'' = Some (JStr inst)" "jlookup (etcd_json inst adv az) ''az'' = (if az = [] then None else Some (JStr az))"
    by (simp_all add: etcd_json_def obj_def jset_def members_def jlookup_def Let_def)
  then show ?thesis using assms
    by (auto simp: parseEndpoint_def etcd_value_json value_str_def value_int32_def contains_def jlookup_def logic_endpoint_def wrap32_def)
qed

lemma announcements_listing:
  assumes "announcements_ok L addr_of xs"
  shows "listing_ok L ''services/logic/'' addr_of (map (announcement L addr_of) xs)"
proof -
  have "entry_ok L ''services/logic/'' addr_of (announcement L addr_of x)" if "x \<in> set xs" for x
    using assms that announced_entry_is_read [of L "fst x" "addr_of (fst x)" "snd x"]
    by (auto simp: announcements_ok_def list_all_iff entry_ok_def announcement_def instanceIdFromKey_etcd_key logic_endpoint_def at_home_def)
  moreover have "inj_on etcd_key A" for A by (simp add: inj_on_def etcd_key_eq)
  then have "distinct (map etcd_key (map fst xs))" using assms by (simp add: announcements_ok_def distinct_map del: map_map)
  ultimately show ?thesis by (simp add: listing_ok_def list_all_iff announcement_def comp_def)
qed

lemma last_listing_map: "last_listing (f x) (map (map_option f) xs) = f (last_listing x xs)"
proof (induction xs arbitrary: x)
  case (Cons a xs)
  then show ?case by (cases a) simp_all
qed simp


text \<open>A library for the witnesses: it writes the instance and reads it as an entry with the address \<^verbatim>\<open>a:\<close> and the instance.\<close>

definition entry_lib :: jlib where
  "entry_lib = \<lparr>lib_dump = \<lambda>j. the (value_str j ''instance'' []), lib_parse = \<lambda>t. Some (etcd_json t (''a:'' @ t) [])\<rparr>"

definition demo_etcd :: etcd_lib where
  "demo_etcd = \<lparr>snap_diff = list_diff, store_first = True\<rparr>"

lemma demo_etcd_laws: "inj ((@) ''a:'')" "snapshot_diff (snap_diff demo_etcd)"
  by (auto intro: injI simp: ld.snapshot_diff_axioms demo_etcd_def)

lemma entry_lib_ok: "announcements_ok entry_lib ((@) ''a:'') [(''1'', [])]" "announcements_ok entry_lib ((@) ''a:'') [(''1'', []), (''2'', [])]"
  by code_simp+


section \<open>The gap between the two first listings\<close>

lemma gap_polls:
  assumes "inj addr_of" "snapshot_diff (snap_diff E)" "listing_ok L pre addr_of l" "(k, v) \<in> set l"
    and "\<forall>l. Some l \<in> set answers \<longrightarrow> listing_ok L pre addr_of l \<and> (k, v) \<in> set l"
    and "tracks addr_of p D" "instanceIdFromKey pre k \<notin> D"
  shows "\<exists>p' D'. foldl (etcd_poll E L B H pre) (p, l) answers = (p', last_listing l answers) \<and> (k, v) \<in> set (last_listing l answers) \<and>
    tracks addr_of p' D' \<and> instanceIdFromKey pre k \<notin> D'"
  using assms(3-7)
proof (induction answers arbitrary: p l D)
  case Nil
  then show ?case by auto
next
  case (Cons answer answers)
  show ?case
  proof (cases answer)
    case None
    with Cons.IH [OF Cons.prems(1,2) _ Cons.prems(4,5)] Cons.prems(3) show ?thesis by simp
  next
    case (Some new)
    then have new: "listing_ok L pre addr_of new" "(k, v) \<in> set new" using Cons.prems(3) by simp_all
    obtain a r u where d: "snap_diff E l new = (a, r, u)" by (metis prod_cases3)
    have id: "instanceIdFromKey pre k \<noteq> []" using new by (auto simp: listing_ok_def list_all_iff entry_ok_def)
    have "distinct (map fst new)" using new(1) by (simp add: listing_ok_def)
    note quiet = snapshot_diff.quiet [OF assms(2) d Cons.prems(2) new(2) this]
    obtain p' D' where p': "etcd_poll E L B H pre (p, l) (Some new) = (p', new)" "tracks addr_of p' D'"
        "D' = (D \<union> key_ids pre (fst ` set a) - key_ids pre (set r)) \<union> key_ids pre (fst ` set u)"
      using tracks_etcd_poll [OF assms(1,2) Cons.prems(1) new(1) Cons.prems(4) d] by blast
    have "instanceIdFromKey pre k \<notin> key_ids pre K" if "k \<notin> K" for K
      using that instanceIdFromKey_inj [OF _ id] by blast
    with quiet(1,3) Cons.prems(5) have "instanceIdFromKey pre k \<notin> D'" unfolding p'(3) by blast
    from Cons.IH [OF new _ p'(2) this] Cons.prems(3) Some p'(1) show ?thesis by simp
  qed
qed

text \<open>
  An instance that registers between the two first listings is never used: it is missing from the first,
  and the second, to which the loop only listens in order to have it remembered, makes it an old
  entry for every later round. Its client is missing as long as its entry stays the same.
\<close>

theorem etcd_gap_misses_instance:
  assumes "inj addr_of" "snapshot_diff (snap_diff E)" "listing_ok L pre addr_of listed" "listing_ok L pre addr_of polled"
    and "(k, v) \<in> set polled" "k \<notin> fst ` set listed" "\<forall>l. Some l \<in> set answers \<longrightarrow> listing_ok L pre addr_of l \<and> (k, v) \<in> set l"
  shows "\<exists>p. etcdPollLoop E L B H pre listed (Some polled) answers (new_pool g az) = Some (p, last_listing polled answers) \<and>
    (k, v) \<in> set (last_listing polled answers) \<and> clients p (addr_of (instanceIdFromKey pre k)) = None"
proof -
  have "list_all (entry_ok L pre addr_of) listed" using assms(3) by (simp add: listing_ok_def)
  from tracks_etcd_adds [OF assms(1) this tracks_new [of addr_of g az], of B H False] obtain p0
    where p0: "etcd_adds L B H pre False listed (new_pool g az) = (p0, None)" "tracks addr_of p0 (key_ids pre (fst ` set listed))"
    by auto
  have id: "instanceIdFromKey pre k \<noteq> []" using assms(4,5) by (auto simp: listing_ok_def list_all_iff entry_ok_def)
  then have "instanceIdFromKey pre k \<notin> key_ids pre (fst ` set listed)" using assms(6) instanceIdFromKey_inj [OF _ id] by blast
  from gap_polls [OF assms(1,2,4,5,7) p0(2) this, of B H] obtain p D
    where p: "foldl (etcd_poll E L B H pre) (p0, polled) answers = (p, last_listing polled answers)" "(k, v) \<in> set (last_listing polled answers)"
      "tracks addr_of p D" "instanceIdFromKey pre k \<notin> D" by blast
  have "clients p (addr_of (instanceIdFromKey pre k)) = None" by (rule tracks_unknown [OF assms(1) p(3,4)])
  with p0(1) p(1,2) show ?thesis by (simp add: etcdPollLoop_def)
qed

theorem etcd_gap_misses_instance_witness:
  "\<exists>p. etcdPollLoop demo_etcd entry_lib demo_breaker demo_hash ''services/logic/'' (map (announcement entry_lib ((@) ''a:'')) [(''1'', [])])
       (Some (map (announcement entry_lib ((@) ''a:'')) [(''1'', []), (''2'', [])])) [] (new_pool ''g'' []) =
         Some (p, map (announcement entry_lib ((@) ''a:'')) [(''1'', []), (''2'', [])]) \<and>
     clients p ''a:2'' = None"
  using etcd_gap_misses_instance [OF demo_etcd_laws entry_lib_ok [THEN announcements_listing], of "etcd_key ''2''" "etcd_value entry_lib ''2'' ''a:2'' []"
      "[]" demo_breaker demo_hash "''g''" "[]"]
  by (simp add: announcement_def instanceIdFromKey_etcd_key etcd_key_eq)

section \<open>Longer prefixes\<close>

text \<open>
  A gateway that lists only a part of the instances by a longer prefix never drops one: it files an
  instance under the name in the entry, and looks for it under what follows the prefix in the key.
\<close>

theorem longer_prefix_never_drops:
  assumes "lib_parse L (lib_dump L (etcd_json (part @ rest) adv az)) = Some (etcd_json (part @ rest) adv az)"
    and "instanceToAddr p rest = None"
  shows "etcd_removes (''services/logic/'' @ part) [etcd_key (part @ rest)] p = p \<and>
    parseEndpoint L (''services/logic/'' @ part) (etcd_key (part @ rest)) (etcd_value L (part @ rest) adv az) = Inr (logic_endpoint (part @ rest) adv, az)"
  using announced_entry_is_read [OF assms(1)] assms(2)
  by (simp add: instanceIdFromKey_def etcd_key_def removeEndpoint_def)

theorem longer_prefix_never_drops_witness:
  "let p = addEndpoint demo_breaker demo_hash (logic_endpoint ''a1'' ''a:a1'') [] (new_pool ''g'' [])
   in etcd_removes (''services/logic/'' @ ''a'') [etcd_key (''a'' @ ''1'')] p = p \<and> clients p ''a:a1'' \<noteq> None"
proof -
  let ?p = "addEndpoint demo_breaker demo_hash (logic_endpoint ''a1'' ''a:a1'') [] (new_pool ''g'' [])"
  have p: "instanceToAddr ?p ''1'' = None" "clients ?p ''a:a1'' \<noteq> None"
    by (simp_all add: addEndpoint_def logic_endpoint_def new_pool_def Let_def)
  have "lib_parse entry_lib (lib_dump entry_lib (etcd_json (''a'' @ ''1'') ''a:a1'' [])) = Some (etcd_json (''a'' @ ''1'') ''a:a1'' [])"
    by code_simp
  from longer_prefix_never_drops [OF this p(1)] p(2) show ?thesis unfolding Let_def by blast
qed

end
