(* ===== verification/Database.thy ===== *)
theory Database
  imports Json
begin

text \<open>
  The MySQL tables of \<^verbatim>\<open>src/sql/init.sql\<close> and its migrations as lists of rows, and the
  statements the services send as functions on them. Statements keep the primary, unique
  and foreign keys of the schema: a violating INSERT reports \<open>-1\<close> and does nothing, an
  INSERT IGNORE reports \<open>0\<close>, deletions cascade. Faults are the \<open>outcome\<close> argument of an
  operation: a failed statement reports \<open>-1\<close> (or no result), a failed commit rolls back.
  The rows of \<^verbatim>\<open>private_messages\<close> and \<^verbatim>\<open>group_messages\<close> share one record, whose \<open>m_peer\<close> is
  the addressee or the group.
\<close>

record user_row =
  u_id :: uid
  u_username :: string
  u_password :: string
  u_nickname :: "string option"
  u_avatar :: string

record request_row =
  r_id :: int
  r_from :: uid
  r_to :: uid
  r_status :: int
  r_created :: ms

record group_row =
  g_id :: int
  g_name :: string
  g_owner :: uid
  g_announcement :: "string option"

record msg_row =
  m_msg_id :: string
  m_from :: uid
  m_peer :: int
  m_content :: string
  m_recalled :: bool
  m_timestamp :: ms
  m_edited_at :: "ms option"
  m_original :: "string option"
  m_mentions :: "string option"
  m_delivered_at :: "ms option"
  m_delivered_count :: int

record edit_row =
  e_msg_id :: string
  e_editor :: uid
  e_kind :: int
  e_old :: string
  e_new :: string
  e_at :: ms

datatype outbox_status = Pending | Sending | Sent

record outbox_row =
  o_id :: int
  o_topic :: string
  o_key :: string
  o_payload :: string
  o_status :: outbox_status
  o_retry :: nat
  o_created :: ms
  o_error :: "string option"

datatype saga_state = Running | Compensating | SagaDone | SagaFailed

record saga_row =
  sg_id :: int
  sg_type :: string
  sg_state :: saga_state
  sg_step :: nat
  sg_payload :: string
  sg_error :: "string option"

text \<open>AUTO\_INCREMENT counters; a rollback does not give numbers back.\<close>

record seqs =
  next_user :: int
  next_request :: int
  next_group :: int
  next_outbox :: int

record db =
  users :: "user_row list"
  friends :: "(uid \<times> uid) list"
  requests :: "request_row list"
  grps :: "group_row list"
  gmembers :: "(int \<times> uid) list"
  pmsgs :: "msg_row list"
  gmsgs :: "msg_row list"
  edits :: "edit_row list"
  reactions :: "(string \<times> uid \<times> string) list"
  outbox :: "outbox_row list"
  sagas :: "saga_row list"
  seq :: seqs

definition empty_db :: db where
  "empty_db = \<lparr>users = [], friends = [], requests = [], grps = [], gmembers = [], pmsgs = [],
     gmsgs = [], edits = [], reactions = [], outbox = [], sagas = [],
     seq = \<lparr>next_user = 1, next_request = 1, next_group = 1, next_outbox = 1\<rparr>\<rparr>"

type_synonym stmt = "db \<Rightarrow> int \<times> db"

text \<open>An operation's answer: \<open>Inl\<close> the message of a failure, \<open>Inr\<close> the fields of a success.\<close>

type_synonym reply = "string + (string \<times> json) list"

section \<open>Statements and faults\<close>

definition exec :: "outcome \<Rightarrow> nat \<Rightarrow> stmt \<Rightarrow> stmt" where
  "exec ok n st d = (if ok (Exec n) then st d else (-1, d))"

definition prepared :: "outcome \<Rightarrow> nat \<Rightarrow> stmt \<Rightarrow> stmt" where
  "prepared ok n st d = (if ok (Prepare n) \<and> ok (Exec n) then st d else (-1, d))"

definition query :: "outcome \<Rightarrow> nat \<Rightarrow> (db \<Rightarrow> 'a) \<Rightarrow> db \<Rightarrow> 'a option" where
  "query ok n f d = (if ok (Query n) then Some (f d) else None)"

definition rollback :: "db \<Rightarrow> db \<Rightarrow> db" where
  "rollback d d' = d\<lparr>seq := seq d'\<rparr>"

text \<open>
  The body of a \<^verbatim>\<open>TransactionGuard\<close> scope: what it did is kept iff it asked for the commit
  and the commit succeeded.
\<close>

definition tx :: "outcome \<Rightarrow> bool \<times> db \<Rightarrow> db \<Rightarrow> bool \<times> db" where
  "tx ok body d = (if fst body \<and> ok Commit then (True, snd body) else (False, rollback d (snd body)))"

definition has_user :: "db \<Rightarrow> uid \<Rightarrow> bool" where
  "has_user d u \<longleftrightarrow> list_ex (\<lambda>r. u_id r = u) (users d)"

definition has_group :: "db \<Rightarrow> int \<Rightarrow> bool" where
  "has_group d g \<longleftrightarrow> list_ex (\<lambda>r. g_id r = g) (grps d)"

definition ins_friend :: "uid \<Rightarrow> uid \<Rightarrow> stmt" where
  "ins_friend u v d =
     (if (u, v) \<in> set (friends d) \<or> \<not> has_user d u \<or> \<not> has_user d v then (0, d)
      else (1, d\<lparr>friends := friends d @ [(u, v)]\<rparr>))"

definition del_friend :: "uid \<Rightarrow> uid \<Rightarrow> stmt" where
  "del_friend u v d =
     (int (length (filter (\<lambda>p. p = (u, v)) (friends d))),
      d\<lparr>friends := filter (\<lambda>p. p \<noteq> (u, v)) (friends d)\<rparr>)"

definition ins_request :: "ms \<Rightarrow> uid \<Rightarrow> uid \<Rightarrow> stmt" where
  "ins_request now f t d =
     (if list_ex (\<lambda>r. r_from r = f \<and> r_to r = t) (requests d) \<or> \<not> has_user d f \<or> \<not> has_user d t
      then (0, d)
      else (1, d\<lparr>requests := requests d @ [\<lparr>r_id = next_request (seq d), r_from = f, r_to = t, r_status = 0,
                                           r_created = now\<rparr>],
                 seq := (seq d)\<lparr>next_request := next_request (seq d) + 1\<rparr>\<rparr>))"

definition set_request_status :: "int \<Rightarrow> int \<Rightarrow> stmt" where
  "set_request_status rid s d =
     (int (length (filter (\<lambda>r. r_id r = rid \<and> r_status r \<noteq> s) (requests d))),
      d\<lparr>requests := map (\<lambda>r. if r_id r = rid then r\<lparr>r_status := s\<rparr> else r) (requests d)\<rparr>)"

definition ins_group :: "string \<Rightarrow> uid \<Rightarrow> stmt" where
  "ins_group name owner d =
     (if \<not> has_user d owner then (-1, d)
      else (1, d\<lparr>grps := grps d @ [\<lparr>g_id = next_group (seq d), g_name = name, g_owner = owner,
                                     g_announcement = None\<rparr>],
                 seq := (seq d)\<lparr>next_group := next_group (seq d) + 1\<rparr>\<rparr>))"

definition del_group :: "int \<Rightarrow> stmt" where
  "del_group g d =
     (int (length (filter (\<lambda>r. g_id r = g) (grps d))),
      d\<lparr>grps := filter (\<lambda>r. g_id r \<noteq> g) (grps d), gmembers := filter (\<lambda>p. fst p \<noteq> g) (gmembers d)\<rparr>)"

definition set_announcement_row :: "int \<Rightarrow> string \<Rightarrow> stmt" where
  "set_announcement_row g a d =
     (int (length (filter (\<lambda>r. g_id r = g \<and> g_announcement r \<noteq> Some a) (grps d))),
      d\<lparr>grps := map (\<lambda>r. if g_id r = g then r\<lparr>g_announcement := Some a\<rparr> else r) (grps d)\<rparr>)"

definition ins_member :: "int \<Rightarrow> uid \<Rightarrow> stmt" where
  "ins_member g u d =
     (if (g, u) \<in> set (gmembers d) \<or> \<not> has_group d g \<or> \<not> has_user d u then (-1, d)
      else (1, d\<lparr>gmembers := gmembers d @ [(g, u)]\<rparr>))"

definition ins_member_ignore :: "int \<Rightarrow> uid \<Rightarrow> stmt" where
  "ins_member_ignore g u d = (let (r, d') = ins_member g u d in if r = -1 then (0, d) else (r, d'))"

definition del_member :: "int \<Rightarrow> uid \<Rightarrow> stmt" where
  "del_member g u d =
     (int (length (filter (\<lambda>p. p = (g, u)) (gmembers d))),
      d\<lparr>gmembers := filter (\<lambda>p. p \<noteq> (g, u)) (gmembers d)\<rparr>)"

definition del_members :: "int \<Rightarrow> stmt" where
  "del_members g d =
     (int (length (filter (\<lambda>p. fst p = g) (gmembers d))),
      d\<lparr>gmembers := filter (\<lambda>p. fst p \<noteq> g) (gmembers d)\<rparr>)"

text \<open>\<^verbatim>\<open>DELETE FROM users\<close> with its cascades: relations, requests, and the groups owned.\<close>

definition del_user :: "uid \<Rightarrow> stmt" where
  "del_user u d =
     (int (length (filter (\<lambda>r. u_id r = u) (users d))),
      d\<lparr>users := filter (\<lambda>r. u_id r \<noteq> u) (users d),
        friends := filter (\<lambda>p. fst p \<noteq> u \<and> snd p \<noteq> u) (friends d),
        requests := filter (\<lambda>r. r_from r \<noteq> u \<and> r_to r \<noteq> u) (requests d),
        grps := filter (\<lambda>r. g_owner r \<noteq> u) (grps d),
        gmembers := filter (\<lambda>p. snd p \<noteq> u \<and> \<not> list_ex (\<lambda>r. g_id r = fst p \<and> g_owner r = u) (grps d))
          (gmembers d)\<rparr>)"

declare exec_def [svc_defs] prepared_def [svc_defs] query_def [svc_defs] tx_def [svc_defs]
declare ins_friend_def [tbl_defs] del_friend_def [tbl_defs] ins_request_def [tbl_defs]
  set_request_status_def [tbl_defs] ins_group_def [tbl_defs] del_group_def [tbl_defs]
  set_announcement_row_def [tbl_defs] ins_member_def [tbl_defs] ins_member_ignore_def [tbl_defs]
  del_member_def [tbl_defs] del_members_def [tbl_defs] del_user_def [tbl_defs]

section \<open>Integrity\<close>

text \<open>The relations of the schema: unique keys, foreign keys, and fresh counters.\<close>

definition users_ok :: "db \<Rightarrow> bool" where
  "users_ok d \<longleftrightarrow> distinct (map u_id (users d)) \<and> (\<forall>r \<in> set (users d). u_id r < next_user (seq d))"

definition friends_ok :: "db \<Rightarrow> bool" where
  "friends_ok d \<longleftrightarrow> distinct (friends d) \<and> (\<forall>p \<in> set (friends d). has_user d (fst p) \<and> has_user d (snd p))"

definition requests_ok :: "db \<Rightarrow> bool" where
  "requests_ok d \<longleftrightarrow> distinct (map r_id (requests d)) \<and>
     (\<forall>r \<in> set (requests d). r_id r < next_request (seq d) \<and> has_user d (r_from r) \<and> has_user d (r_to r))"

definition groups_ok :: "db \<Rightarrow> bool" where
  "groups_ok d \<longleftrightarrow> 1 \<le> next_group (seq d) \<and> distinct (map g_id (grps d)) \<and>
     (\<forall>r \<in> set (grps d). g_id r < next_group (seq d) \<and> has_user d (g_owner r)) \<and>
     distinct (gmembers d) \<and> (\<forall>p \<in> set (gmembers d). has_group d (fst p) \<and> has_user d (snd p))"

definition db_ok :: "db \<Rightarrow> bool" where
  "db_ok d \<longleftrightarrow> users_ok d \<and> friends_ok d \<and> requests_ok d \<and> groups_ok d"

lemmas db_ok_defs = db_ok_def users_ok_def friends_ok_def requests_ok_def groups_ok_def

definition seq_le :: "db \<Rightarrow> db \<Rightarrow> bool" where
  "seq_le d d' \<longleftrightarrow> next_user (seq d) \<le> next_user (seq d') \<and> next_request (seq d) \<le> next_request (seq d') \<and>
     next_group (seq d) \<le> next_group (seq d') \<and> next_outbox (seq d) \<le> next_outbox (seq d')"

text \<open>A safe statement keeps integrity and never gives a counter value back.\<close>

definition safe :: "stmt \<Rightarrow> bool" where
  "safe st \<longleftrightarrow> (\<forall>d. db_ok d \<longrightarrow> db_ok (snd (st d)) \<and> seq_le d (snd (st d)))"

lemma seq_le_refl [simp]: "seq_le d d"
  by (simp add: seq_le_def)

lemma seq_le_trans: "seq_le a b \<Longrightarrow> seq_le b c \<Longrightarrow> seq_le a c"
  by (simp add: seq_le_def)

lemma has_user_upd [simp]:
  "has_user (d\<lparr>friends := x1\<rparr>) = has_user d" "has_user (d\<lparr>requests := x2\<rparr>) = has_user d"
  "has_user (d\<lparr>grps := x3\<rparr>) = has_user d" "has_user (d\<lparr>gmembers := x4\<rparr>) = has_user d"
  "has_user (d\<lparr>seq := x5\<rparr>) = has_user d" "has_user (d\<lparr>pmsgs := x6\<rparr>) = has_user d"
  "has_user (d\<lparr>gmsgs := x6\<rparr>) = has_user d" "has_user (d\<lparr>edits := x7\<rparr>) = has_user d"
  "has_user (d\<lparr>reactions := x8\<rparr>) = has_user d" "has_user (d\<lparr>outbox := x9\<rparr>) = has_user d"
  "has_user (d\<lparr>sagas := x10\<rparr>) = has_user d"
  by (simp_all add: has_user_def fun_eq_iff)

lemma has_group_upd [simp]:
  "has_group (d\<lparr>friends := x1\<rparr>) = has_group d" "has_group (d\<lparr>requests := x2\<rparr>) = has_group d"
  "has_group (d\<lparr>users := x3\<rparr>) = has_group d" "has_group (d\<lparr>gmembers := x4\<rparr>) = has_group d"
  "has_group (d\<lparr>seq := x5\<rparr>) = has_group d" "has_group (d\<lparr>pmsgs := x6\<rparr>) = has_group d"
  "has_group (d\<lparr>gmsgs := x6\<rparr>) = has_group d" "has_group (d\<lparr>edits := x7\<rparr>) = has_group d"
  "has_group (d\<lparr>reactions := x8\<rparr>) = has_group d" "has_group (d\<lparr>outbox := x9\<rparr>) = has_group d"
  "has_group (d\<lparr>sagas := x10\<rparr>) = has_group d"
  by (simp_all add: has_group_def fun_eq_iff)

lemma db_ok_upd [simp]:
  "db_ok (d\<lparr>pmsgs := x1\<rparr>) = db_ok d" "db_ok (d\<lparr>gmsgs := x1\<rparr>) = db_ok d"
  "db_ok (d\<lparr>edits := x2\<rparr>) = db_ok d" "db_ok (d\<lparr>reactions := x3\<rparr>) = db_ok d"
  "db_ok (d\<lparr>outbox := x4\<rparr>) = db_ok d" "db_ok (d\<lparr>sagas := x5\<rparr>) = db_ok d"
  by (simp_all add: db_ok_defs)

lemma has_user_intro: "r \<in> set (users d) \<Longrightarrow> has_user d (u_id r)"
  by (auto simp: has_user_def list_ex_iff)

lemma has_user_snoc: "has_user (d\<lparr>users := users d @ [r]\<rparr>) u \<longleftrightarrow> has_user d u \<or> u_id r = u"
  by (auto simp: has_user_def)

lemma db_ok_empty [simp]: "db_ok empty_db"
  by (simp add: db_ok_defs empty_db_def)

lemma db_ok_seq: "db_ok d \<Longrightarrow> seq_le d d' \<Longrightarrow> db_ok (d\<lparr>seq := seq d'\<rparr>)"
  by (fastforce simp: db_ok_defs seq_le_def has_user_def has_group_def)

lemma db_ok_rollback: "db_ok d \<Longrightarrow> seq_le d d' \<Longrightarrow> db_ok (rollback d d')"
  by (simp add: rollback_def db_ok_seq)

lemma seq_le_rollback [simp]: "seq_le d (rollback d d') = seq_le d d'"
  by (simp add: rollback_def seq_le_def)

lemma safe_ins_friend [simp]: "safe (ins_friend u v)"
  by (auto simp: safe_def ins_friend_def db_ok_defs seq_le_def)

lemma safe_del_friend [simp]: "safe (del_friend u v)"
  by (auto simp: safe_def del_friend_def db_ok_defs seq_le_def)

lemma safe_ins_request [simp]: "safe (ins_request now f t)"
  by (auto simp: safe_def ins_request_def db_ok_defs seq_le_def)

lemma safe_set_request_status [simp]: "safe (set_request_status rid s)"
proof -
  let ?f = "\<lambda>r. if r_id r = rid then r\<lparr>r_status := s\<rparr> else r"
  have f: "map r_id (map ?f rs) = map r_id rs" for rs by simp
  show ?thesis
    by (simp add: safe_def set_request_status_def db_ok_defs seq_le_def f del: map_map) auto
qed

lemma safe_ins_group [simp]: "safe (ins_group name owner)"
  by (fastforce simp: safe_def ins_group_def db_ok_defs seq_le_def has_group_def)

lemma safe_del_group [simp]: "safe (del_group g)"
proof -
  have "has_group (d\<lparr>grps := filter (\<lambda>r. g_id r \<noteq> g) (grps d), gmembers := ms\<rparr>) h \<longleftrightarrow> has_group d h \<and> h \<noteq> g" for d ms h
    by (auto simp: has_group_def list_ex_iff)
  then show ?thesis
    by (auto simp: safe_def del_group_def db_ok_defs seq_le_def distinct_map_filter)
qed

lemma safe_set_announcement_row [simp]: "safe (set_announcement_row g a)"
proof -
  let ?f = "\<lambda>r. if g_id r = g then r\<lparr>g_announcement := Some a\<rparr> else r"
  have f: "map g_id (map ?f rs) = map g_id rs" for rs by simp
  have "list_ex (\<lambda>r. g_id r = h) (map ?f rs) = list_ex (\<lambda>r. g_id r = h) rs" for rs h
    by (induction rs) auto
  then have g: "has_group (d\<lparr>grps := map ?f (grps d)\<rparr>) h = has_group d h" for d h
    by (simp add: has_group_def)
  show ?thesis
    by (simp add: safe_def set_announcement_row_def db_ok_defs seq_le_def f g del: map_map) auto
qed

lemma safe_ins_member [simp]: "safe (ins_member g u)" "safe (ins_member_ignore g u)"
  by (auto simp: safe_def ins_member_def ins_member_ignore_def db_ok_defs seq_le_def)

lemma has_user_del: "has_user (snd (del_user u d)) v \<longleftrightarrow> has_user d v \<and> v \<noteq> u"
  by (auto simp: has_user_def del_user_def list_ex_iff)

lemma has_group_del:
  "has_group (snd (del_user u d)) g \<longleftrightarrow> (\<exists>r \<in> set (grps d). g_id r = g \<and> g_owner r \<noteq> u)"
  by (auto simp: has_group_def del_user_def list_ex_iff)

lemma safe_del_user [simp]: "safe (del_user u)"
proof -
  have "db_ok (snd (del_user u d)) \<and> seq_le d (snd (del_user u d))" if ok: "db_ok d" for d
  proof -
    let ?d = "snd (del_user u d)"
    have "users_ok ?d" "seq_le d ?d"
      using ok by (auto simp: del_user_def db_ok_def users_ok_def seq_le_def distinct_map_filter)
    moreover have "friends_ok ?d" "requests_ok ?d"
      using ok by (auto simp: db_ok_def friends_ok_def requests_ok_def has_user_del)
        (auto simp: del_user_def distinct_map_filter)
    moreover have "groups_ok ?d"
      using ok by (auto simp: db_ok_def groups_ok_def has_user_del has_group_del)
        (auto simp: del_user_def distinct_map_filter has_group_def list_ex_iff, fastforce)
    ultimately show ?thesis by (simp add: db_ok_def)
  qed
  then show ?thesis by (simp add: safe_def)
qed

lemma safe_del_member [simp]: "safe (del_member g u)" "safe (del_members g)"
  by (auto simp: safe_def del_member_def del_members_def db_ok_defs seq_le_def)

lemma exec_safe: "safe st \<Longrightarrow> db_ok d \<Longrightarrow> exec ok n st d = (r, d') \<Longrightarrow> db_ok d' \<and> seq_le d d'"
  by (auto simp: exec_def safe_def split: if_splits)

lemma prepared_safe: "safe st \<Longrightarrow> db_ok d \<Longrightarrow> prepared ok n st d = (r, d') \<Longrightarrow> db_ok d' \<and> seq_le d d'"
  by (auto simp: prepared_def safe_def split: if_splits)

lemma tx_safe:
  assumes "db_ok d" "db_ok (snd body) \<and> seq_le d (snd body)"
  shows "db_ok (snd (tx ok body d)) \<and> seq_le d (snd (tx ok body d))"
  using assms by (simp add: tx_def db_ok_rollback)

section \<open>Atomic operations\<close>

text \<open>\<open>unchanged d d'\<close>: nothing but counters moved.\<close>

definition unchanged :: "db \<Rightarrow> db \<Rightarrow> bool" where
  "unchanged d d' \<longleftrightarrow> d' = d\<lparr>seq := seq d'\<rparr>"

lemma unchanged_refl [simp]: "unchanged d d"
  by (simp add: unchanged_def)

lemma unchanged_fields:
  assumes "unchanged d d'"
  shows "users d' = users d" "friends d' = friends d" "requests d' = requests d" "grps d' = grps d"
    "gmembers d' = gmembers d" "pmsgs d' = pmsgs d" "gmsgs d' = gmsgs d" "edits d' = edits d"
    "reactions d' = reactions d" "outbox d' = outbox d" "sagas d' = sagas d"
proof -
  show "users d' = users d" using arg_cong [OF assms [unfolded unchanged_def], of users] by simp
  show "friends d' = friends d" using arg_cong [OF assms [unfolded unchanged_def], of friends] by simp
  show "requests d' = requests d" using arg_cong [OF assms [unfolded unchanged_def], of requests] by simp
  show "grps d' = grps d" using arg_cong [OF assms [unfolded unchanged_def], of grps] by simp
  show "gmembers d' = gmembers d" using arg_cong [OF assms [unfolded unchanged_def], of gmembers] by simp
  show "pmsgs d' = pmsgs d" using arg_cong [OF assms [unfolded unchanged_def], of pmsgs] by simp
  show "gmsgs d' = gmsgs d" using arg_cong [OF assms [unfolded unchanged_def], of gmsgs] by simp
  show "edits d' = edits d" using arg_cong [OF assms [unfolded unchanged_def], of edits] by simp
  show "reactions d' = reactions d" using arg_cong [OF assms [unfolded unchanged_def], of reactions] by simp
  show "outbox d' = outbox d" using arg_cong [OF assms [unfolded unchanged_def], of outbox] by simp
  show "sagas d' = sagas d" using arg_cong [OF assms [unfolded unchanged_def], of sagas] by simp
qed

lemma unchanged_trans: "unchanged a b \<Longrightarrow> unchanged b c \<Longrightarrow> unchanged a c"
  unfolding unchanged_def by (metis db.surjective db.update_convs(12))

lemma unchanged_rollback [simp]: "unchanged d (rollback d d')"
  by (simp add: unchanged_def rollback_def)

lemma tx_unchanged: "\<not> fst (tx ok body d) \<Longrightarrow> unchanged d (snd (tx ok body d))"
  by (auto simp: tx_def)

lemma exec_ge0: "exec ok n st d = (r, d') \<Longrightarrow> 0 \<le> r \<Longrightarrow> ok (Exec n) \<and> st d = (r, d')"
  by (auto simp: exec_def split: if_splits)

text \<open>A pair of statements inside one transaction: all or nothing, and safe.\<close>

lemma pair_tx:
  assumes "exec ok m s1 d = (r1, d1)" "exec ok n s2 d1 = (r2, d2)"
    "tx ok (r1 \<ge> 0 \<and> r2 \<ge> 0, d2) d = (success, d')" "safe s1" "safe s2" "db_ok d"
  shows "db_ok d' \<and> (if success then d' = snd (s2 (snd (s1 d))) else unchanged d d')"
proof -
  from exec_safe [OF assms(4,6,1)] have 1: "db_ok d1" "seq_le d d1" by auto
  from exec_safe [OF assms(5) 1(1) assms(2)] have 2: "db_ok d2" "seq_le d1 d2" by auto
  from tx_safe [of d "(r1 \<ge> 0 \<and> r2 \<ge> 0, d2)" ok] assms(3,6) 1 2 have "db_ok d'"
    using seq_le_trans by (auto simp: prod_eq_iff)
  moreover have "unchanged d d'" if "\<not> success"
    using tx_unchanged [of ok "(r1 \<ge> 0 \<and> r2 \<ge> 0, d2)" d] assms(3) that by auto
  moreover have "d' = snd (s2 (snd (s1 d)))" if success
  proof -
    from assms(3) that have c: "0 \<le> r1" "0 \<le> r2" "d' = d2" by (auto simp: tx_def split: if_splits)
    from exec_ge0 [OF assms(1) c(1)] exec_ge0 [OF assms(2) c(2)] c(3) show ?thesis by simp
  qed
  ultimately show ?thesis by auto
qed

lemma triple_tx:
  assumes "exec ok l s0 d = (r0, d0)" "exec ok m s1 d0 = (r1, d1)" "exec ok n s2 d1 = (r2, d2)"
    "tx ok (r0 \<ge> 0 \<and> r1 \<ge> 0 \<and> r2 \<ge> 0, d2) d = (success, d')" "safe s0" "safe s1" "safe s2" "db_ok d"
  shows "db_ok d' \<and> (if success then d' = snd (s2 (snd (s1 (snd (s0 d))))) else unchanged d d')"
proof -
  from exec_safe [OF assms(5,8,1)] have 0: "db_ok d0" "seq_le d d0" by auto
  from exec_safe [OF assms(6) 0(1) assms(2)] have 1: "db_ok d1" "seq_le d0 d1" by auto
  from exec_safe [OF assms(7) 1(1) assms(3)] have 2: "db_ok d2" "seq_le d1 d2" by auto
  have le: "seq_le d d2" using 0 1 2 seq_le_trans by metis
  from tx_safe [of d "(r0 \<ge> 0 \<and> r1 \<ge> 0 \<and> r2 \<ge> 0, d2)" ok] assms(4,8) 2 le have "db_ok d'"
    by (auto simp: prod_eq_iff)
  moreover have "unchanged d d'" if "\<not> success"
    using tx_unchanged [of ok "(r0 \<ge> 0 \<and> r1 \<ge> 0 \<and> r2 \<ge> 0, d2)" d] assms(4) that by auto
  moreover have "d' = snd (s2 (snd (s1 (snd (s0 d)))))" if success
  proof -
    from assms(4) that have c: "0 \<le> r0" "0 \<le> r1" "0 \<le> r2" "d' = d2"
      by (auto simp: tx_def split: if_splits)
    from exec_ge0 [OF assms(1) c(1)] exec_ge0 [OF assms(2) c(2)] exec_ge0 [OF assms(3) c(3)] c(4)
    show ?thesis by simp
  qed
  ultimately show ?thesis by auto
qed

text \<open>
  The contract of a service operation towards its callers: it keeps an invariant of the
  database whatever calls fail, and an answer that reports failure means that the tables
  are as before.
\<close>

locale atomic_op =
  fixes op :: "'a \<Rightarrow> outcome \<Rightarrow> db \<Rightarrow> reply \<times> db"
    and inv :: "db \<Rightarrow> bool"
  assumes op_inv: "inv d \<Longrightarrow> inv (snd (op a ok d))"
    and op_fail: "inv d \<Longrightarrow> fst (op a ok d) = Inl m \<Longrightarrow> unchanged d (snd (op a ok d))"
begin

definition attempt :: "db \<Rightarrow> 'a \<times> outcome \<Rightarrow> db" where
  "attempt d x = snd (op (fst x) (snd x) d)"

lemma run_inv: "inv d \<Longrightarrow> inv (foldl attempt d xs)"
  by (induction xs arbitrary: d) (auto simp: attempt_def op_inv)

text \<open>Retrying until the first success is the same as one successful call.\<close>

lemma failures_invisible:
  assumes "inv d" "\<forall>i < length xs. \<exists>m. fst (op (fst (xs ! i)) (snd (xs ! i)) (foldl attempt d (take i xs))) = Inl m"
  shows "unchanged d (foldl attempt d xs)"
  using assms(2)
proof (induction xs rule: rev_induct)
  case Nil
  then show ?case by simp
next
  case (snoc x xs)
  have "unchanged d (foldl attempt d xs)"
  proof (rule snoc.IH, intro allI impI)
    fix i assume "i < length xs"
    with snoc.prems show "\<exists>m. fst (op (fst (xs ! i)) (snd (xs ! i)) (foldl attempt d (take i xs))) = Inl m"
      by (metis (no_types, lifting) append_take_drop_id butlast_snoc length_append_singleton less_SucI
          nth_append take_append append_Nil2 diff_is_0_eq' less_imp_le take0)
  qed
  moreover obtain m where "fst (op (fst x) (snd x) (foldl attempt d xs)) = Inl m"
    using snoc.prems by (metis append_eq_conv_conj length_append_singleton lessI nth_append_length)
  then have "unchanged (foldl attempt d xs) (attempt (foldl attempt d xs) x)"
    using op_fail [OF run_inv [OF assms(1)]] by (simp add: attempt_def [of _ x])
  ultimately show ?case using unchanged_trans by simp
qed

end

lemma atomic_opI:
  assumes "\<And>a ok d rep d'. J d \<Longrightarrow> op a ok d = (rep, d') \<Longrightarrow>
    J d' \<and> (case rep of Inl m \<Rightarrow> unchanged d d' | Inr fs \<Rightarrow> True)"
  shows "atomic_op op J"
proof
  fix d a ok m
  assume d: "J d"
  show "J (snd (op a ok d))" using assms [OF d, of a ok] by (metis prod.collapse)
  assume "fst (op a ok d) = Inl m"
  with assms [OF d, of a ok "Inl m" "snd (op a ok d)"] show "unchanged d (snd (op a ok d))"
    by (cases "op a ok d") auto
qed

end
