(* ===== verification/Saga.thy ===== *)
theory Saga
  imports Database
begin

text \<open>
  \<^verbatim>\<open>src/src/server/SagaCoordinator.h\<close>. A step is a pair of functions on the database and the
  saga's context; each forward step runs in one transaction with the update of its
  \<^verbatim>\<open>saga_log\<close> row. The outcomes of the calls are given per phase of \<^verbatim>\<open>execute\<close>. Snowflake
  numbers are arguments.
\<close>

record ctx =
  cx_saga_id :: int
  cx_type :: string
  cx_payload :: json
  cx_step :: nat
  cx_error :: string

datatype step_result = StepOk ctx db | StepFail ctx db | StepThrow string ctx db

type_synonym step_fn = "outcome \<Rightarrow> ctx \<Rightarrow> db \<Rightarrow> step_result"

record saga_step =
  st_name :: string
  st_forward :: step_fn
  st_compensate :: "step_fn option"

type_synonym saga_defs = "string \<rightharpoonup> saga_step list"

datatype phase = Load | Fwd nat | MarkDone | MarkCompensating | Comp nat | MarkFailed

definition registerSaga :: "string \<Rightarrow> saga_step list \<Rightarrow> saga_defs \<Rightarrow> saga_defs" where
  "registerSaga name steps defs = defs(name \<mapsto> steps)"

definition ins_saga :: "int \<Rightarrow> string \<Rightarrow> string \<Rightarrow> stmt" where
  "ins_saga sid ty p d =
     (if list_ex (\<lambda>r. sg_id r = sid) (sagas d) then (-1, d)
      else (1, d\<lparr>sagas := sagas d @ [\<lparr>sg_id = sid, sg_type = ty, sg_state = Running, sg_step = 0,
                                      sg_payload = p, sg_error = None\<rparr>]\<rparr>))"

text \<open>An UPDATE of one saga row reports the rows it changed.\<close>

definition upd_saga :: "int \<Rightarrow> (saga_row \<Rightarrow> saga_row) \<Rightarrow> stmt" where
  "upd_saga sid f d =
     (int (length (filter (\<lambda>r. sg_id r = sid \<and> f r \<noteq> r) (sagas d))),
      d\<lparr>sagas := map (\<lambda>r. if sg_id r = sid then f r else r) (sagas d)\<rparr>)"

definition saga_start :: "jlib \<Rightarrow> saga_defs \<Rightarrow> outcome \<Rightarrow> int \<Rightarrow> string \<Rightarrow> json \<Rightarrow> db \<Rightarrow> int \<times> db" where
  "saga_start L defs ok sid sagaType payload d =
     (case defs sagaType of None \<Rightarrow> (0, d)
      | Some steps \<Rightarrow>
        if \<not> ok Acquire then (0, d)
        else
          (let (rows, d') = exec ok 1 (ins_saga sid sagaType (lib_dump L payload)) d
           in if rows < 1 then (0, d') else (sid, d')))"

definition loadContextAndDef :: "jlib \<Rightarrow> saga_defs \<Rightarrow> outcome \<Rightarrow> int \<Rightarrow> db \<Rightarrow> (ctx \<times> saga_step list) option" where
  "loadContextAndDef L defs ok sagaId d =
     (if \<not> ok Acquire then None
      else case query ok 1 (\<lambda>d. find (\<lambda>r. sg_id r = sagaId) (sagas d)) d of
             Some (Some row) \<Rightarrow>
               (case defs (sg_type row) of None \<Rightarrow> None
                | Some steps \<Rightarrow>
                  Some (\<lparr>cx_saga_id = sagaId, cx_type = sg_type row,
                         cx_payload = (case lib_parse L (sg_payload row) of Some j \<Rightarrow> j | None \<Rightarrow> obj []),
                         cx_step = sg_step row, cx_error = []\<rparr>, steps))
           | _ \<Rightarrow> None)"

text \<open>The forward loop from step \<open>i\<close>: whether all steps committed, the context, the database.\<close>

fun forward_loop :: "jlib \<Rightarrow> (phase \<Rightarrow> outcome) \<Rightarrow> int \<Rightarrow> nat \<Rightarrow> saga_step list \<Rightarrow> ctx \<Rightarrow> db \<Rightarrow> bool \<times> ctx \<times> db" where
  "forward_loop L ok sid i [] cx d = (True, cx, d)"
| "forward_loop L ok sid i (st # rest) cx d =
     (let cx1 = cx\<lparr>cx_step := i\<rparr>; o1 = ok (Fwd i)
      in if \<not> o1 Acquire then (False, cx1\<lparr>cx_error := ''acquire conn failed''\<rparr>, d)
         else if \<not> o1 Begin then (False, cx1\<lparr>cx_error := ''begin tx failed''\<rparr>, d)
         else
           (case st_forward st o1 cx1 d of
              StepThrow e cx2 d1 \<Rightarrow> (False, cx2\<lparr>cx_error := ''exception: '' @ e\<rparr>, rollback d d1)
            | StepFail cx2 d1 \<Rightarrow> (False, cx2, rollback d d1)
            | StepOk cx2 d1 \<Rightarrow>
              (let (rows, d2) = exec o1 9
                     (upd_saga sid (\<lambda>r. r\<lparr>sg_step := i + 1, sg_payload := lib_dump L (cx_payload cx2)\<rparr>)) d1
               in if rows < 1 \<or> \<not> o1 Commit
                  then (False, cx2\<lparr>cx_error := ''saga_log update or commit failed''\<rparr>, rollback d d2)
                  else forward_loop L ok sid (i + 1) rest cx2 d2)))"

text \<open>
  Compensation of steps \<open>n - 1, ..., 0\<close>, best effort. Without a transaction (a failed begin)
  the statements of a step commit by themselves.
\<close>

fun comp_loop :: "(phase \<Rightarrow> outcome) \<Rightarrow> saga_step list \<Rightarrow> nat \<Rightarrow> ctx \<Rightarrow> db \<Rightarrow> ctx \<times> db" where
  "comp_loop ok steps 0 cx d = (cx, d)"
| "comp_loop ok steps (Suc i) cx d =
     (case st_compensate (steps ! i) of None \<Rightarrow> comp_loop ok steps i cx d
      | Some f \<Rightarrow>
        (let o1 = ok (Comp i)
         in if \<not> o1 Acquire then comp_loop ok steps i cx d
            else
              (let (good, cx1, d1) = (case f o1 cx d of StepOk c e \<Rightarrow> (True, c, e)
                      | StepFail c e \<Rightarrow> (False, c, e) | StepThrow x c e \<Rightarrow> (False, c, e));
                   d2 = (if \<not> o1 Begin then d1 else if good \<and> o1 Commit then d1 else rollback d d1)
               in comp_loop ok steps i cx1 d2)))"

definition saga_mark :: "outcome \<Rightarrow> int \<Rightarrow> (saga_row \<Rightarrow> saga_row) \<Rightarrow> db \<Rightarrow> db" where
  "saga_mark ok sid f d = (if \<not> ok Acquire then d else snd (exec ok 1 (upd_saga sid f) d))"

definition saga_execute :: "jlib \<Rightarrow> saga_defs \<Rightarrow> (phase \<Rightarrow> outcome) \<Rightarrow> int \<Rightarrow> db \<Rightarrow> bool \<times> db" where
  "saga_execute L defs ok sagaId d =
     (case loadContextAndDef L defs (ok Load) sagaId d of None \<Rightarrow> (False, d)
      | Some (cx, steps) \<Rightarrow>
        (case forward_loop L ok sagaId (cx_step cx) (drop (cx_step cx) steps) cx d of
           (True, cx1, d1) \<Rightarrow> (True, saga_mark (ok MarkDone) sagaId (\<lambda>r. r\<lparr>sg_state := SagaDone\<rparr>) d1)
         | (False, cx1, d1) \<Rightarrow>
           (let d2 = saga_mark (ok MarkCompensating) sagaId
                       (\<lambda>r. r\<lparr>sg_state := Compensating, sg_error := Some (cx_error cx1)\<rparr>) d1;
                (cx3, d3) = comp_loop ok steps (cx_step cx1) cx1 d2
            in (False, saga_mark (ok MarkFailed) sagaId
                  (\<lambda>r. r\<lparr>sg_state := SagaFailed, sg_error := Some (cx_error cx3)\<rparr>) d3))))"

text \<open>\<^verbatim>\<open>recoverIncomplete\<close>; rows are kept in creation order.\<close>

definition incomplete :: "db \<Rightarrow> int list" where
  "incomplete d = map sg_id (filter (\<lambda>r. sg_state r = Running \<or> sg_state r = Compensating) (sagas d))"

definition recoverIncomplete :: "jlib \<Rightarrow> saga_defs \<Rightarrow> outcome \<Rightarrow> (int \<Rightarrow> phase \<Rightarrow> outcome) \<Rightarrow> db \<Rightarrow> nat \<times> db" where
  "recoverIncomplete L defs ok oks d =
     (if \<not> ok Acquire then (0, d)
      else
        (let ids = (case query ok 1 incomplete d of Some xs \<Rightarrow> xs | None \<Rightarrow> [])
         in (length ids, foldl (\<lambda>d sid. snd (saga_execute L defs (oks sid) sid d)) d ids)))"

section \<open>The log does not touch the business tables\<close>

definition same_groups :: "db \<Rightarrow> db \<Rightarrow> bool" where
  "same_groups d d' \<longleftrightarrow> grps d' = grps d \<and> gmembers d' = gmembers d \<and> users d' = users d"

lemma same_groups_refl [simp]: "same_groups d d"
  by (simp add: same_groups_def)

lemma same_groups_trans: "same_groups a b \<Longrightarrow> same_groups b c \<Longrightarrow> same_groups a c"
  by (simp add: same_groups_def)

lemma same_groups_rollback [simp]: "same_groups d (rollback d d')"
  by (simp add: same_groups_def rollback_def)

lemma upd_saga_fields [simp]:
  "grps (snd (upd_saga sid f d)) = grps d" "gmembers (snd (upd_saga sid f d)) = gmembers d"
  "users (snd (upd_saga sid f d)) = users d" "seq (snd (upd_saga sid f d)) = seq d"
  by (simp_all add: upd_saga_def)

lemma saga_mark_fields [simp]:
  "grps (saga_mark ok sid f d) = grps d" "gmembers (saga_mark ok sid f d) = gmembers d"
  "users (saga_mark ok sid f d) = users d" "seq (saga_mark ok sid f d) = seq d"
  by (simp_all add: saga_mark_def exec_def)

lemma same_groups_mark [simp]: "same_groups d (saga_mark ok sid f d)"
  by (simp add: same_groups_def)

lemma db_ok_mark [simp]: "db_ok (saga_mark ok sid f d) = db_ok d"
  by (simp add: saga_mark_def exec_def upd_saga_def)

section \<open>The log row of one saga\<close>

definition saga_of :: "int \<Rightarrow> db \<Rightarrow> saga_row option" where
  "saga_of sid d = find (\<lambda>r. sg_id r = sid) (sagas d)"

lemma find_map_upd:
  assumes "\<And>r. sg_id (f r) = sg_id r"
  shows "find (\<lambda>r. sg_id r = sid) (map (\<lambda>r. if sg_id r = sid then f r else r) rs) =
    map_option f (find (\<lambda>r. sg_id r = sid) rs)"
  by (induction rs) (auto simp: assms)

lemma saga_of_upd:
  "(\<And>r. sg_id (f r) = sg_id r) \<Longrightarrow> saga_of sid (snd (upd_saga sid f d)) = map_option f (saga_of sid d)"
  by (simp add: saga_of_def upd_saga_def find_map_upd)

lemma upd_saga_rows:
  assumes "saga_of sid d = Some r" "f r \<noteq> r"
  shows "1 \<le> fst (upd_saga sid f d)"
proof -
  have "r \<in> set (sagas d)" "sg_id r = sid"
    using assms(1) by (auto simp: saga_of_def find_Some_iff)
  then have "r \<in> set (filter (\<lambda>r. sg_id r = sid \<and> f r \<noteq> r) (sagas d))" using assms(2) by simp
  then show ?thesis by (cases "filter (\<lambda>r. sg_id r = sid \<and> f r \<noteq> r) (sagas d)") (auto simp: upd_saga_def)
qed

lemma saga_of_fields [simp]:
  "saga_of sid (d\<lparr>grps := x1\<rparr>) = saga_of sid d" "saga_of sid (d\<lparr>gmembers := x2\<rparr>) = saga_of sid d"
  "saga_of sid (d\<lparr>seq := x3\<rparr>) = saga_of sid d"
  by (simp_all add: saga_of_def)

lemma find_append: "find P (xs @ ys) = (case find P xs of None \<Rightarrow> find P ys | Some x \<Rightarrow> Some x)"
  by (induction xs) auto

lemma saga_of_ins:
  assumes "saga_of sid d = None"
  shows "ins_saga sid ty p d = (1, d\<lparr>sagas := sagas d @ [\<lparr>sg_id = sid, sg_type = ty, sg_state = Running,
      sg_step = 0, sg_payload = p, sg_error = None\<rparr>]\<rparr>)"
    "saga_of sid (snd (ins_saga sid ty p d)) = Some \<lparr>sg_id = sid, sg_type = ty, sg_state = Running,
      sg_step = 0, sg_payload = p, sg_error = None\<rparr>"
proof -
  have none: "\<not> list_ex (\<lambda>r. sg_id r = sid) (sagas d)"
    using assms by (auto simp: saga_of_def find_None_iff list_ex_iff)
  then show "ins_saga sid ty p d = (1, d\<lparr>sagas := sagas d @ [\<lparr>sg_id = sid, sg_type = ty, sg_state = Running,
      sg_step = 0, sg_payload = p, sg_error = None\<rparr>]\<rparr>)" by (simp add: ins_saga_def)
  with assms show "saga_of sid (snd (ins_saga sid ty p d)) = Some \<lparr>sg_id = sid, sg_type = ty, sg_state = Running,
      sg_step = 0, sg_payload = p, sg_error = None\<rparr>"
    by (simp add: saga_of_def find_append)
qed

section \<open>Invariants of a saga\<close>

primrec result_db :: "step_result \<Rightarrow> db" where
  "result_db (StepOk cx d) = d" | "result_db (StepFail cx d) = d" | "result_db (StepThrow e cx d) = d"

primrec result_ctx :: "step_result \<Rightarrow> ctx" where
  "result_ctx (StepOk cx d) = cx" | "result_ctx (StepFail cx d) = cx" | "result_ctx (StepThrow e cx d) = cx"

text \<open>
  What the steps of a saga owe the coordinator for a property of the database to survive any
  execution: each of them, finished or rolled back, keeps it, and a forward step leaves the
  step counter of the context alone.
\<close>

locale saga_invariant =
  fixes I :: "db \<Rightarrow> bool"
    and steps :: "saga_step list"
  assumes upd: "I (snd (upd_saga sid f d)) = I d"
    and fwd: "st \<in> set steps \<Longrightarrow> I d \<Longrightarrow>
      I (result_db (st_forward st ok cx d)) \<and> I (rollback d (result_db (st_forward st ok cx d)))"
    and fwd_step: "st \<in> set steps \<Longrightarrow> cx_step (result_ctx (st_forward st ok cx d)) = cx_step cx"
    and cmp: "st \<in> set steps \<Longrightarrow> st_compensate st = Some g \<Longrightarrow> I d \<Longrightarrow>
      I (result_db (g ok cx d)) \<and> I (rollback d (result_db (g ok cx d)))"
begin

lemma rollback_upd: "rollback d (snd (upd_saga sid f d')) = rollback d d'"
  by (simp add: rollback_def upd_saga_def)

lemma exec_upd: "I (snd (exec ok n (upd_saga sid f) d)) = I d"
    "rollback d0 (snd (exec ok n (upd_saga sid f) d)) = rollback d0 d"
  by (simp_all add: exec_def upd rollback_upd)

lemma mark_inv: "I (saga_mark ok sid f d) = I d"
  by (simp add: saga_mark_def exec_upd)

lemma forward_inv:
  assumes "set sts \<subseteq> set steps" "I d"
  shows "I (snd (snd (forward_loop L ok sid i sts cx d)))
    \<and> (\<not> fst (forward_loop L ok sid i sts cx d) \<longrightarrow> cx_step (fst (snd (forward_loop L ok sid i sts cx d))) \<in> {i..<i + length sts})"
  using assms
proof (induction L ok sid i sts cx d rule: forward_loop.induct)
  case (1 L ok sid i cx d)
  then show ?case by simp
next
  case (2 L ok sid i st rest cx d)
  let ?cx = "cx\<lparr>cx_step := i\<rparr>"
  have st: "st \<in> set steps" and rest: "set rest \<subseteq> set steps" using "2.prems"(1) by simp_all
  note f = fwd [OF st "2.prems"(2), of "ok (Fwd i)" ?cx] and g = fwd_step [OF st, of "ok (Fwd i)" ?cx d]
  show ?case
  proof (cases "ok (Fwd i) Acquire \<and> ok (Fwd i) Begin")
    case False
    then show ?thesis using "2.prems"(2) by (auto simp: Let_def)
  next
    case True
    show ?thesis
    proof (cases "st_forward st (ok (Fwd i)) ?cx d")
      case (StepOk cx2 d1)
      let ?u = "upd_saga sid (\<lambda>r. r\<lparr>sg_step := i + 1, sg_payload := lib_dump L (cx_payload cx2)\<rparr>)"
      obtain rows d2 where e: "exec (ok (Fwd i)) 9 ?u d1 = (rows, d2)" by (cases "exec (ok (Fwd i)) 9 ?u d1")
      have d2: "I d2" "rollback d d2 = rollback d d1"
        using exec_upd(1) [of "ok (Fwd i)" 9 sid _ d1] exec_upd(2) [of d "ok (Fwd i)" 9 sid _ d1] f StepOk e by (metis snd_conv result_db.simps(1))+
      show ?thesis
      proof (cases "rows < 1 \<or> \<not> ok (Fwd i) Commit")
        case True
        with StepOk e d2 f g \<open>ok (Fwd i) Acquire \<and> ok (Fwd i) Begin\<close> show ?thesis by (auto simp: Let_def)
      next
        case False
        have "I (snd (snd (forward_loop L ok sid (i + 1) rest cx2 d2)))
          \<and> (\<not> fst (forward_loop L ok sid (i + 1) rest cx2 d2)
             \<longrightarrow> cx_step (fst (snd (forward_loop L ok sid (i + 1) rest cx2 d2))) \<in> {i + 1..<i + 1 + length rest})"
          using "2.IH" [OF refl refl _ _ StepOk e [symmetric] refl _ rest d2(1)] True False by simp
        with True False StepOk e show ?thesis by (auto simp: Let_def)
      qed
    qed (use True f g in \<open>auto simp: Let_def\<close>)
  qed
qed

lemma comp_inv: "n \<le> length steps \<Longrightarrow> I d \<Longrightarrow> I (snd (comp_loop ok steps n cx d))"
proof (induction n arbitrary: cx d)
  case (Suc i)
  then have st: "steps ! i \<in> set steps" by simp
  show ?case
  proof (cases "st_compensate (steps ! i)")
    case None
    with Suc show ?thesis by simp
  next
    case (Some g)
    note c = cmp [OF st Some Suc.prems(2), of "ok (Comp i)" cx]
    show ?thesis
      by (cases "g (ok (Comp i)) cx d") (use Suc c in \<open>simp_all add: Some Let_def\<close>)
  qed
qed simp

lemma execute_inv:
  assumes "\<And>ty sts. defs ty = Some sts \<Longrightarrow> sts = steps" "I d"
  shows "I (snd (saga_execute L defs ok sid d))"
proof (cases "loadContextAndDef L defs (ok Load) sid d")
  case None
  with assms(2) show ?thesis by (simp add: saga_execute_def)
next
  case (Some p)
  obtain cx sts where p: "p = (cx, sts)" by (cases p)
  with Some assms(1) have steps: "sts = steps"
    by (auto simp: loadContextAndDef_def split: if_splits option.splits)
  obtain b cx1 d1 where fl: "forward_loop L ok sid (cx_step cx) (drop (cx_step cx) steps) cx d = (b, cx1, d1)"
    by (metis prod_cases3)
  have f: "I d1" "\<not> b \<Longrightarrow> cx_step cx1 \<le> length steps"
    using forward_inv [OF set_drop_subset assms(2), of L ok sid "cx_step cx" "cx_step cx" cx] fl by auto
  show ?thesis
  proof (cases b)
    case True
    with Some p steps fl f show ?thesis by (simp add: saga_execute_def mark_inv)
  next
    case False
    with f(1) have "I (snd (comp_loop ok steps (cx_step cx1) cx1 d'))" if "I d'" for d'
      using that f(2) comp_inv by blast
    with Some p steps fl f(1) False show ?thesis
      by (simp add: saga_execute_def mark_inv case_prod_beta Let_def)
  qed
qed

end

end
