(* ===== verification/Friends.thy ===== *)
theory Friends
  imports Database
begin

text \<open>
  \<^verbatim>\<open>src/src/server/FriendService.h\<close>: friendship as two directed rows written in one
  transaction, and friend requests. The time stamp of a request row and its printed form
  come from the database and are arguments (\<open>now\<close>, \<open>fmt\<close>).
\<close>

definition friend_rows :: "uid \<Rightarrow> db \<Rightarrow> user_row list" where
  "friend_rows u d = concat (map (\<lambda>p. filter (\<lambda>r. u_id r = snd p) (users d))
     (filter (\<lambda>p. fst p = u) (friends d)))"

definition profile_json :: "user_row \<Rightarrow> json" where
  "profile_json r = obj [(''userId'', JInt (u_id r)), (''username'', JStr (u_username r)),
     (''nickname'', JStr (case u_nickname r of Some n \<Rightarrow> n | None \<Rightarrow> [])), (''avatar'', JStr (u_avatar r))]"

definition getFriends :: "outcome \<Rightarrow> uid \<Rightarrow> db \<Rightarrow> json" where
  "getFriends ok u d =
     (if \<not> ok Acquire then JArr []
      else case query ok 1 (friend_rows u) d of None \<Rightarrow> JArr []
           | Some rows \<Rightarrow> JArr (map profile_json rows))"

definition addFriend :: "uid \<times> uid \<Rightarrow> outcome \<Rightarrow> db \<Rightarrow> reply \<times> db" where
  "addFriend a ok d =
     (let (userId, friendId) = a
      in if userId = friendId then (Inl ''cannot add self'', d)
         else if \<not> ok Acquire then (Inl ''db error'', d)
         else if \<not> ok Begin then (Inl ''failed to start transaction'', d)
         else
           (let (r1, d1) = exec ok 1 (ins_friend userId friendId) d;
                (r2, d2) = exec ok 2 (ins_friend friendId userId) d1;
                (success, d') = tx ok (r1 \<ge> 0 \<and> r2 \<ge> 0, d2) d
            in if \<not> success then (Inl ''add failed'', d') else (Inr [], d')))"

definition deleteFriend :: "uid \<times> uid \<Rightarrow> outcome \<Rightarrow> db \<Rightarrow> reply \<times> db" where
  "deleteFriend a ok d =
     (let (userId, friendId) = a
      in if \<not> ok Acquire then (Inl ''db error'', d)
         else if \<not> ok Begin then (Inl ''failed to start transaction'', d)
         else
           (let (r1, d1) = exec ok 1 (del_friend userId friendId) d;
                (r2, d2) = exec ok 2 (del_friend friendId userId) d1;
                (success, d') = tx ok (r1 \<ge> 0 \<and> r2 \<ge> 0, d2) d
            in if \<not> success then (Inl ''delete failed'', d') else (Inr [], d')))"

definition sendRequest :: "ms \<times> uid \<times> uid \<Rightarrow> outcome \<Rightarrow> db \<Rightarrow> reply \<times> db" where
  "sendRequest a ok d =
     (let (now, fromUser, toUser) = a
      in if fromUser = toUser then (Inl ''cannot add self'', d)
         else if \<not> ok Acquire then (Inl ''db error'', d)
         else
           (case query ok 1 (\<lambda>d. (fromUser, toUser) \<in> set (friends d)) d of
              Some True \<Rightarrow> (Inl ''already friends'', d)
            | _ \<Rightarrow> (Inr [(''message'', JStr ''request sent'')],
                    snd (prepared ok 2 (ins_request now fromUser toUser) d))))"

definition pending_rows :: "uid \<Rightarrow> db \<Rightarrow> (request_row \<times> user_row) list" where
  "pending_rows u d =
     concat (map (\<lambda>r. map (\<lambda>x. (r, x)) (filter (\<lambda>x. u_id x = r_from r) (users d)))
       (sort_key (\<lambda>r. - r_created r) (filter (\<lambda>r. r_to r = u \<and> r_status r = 0) (requests d))))"

definition getRequests :: "(ms \<Rightarrow> string) \<Rightarrow> outcome \<Rightarrow> uid \<Rightarrow> db \<Rightarrow> json" where
  "getRequests fmt ok u d =
     (if \<not> ok Acquire then JArr []
      else case query ok 1 (pending_rows u) d of None \<Rightarrow> JArr []
           | Some rows \<Rightarrow> JArr (map (\<lambda>(r, x). obj [(''requestId'', JInt (r_id r)),
               (''fromUserId'', JInt (r_from r)), (''username'', JStr (u_username x)),
               (''nickname'', JStr (case u_nickname x of Some n \<Rightarrow> n | None \<Rightarrow> [])),
               (''avatar'', JStr (u_avatar x)), (''createdAt'', JStr (fmt (r_created r)))]) rows))"

definition handleRequest :: "uid \<times> int \<times> bool \<Rightarrow> outcome \<Rightarrow> db \<Rightarrow> reply \<times> db" where
  "handleRequest a ok d =
     (let (userId, requestId, accept) = a
      in if \<not> ok Acquire then (Inl ''db error'', d)
         else
           (case query ok 1 (\<lambda>d. filter (\<lambda>r. r_id r = requestId \<and> r_to r = userId \<and> r_status r = 0)
                   (requests d)) d of
              None \<Rightarrow> (Inl ''request not found'', d)
            | Some [] \<Rightarrow> (Inl ''request not found'', d)
            | Some (row # _) \<Rightarrow>
              if accept then
                (if \<not> ok Begin then (Inl ''failed to start transaction'', d)
                 else
                   (let (r1, d1) = exec ok 2 (set_request_status requestId 1) d;
                        (r2, d2) = exec ok 3 (ins_friend (r_from row) (r_to row)) d1;
                        (r3, d3) = exec ok 4 (ins_friend (r_to row) (r_from row)) d2;
                        (success, d') = tx ok (r1 \<ge> 0 \<and> r2 \<ge> 0 \<and> r3 \<ge> 0, d3) d
                    in if \<not> success then (Inl ''operation failed'', d')
                       else (Inr [(''accepted'', JBool True)], d')))
              else
                (let (r, d') = exec ok 5 (set_request_status requestId 2) d
                 in if r > 0 then (Inr [(''accepted'', JBool False)], d')
                    else (Inl ''operation failed'', d'))))"

section \<open>The friendship graph\<close>

definition social_ok :: "db \<Rightarrow> bool" where
  "social_ok d \<longleftrightarrow> db_ok d \<and> (\<forall>u v. (u, v) \<in> set (friends d) \<longrightarrow> u \<noteq> v \<and> (v, u) \<in> set (friends d)) \<and>
     (\<forall>r \<in> set (requests d). r_from r \<noteq> r_to r)"

text \<open>Both directions at once: what two successful statements do to the table.\<close>

lemma ins_both:
  assumes "friends_ok d" "\<forall>u v. (u, v) \<in> set (friends d) \<longrightarrow> (v, u) \<in> set (friends d)" "u \<noteq> v"
  shows "set (friends (snd (ins_friend v u (snd (ins_friend u v d))))) =
    set (friends d) \<union> (if has_user d u \<and> has_user d v then {(u, v), (v, u)} else {})"
  using assms by (auto simp: ins_friend_def)

lemma del_both:
  "set (friends (snd (del_friend v u (snd (del_friend u v d))))) = set (friends d) - {(u, v), (v, u)}"
  by (auto simp: del_friend_def)

lemma unchanged_social: "social_ok d \<Longrightarrow> unchanged d d' \<Longrightarrow> db_ok d' \<Longrightarrow> social_ok d'"
  by (simp add: social_ok_def unchanged_fields)

lemma social_from_pair:
  assumes "social_ok d" "db_ok d'" "requests d' = requests d"
    "set (friends d') = set (friends d) \<union> F \<or> set (friends d') = set (friends d) - F"
    "\<forall>u v. (u, v) \<in> F \<longrightarrow> u \<noteq> v \<and> (v, u) \<in> F"
  shows "social_ok d'"
proof -
  have sym: "u \<noteq> v \<and> (v, u) \<in> set (friends d)" if "(u, v) \<in> set (friends d)" for u v
    using assms(1) that by (simp add: social_ok_def)
  from assms(4) have "\<forall>u v. (u, v) \<in> set (friends d') \<longrightarrow> u \<noteq> v \<and> (v, u) \<in> set (friends d')"
  proof
    assume "set (friends d') = set (friends d) \<union> F"
    then show ?thesis using sym assms(5) by simp
  next
    assume "set (friends d') = set (friends d) - F"
    then show ?thesis using sym assms(5) by auto
  qed
  then show ?thesis using assms(1-3) by (simp add: social_ok_def)
qed

lemma requests_ins_del [simp]:
  "requests (snd (ins_friend u v d)) = requests d" "requests (snd (del_friend u v d)) = requests d"
  by (simp_all add: ins_friend_def del_friend_def)

lemma social_ins_both:
  assumes "social_ok d" "u \<noteq> v" "db_ok (snd (ins_friend v u (snd (ins_friend u v d))))"
  shows "social_ok (snd (ins_friend v u (snd (ins_friend u v d))))"
proof -
  have "friends_ok d" "\<forall>u v. (u, v) \<in> set (friends d) \<longrightarrow> (v, u) \<in> set (friends d)"
    using assms(1) by (auto simp: social_ok_def db_ok_def)
  from ins_both [OF this assms(2)] assms show ?thesis
    by (intro social_from_pair [OF assms(1), where F = "if has_user d u \<and> has_user d v then {(u, v), (v, u)} else {}"])
       (auto split: if_splits)
qed

lemma social_del_both:
  assumes "social_ok d" "db_ok (snd (del_friend v u (snd (del_friend u v d))))"
  shows "social_ok (snd (del_friend v u (snd (del_friend u v d))))"
proof (cases "u = v")
  case True
  with assms show ?thesis by (auto simp: social_ok_def del_friend_def)
next
  case False
  with assms show ?thesis
    by (intro social_from_pair [OF assms(1), where F = "{(u, v), (v, u)}"]) (auto simp: del_both)
qed

text \<open>Every operation, on every pattern of faults: the invariant, and nothing done on failure.\<close>

lemma addFriend_cases:
  assumes "social_ok d" "addFriend (u, v) ok d = (rep, d')"
  shows "social_ok d' \<and> (case rep of Inl m \<Rightarrow> unchanged d d'
    | Inr fs \<Rightarrow> fs = [] \<and> u \<noteq> v \<and> d' = snd (ins_friend v u (snd (ins_friend u v d))))"
proof (cases "u = v \<or> \<not> ok Acquire \<or> \<not> ok Begin")
  case True
  with assms show ?thesis by (auto simp: addFriend_def split: if_splits)
next
  case False
  obtain r1 d1 where 1: "exec ok 1 (ins_friend u v) d = (r1, d1)" by (metis prod.exhaust)
  obtain r2 d2 where 2: "exec ok 2 (ins_friend v u) d1 = (r2, d2)" by (metis prod.exhaust)
  obtain s e where t: "tx ok (r1 \<ge> 0 \<and> r2 \<ge> 0, d2) d = (s, e)" by (metis prod.exhaust)
  have ok: "db_ok d" using assms(1) by (simp add: social_ok_def)
  note p = pair_tx [OF 1 2 t safe_ins_friend safe_ins_friend ok]
  have r: "d' = e" "rep = (if s then Inr [] else Inl ''add failed'')"
    using assms(2) False 1 2 t by (auto simp: addFriend_def split: if_splits)
  show ?thesis
    using p r False assms(1) social_ins_both [OF assms(1)] unchanged_social [OF assms(1)]
    by (cases s) auto
qed

lemma deleteFriend_cases:
  assumes "social_ok d" "deleteFriend (u, v) ok d = (rep, d')"
  shows "social_ok d' \<and> (case rep of Inl m \<Rightarrow> unchanged d d'
    | Inr fs \<Rightarrow> d' = snd (del_friend v u (snd (del_friend u v d))))"
proof (cases "\<not> ok Acquire \<or> \<not> ok Begin")
  case True
  with assms show ?thesis by (auto simp: deleteFriend_def split: if_splits)
next
  case False
  obtain r1 d1 where 1: "exec ok 1 (del_friend u v) d = (r1, d1)" by (metis prod.exhaust)
  obtain r2 d2 where 2: "exec ok 2 (del_friend v u) d1 = (r2, d2)" by (metis prod.exhaust)
  obtain s e where t: "tx ok (r1 \<ge> 0 \<and> r2 \<ge> 0, d2) d = (s, e)" by (metis prod.exhaust)
  have ok: "db_ok d" using assms(1) by (simp add: social_ok_def)
  note p = pair_tx [OF 1 2 t safe_del_friend safe_del_friend ok]
  have r: "d' = e" "rep = (if s then Inr [] else Inl ''delete failed'')"
    using assms(2) False 1 2 t by (auto simp: deleteFriend_def split: if_splits)
  show ?thesis
    using p r False assms(1) social_del_both [OF assms(1)] unchanged_social [OF assms(1)]
    by (cases s) auto
qed

lemma friends_status [simp]: "friends (snd (set_request_status i s d)) = friends d"
  "has_user (snd (set_request_status i s d)) = has_user d"
  by (simp_all add: set_request_status_def)

lemma social_status:
  assumes "social_ok d"
  shows "social_ok (snd (set_request_status i s d))"
proof -
  have "db_ok (snd (set_request_status i s d))"
    using assms safe_set_request_status [of i s] by (simp add: safe_def social_ok_def)
  with assms show ?thesis by (auto simp: social_ok_def set_request_status_def)
qed

lemma social_ins_request:
  assumes "social_ok d" "f \<noteq> t"
  shows "social_ok (snd (ins_request now f t d))"
proof -
  have "db_ok (snd (ins_request now f t d))"
    using assms safe_ins_request [of now f t] by (simp add: safe_def social_ok_def)
  with assms show ?thesis by (auto simp: social_ok_def ins_request_def)
qed

lemma sendRequest_cases:
  assumes "social_ok d" "sendRequest (now, f, t) ok d = (rep, d')"
  shows "social_ok d' \<and> (case rep of Inl m \<Rightarrow> d' = d | Inr fs \<Rightarrow> d' = d \<or> d' = snd (ins_request now f t d))"
  using assms
  by (auto simp: sendRequest_def prepared_def query_def social_ins_request
      split: if_splits bool.splits)

lemma handleRequest_cases:
  assumes "social_ok d" "handleRequest (u, i, acc) ok d = (rep, d')"
  shows "social_ok d' \<and> (case rep of Inl m \<Rightarrow> unchanged d d'
    | Inr fs \<Rightarrow> \<exists>row \<in> set (requests d). r_id row = i \<and> r_to row = u \<and> r_status row = 0 \<and>
        d' = (if acc then snd (ins_friend u (r_from row) (snd (ins_friend (r_from row) u
                (snd (set_request_status i 1 d)))))
              else snd (set_request_status i 2 d)))"
proof (cases "\<not> ok Acquire \<or> \<not> ok (Query 1) \<or>
    filter (\<lambda>r. r_id r = i \<and> r_to r = u \<and> r_status r = 0) (requests d) = [] \<or> acc \<and> \<not> ok Begin")
  case True
  with assms show ?thesis
    by (auto simp: handleRequest_def query_def split: if_splits list.splits)
next
  case False
  then obtain row rest where row:
      "filter (\<lambda>r. r_id r = i \<and> r_to r = u \<and> r_status r = 0) (requests d) = row # rest"
    by (metis list.exhaust)
  then have mem: "row \<in> set (requests d)" "r_id row = i" "r_to row = u" "r_status row = 0"
    using filter_set [of "\<lambda>r. r_id r = i \<and> r_to r = u \<and> r_status r = 0" "requests d"] by auto
  have neq: "r_from row \<noteq> u" and ok: "db_ok d" using assms(1) mem by (auto simp: social_ok_def)
  show ?thesis
  proof (cases acc)
    case True
    obtain r1 d1 where 1: "exec ok 2 (set_request_status i 1) d = (r1, d1)" by (metis prod.exhaust)
    obtain r2 d2 where 2: "exec ok 3 (ins_friend (r_from row) u) d1 = (r2, d2)" by (metis prod.exhaust)
    obtain r3 d3 where 3: "exec ok 4 (ins_friend u (r_from row)) d2 = (r3, d3)" by (metis prod.exhaust)
    obtain s e where t: "tx ok (r1 \<ge> 0 \<and> r2 \<ge> 0 \<and> r3 \<ge> 0, d3) d = (s, e)" by (metis prod.exhaust)
    note p = triple_tx [OF 1 2 3 t safe_set_request_status safe_ins_friend safe_ins_friend ok]
    have r: "d' = e" "rep = (if s then Inr [(''accepted'', JBool True)] else Inl ''operation failed'')"
      using assms(2) False True row mem 1 2 3 t by (auto simp: handleRequest_def query_def split: if_splits)
    show ?thesis
      using p r True mem unchanged_social [OF assms(1)] social_ins_both [OF social_status [OF assms(1)] neq]
      by (cases s) auto
  next
    case F: False
    have "filter (\<lambda>r. r_id r = i \<and> r_status r \<noteq> 2) (requests d) \<noteq> []"
      using mem by (auto simp: filter_empty_conv)
    with F assms(2) False row show ?thesis
      using social_status [OF assms(1), of i 2] assms(1) mem
      by (auto simp: handleRequest_def query_def exec_def set_request_status_def split: if_splits)
  qed
qed

interpretation addFriend_op: atomic_op addFriend social_ok
  by (rule atomic_opI) (use addFriend_cases in \<open>fastforce split: sum.splits\<close>)

interpretation deleteFriend_op: atomic_op deleteFriend social_ok
  by (rule atomic_opI) (use deleteFriend_cases in \<open>fastforce split: sum.splits\<close>)

interpretation sendRequest_op: atomic_op sendRequest social_ok
  by (rule atomic_opI) (use sendRequest_cases in \<open>fastforce split: sum.splits\<close>)

interpretation handleRequest_op: atomic_op handleRequest social_ok
  by (rule atomic_opI) (use handleRequest_cases in \<open>fastforce split: sum.splits\<close>)

section \<open>Properties\<close>

definition two_users :: db where
  "two_users = empty_db\<lparr>users :=
     [\<lparr>u_id = 1, u_username = ''ann'', u_password = ''x'', u_nickname = None, u_avatar = []\<rparr>,
      \<lparr>u_id = 2, u_username = ''bob'', u_password = ''y'', u_nickname = None, u_avatar = []\<rparr>],
     seq := (seq empty_db)\<lparr>next_user := 3\<rparr>\<rparr>"

lemma social_two_users: "social_ok two_users"
  by (simp add: social_ok_def db_ok_defs two_users_def empty_db_def)

text \<open>addFriend under any pattern of failing calls: a refusal leaves the tables as they
  were and happens only for oneself or after a failed call; an acceptance adds exactly the
  two directed rows when both accounts exist, and nothing otherwise.\<close>

theorem addFriend_effect:
  assumes "social_ok d" "addFriend (u, v) ok d = (rep, d')"
  shows "case rep of
      Inl m \<Rightarrow> unchanged d d' \<and> (u = v \<or> \<not> (ok Acquire \<and> ok Begin \<and> ok (Exec 1) \<and> ok (Exec 2) \<and> ok Commit))
    | Inr fs \<Rightarrow> u \<noteq> v \<and> set (friends d') = set (friends d) \<union>
        (if has_user d u \<and> has_user d v then {(u, v), (v, u)} else {})"
proof (cases rep)
  case (Inl m)
  with addFriend_cases [OF assms] have "unchanged d d'" by simp
  moreover have "u = v \<or> \<not> (ok Acquire \<and> ok Begin \<and> ok (Exec 1) \<and> ok (Exec 2) \<and> ok Commit)"
    using assms(2) Inl by (auto simp: addFriend_def exec_def tx_def ins_friend_def split: if_splits)
  ultimately show ?thesis using Inl by simp
next
  case (Inr fs)
  with addFriend_cases [OF assms] have "u \<noteq> v" "d' = snd (ins_friend v u (snd (ins_friend u v d)))"
    by auto
  with ins_both [of d u v] assms(1) Inr show ?thesis by (simp add: social_ok_def db_ok_def)
qed

theorem addFriend_effect_witness:
  "set (friends (snd (addFriend (1, 2) (\<lambda>c. True) two_users))) = {(1, 2), (2, 1)} \<and>
   unchanged two_users (snd (addFriend (1, 2) (\<lambda>c. c \<noteq> Exec 2) two_users))"
proof
  have 1: "addFriend (1, 2) (\<lambda>c. True) two_users = (Inr [], snd (addFriend (1, 2) (\<lambda>c. True) two_users))"
    by (simp add: addFriend_def exec_def tx_def ins_friend_def two_users_def empty_db_def has_user_def)
  have 2: "addFriend (1, 2) (\<lambda>c. c \<noteq> Exec 2) two_users =
      (Inl ''add failed'', snd (addFriend (1, 2) (\<lambda>c. c \<noteq> Exec 2) two_users))"
    by (simp add: addFriend_def exec_def tx_def ins_friend_def two_users_def empty_db_def has_user_def)
  show "set (friends (snd (addFriend (1, 2) (\<lambda>c. True) two_users))) = {(1, 2), (2, 1)}"
    using addFriend_effect [OF social_two_users 1]
    by (simp add: has_user_def) (simp add: two_users_def empty_db_def)
  show "unchanged two_users (snd (addFriend (1, 2) (\<lambda>c. c \<noteq> Exec 2) two_users))"
    using addFriend_effect [OF social_two_users 2] by simp
qed

lemma status_after:
  assumes "db_ok d" "r \<in> set (requests d)" "r_id r = i"
  shows "r\<lparr>r_status := s\<rparr> \<in> set (requests (snd (set_request_status i s d)))"
  using assms by (force simp: set_request_status_def)

text \<open>Answering a request: success means that there was a pending request with that
  number addressed to the answering user; accepting marks it accepted and makes the two
  users friends in both directions, rejecting marks it rejected and leaves the friendship
  table alone. A failure changes nothing.\<close>

theorem handleRequest_effect:
  assumes "social_ok d" "handleRequest (u, i, acc) ok d = (rep, d')"
  shows "case rep of Inl m \<Rightarrow> unchanged d d'
    | Inr fs \<Rightarrow> \<exists>r \<in> set (requests d). r_id r = i \<and> r_to r = u \<and> r_status r = 0 \<and>
        r\<lparr>r_status := if acc then 1 else 2\<rparr> \<in> set (requests d') \<and>
        set (friends d') = set (friends d) \<union> (if acc then {(r_from r, u), (u, r_from r)} else {})"
proof (cases rep)
  case (Inl m)
  with handleRequest_cases [OF assms] show ?thesis by simp
next
  case (Inr fs)
  with handleRequest_cases [OF assms] obtain r where r: "r \<in> set (requests d)" "r_id r = i" "r_to r = u"
      "r_status r = 0" "d' = (if acc then snd (ins_friend u (r_from r) (snd (ins_friend (r_from r) u
        (snd (set_request_status i 1 d))))) else snd (set_request_status i 2 d))" by auto
  let ?e = "snd (set_request_status i 1 d)"
  have e: "social_ok ?e" by (rule social_status [OF assms(1)])
  have "has_user ?e (r_from r)" "has_user ?e u" "r_from r \<noteq> u"
    using assms(1) r(1,3) by (auto simp: social_ok_def db_ok_def requests_ok_def)
  with ins_both [of ?e "r_from r" u] e have
    "set (friends (snd (ins_friend u (r_from r) (snd (ins_friend (r_from r) u ?e))))) =
      set (friends d) \<union> {(r_from r, u), (u, r_from r)}"
    by (simp add: social_ok_def db_ok_def)
  with r Inr status_after [OF _ r(1,2)] assms(1) show ?thesis
    by (auto simp: social_ok_def intro!: bexI [of _ r])
qed

definition one_request :: db where
  "one_request = two_users\<lparr>requests := [\<lparr>r_id = 7, r_from = 1, r_to = 2, r_status = 0, r_created = 0\<rparr>],
     seq := (seq two_users)\<lparr>next_request := 8\<rparr>\<rparr>"

theorem handleRequest_effect_witness:
  "(2, 1) \<in> set (friends (snd (handleRequest (2, 7, True) (\<lambda>c. True) one_request)))"
proof -
  have ok: "social_ok one_request"
    by (simp add: social_ok_def db_ok_defs one_request_def two_users_def empty_db_def has_user_def)
  have "handleRequest (2, 7, True) (\<lambda>c. True) one_request =
      (Inr [(''accepted'', JBool True)], snd (handleRequest (2, 7, True) (\<lambda>c. True) one_request))"
    by (simp add: handleRequest_def query_def exec_def tx_def set_request_status_def ins_friend_def
        one_request_def two_users_def empty_db_def has_user_def)
  from handleRequest_effect [OF ok this] show ?thesis by (auto simp: one_request_def)
qed

text \<open>A request that was once answered cannot be renewed: while its row is there with
  any status, sending again reports "request sent" to the caller and stores nothing.\<close>

theorem resend_is_silent:
  assumes "f \<noteq> t" "(f, t) \<notin> set (friends d)" "r \<in> set (requests d)" "r_from r = f" "r_to r = t"
    "ok Acquire"
  shows "sendRequest (now, f, t) ok d = (Inr [(''message'', JStr ''request sent'')], d)"
proof -
  have "list_ex (\<lambda>r. r_from r = f \<and> r_to r = t) (requests d)"
    using assms(3-5) by (auto simp: list_ex_iff)
  with assms show ?thesis
    by (auto simp: sendRequest_def query_def prepared_def ins_request_def split: if_splits bool.splits)
qed

theorem resend_is_silent_witness:
  "sendRequest (9, 1, 2) (\<lambda>c. True)
     (one_request\<lparr>requests := [\<lparr>r_id = 7, r_from = 1, r_to = 2, r_status = 2, r_created = 0\<rparr>]\<rparr>) =
   (Inr [(''message'', JStr ''request sent'')],
     one_request\<lparr>requests := [\<lparr>r_id = 7, r_from = 1, r_to = 2, r_status = 2, r_created = 0\<rparr>]\<rparr>)"
  by (rule resend_is_silent [where r = "\<lparr>r_id = 7, r_from = 1, r_to = 2, r_status = 2, r_created = 0\<rparr>"])
    (simp_all add: one_request_def two_users_def empty_db_def)

end
