(* ===== verification/GroupChat.thy ===== *)
theory GroupChat
  imports Saga Friends
begin

text \<open>
  \<^verbatim>\<open>src/src/server/GroupService.h\<close>: groups and their members, and the creation of a group as a
  two-step saga with compensation.
\<close>

definition group_json :: "group_row \<Rightarrow> json" where
  "group_json r = obj [(''groupId'', JInt (g_id r)), (''name'', JStr (g_name r)), (''ownerId'', JInt (g_owner r)),
     (''announcement'', JStr (case g_announcement r of Some a \<Rightarrow> a | None \<Rightarrow> []))]"

definition user_group_rows :: "uid \<Rightarrow> db \<Rightarrow> group_row list" where
  "user_group_rows u d = concat (map (\<lambda>p. filter (\<lambda>r. g_id r = fst p) (grps d))
     (filter (\<lambda>p. snd p = u) (gmembers d)))"

definition getUserGroups :: "outcome \<Rightarrow> uid \<Rightarrow> db \<Rightarrow> json" where
  "getUserGroups ok u d =
     (if \<not> ok Acquire then JArr []
      else case query ok 1 (user_group_rows u) d of None \<Rightarrow> JArr []
           | Some rows \<Rightarrow> JArr (map group_json rows))"

definition createGroupLegacy :: "uid \<times> string \<Rightarrow> outcome \<Rightarrow> db \<Rightarrow> reply \<times> db" where
  "createGroupLegacy a ok d =
     (let (ownerId, name) = a
      in if \<not> ok Acquire then (Inl ''db error'', d)
         else if \<not> ok (Prepare 1) then (Inl ''prepare failed'', d)
         else
           (let (r, d1) = exec ok 1 (ins_group name ownerId) d
            in if r < 0 then (Inl ''create failed'', d1)
               else
                 (let groupId = next_group (seq d);
                      (r2, d2) = exec ok 2 (ins_member groupId ownerId) d1
                  in (Inr [(''groupId'', JInt groupId)], d2))))"

section \<open>The group-creation saga\<close>

text \<open>\<open>lastError\<close> is the connection's error text.\<close>

definition step1_forward :: "string \<Rightarrow> step_fn" where
  "step1_forward lastError ok cx d =
     (case (value_str (cx_payload cx) ''name'' [], value_int (cx_payload cx) ''owner_id'' 0) of
        (Some name, Some owner) \<Rightarrow>
          if name = [] \<or> owner = 0
          then StepFail (cx\<lparr>cx_error := ''missing name or owner_id''\<rparr>) d
          else
            (let (r, d1) = exec ok 1 (ins_group name owner) d
             in if r \<noteq> 1 then StepFail (cx\<lparr>cx_error := ''INSERT groups failed: '' @ lastError\<rparr>) d1
                else StepOk (cx\<lparr>cx_payload := jset (cx_payload cx) ''group_id'' (JInt (next_group (seq d)))\<rparr>) d1)
      | _ \<Rightarrow> StepThrow ''type_error'' cx d)"

definition step1_compensate :: step_fn where
  "step1_compensate ok cx d =
     (case value_int (cx_payload cx) ''group_id'' 0 of
        None \<Rightarrow> StepThrow ''type_error'' cx d
      | Some gid \<Rightarrow>
        if gid = 0 then StepOk cx d
        else
          (let (r, d1) = exec ok 1 (del_group gid) d
           in if r \<ge> 0 then StepOk cx d1 else StepFail cx d1))"

definition step2_forward :: "string \<Rightarrow> step_fn" where
  "step2_forward lastError ok cx d =
     (case (value_int (cx_payload cx) ''group_id'' 0, value_int (cx_payload cx) ''owner_id'' 0) of
        (Some gid, Some owner) \<Rightarrow>
          if gid = 0 \<or> owner = 0
          then StepFail (cx\<lparr>cx_error := ''missing group_id or owner_id at step2''\<rparr>) d
          else
            (let (r, d1) = exec ok 1 (ins_member gid owner) d
             in if r \<noteq> 1 then StepFail (cx\<lparr>cx_error := ''INSERT group_members failed: '' @ lastError\<rparr>) d1
                else StepOk cx d1)
      | _ \<Rightarrow> StepThrow ''type_error'' cx d)"

definition step2_compensate :: step_fn where
  "step2_compensate ok cx d =
     (case (value_int (cx_payload cx) ''group_id'' 0, value_int (cx_payload cx) ''owner_id'' 0) of
        (Some gid, Some owner) \<Rightarrow>
          if gid = 0 \<or> owner = 0 then StepOk cx d
          else
            (let (r, d1) = exec ok 1 (del_member gid owner) d
             in if r \<ge> 0 then StepOk cx d1 else StepFail cx d1)
      | _ \<Rightarrow> StepThrow ''type_error'' cx d)"

definition create_steps :: "string \<Rightarrow> saga_step list" where
  "create_steps lastError =
     [\<lparr>st_name = ''insert_groups_row'', st_forward = step1_forward lastError, st_compensate = Some step1_compensate\<rparr>,
      \<lparr>st_name = ''insert_owner_membership'', st_forward = step2_forward lastError, st_compensate = Some step2_compensate\<rparr>]"

definition registerCreateGroupSaga :: "string \<Rightarrow> saga_defs \<Rightarrow> saga_defs" where
  "registerCreateGroupSaga lastError defs = registerSaga ''group_create'' (create_steps lastError) defs"

definition readGroupIdFromSaga :: "jlib \<Rightarrow> outcome \<Rightarrow> int \<Rightarrow> db \<Rightarrow> int" where
  "readGroupIdFromSaga L ok sagaId d =
     (if \<not> ok Acquire then 0
      else case query ok 1 (\<lambda>d. find (\<lambda>r. sg_id r = sagaId) (sagas d)) d of
             Some (Some row) \<Rightarrow>
               (case lib_parse L (sg_payload row) of None \<Rightarrow> 0
                | Some p \<Rightarrow> (case value_int p ''group_id'' 0 of Some g \<Rightarrow> g | None \<Rightarrow> 0))
           | _ \<Rightarrow> 0)"

text \<open>\<open>oS\<close>, \<open>oX\<close>, \<open>oR\<close>: the outcomes of the start, of the execution and of the final read.\<close>

definition createGroupViaSaga :: "jlib \<Rightarrow> saga_defs \<Rightarrow> outcome \<Rightarrow> (phase \<Rightarrow> outcome) \<Rightarrow> outcome \<Rightarrow> int
    \<Rightarrow> uid \<Rightarrow> string \<Rightarrow> db \<Rightarrow> reply \<times> db" where
  "createGroupViaSaga L defs oS oX oR newId ownerId name d =
     (let payload = obj [(''owner_id'', JInt ownerId), (''name'', JStr name), (''group_id'', JInt 0)];
          (sagaId, d1) = saga_start L defs oS newId ''group_create'' payload d
      in if sagaId = 0 then (Inl ''saga start failed'', d1)
         else
           (case saga_execute L defs oX sagaId d1 of
              (False, d2) \<Rightarrow> (Inl ''saga failed (compensated)'', d2)
            | (True, d2) \<Rightarrow>
              (let groupId = readGroupIdFromSaga L oR sagaId d2
               in if groupId = 0 then (Inl ''saga done but group_id missing'', d2)
                  else (Inr [(''groupId'', JInt groupId), (''sagaId'', JInt sagaId)], d2))))"

section \<open>Membership operations\<close>

definition joinGroup :: "uid \<times> int \<Rightarrow> outcome \<Rightarrow> db \<Rightarrow> reply \<times> db" where
  "joinGroup a ok d =
     (let (userId, groupId) = a
      in if \<not> ok Acquire then (Inl ''db error'', d)
         else (Inr [], snd (exec ok 1 (ins_member_ignore groupId userId) d)))"

definition member_rows :: "int \<Rightarrow> db \<Rightarrow> user_row list" where
  "member_rows g d = concat (map (\<lambda>p. filter (\<lambda>r. u_id r = snd p) (users d))
     (filter (\<lambda>p. fst p = g) (gmembers d)))"

definition getMembers :: "outcome \<Rightarrow> int \<Rightarrow> db \<Rightarrow> json" where
  "getMembers ok g d =
     (if \<not> ok Acquire then JArr []
      else case query ok 1 (member_rows g) d of None \<Rightarrow> JArr []
           | Some rows \<Rightarrow> JArr (map (\<lambda>r. obj [(''userId'', JInt (u_id r)), (''username'', JStr (u_username r)),
               (''nickname'', JStr (case u_nickname r of Some n \<Rightarrow> n | None \<Rightarrow> []))]) rows))"

definition getMemberIds :: "outcome \<Rightarrow> int \<Rightarrow> db \<Rightarrow> uid list" where
  "getMemberIds ok g d =
     (if \<not> ok Acquire then []
      else case query ok 1 (\<lambda>d. map snd (filter (\<lambda>p. fst p = g) (gmembers d))) d of
             None \<Rightarrow> [] | Some ids \<Rightarrow> ids)"

definition owner_of :: "int \<Rightarrow> db \<Rightarrow> uid option" where
  "owner_of g d = map_option g_owner (find (\<lambda>r. g_id r = g) (grps d))"

definition leaveGroup :: "uid \<times> int \<Rightarrow> outcome \<Rightarrow> db \<Rightarrow> reply \<times> db" where
  "leaveGroup a ok d =
     (let (userId, groupId) = a
      in if \<not> ok Acquire then (Inl ''db error'', d)
         else if query ok 1 (owner_of groupId) d = Some (Some userId)
              then (Inl ''owner cannot leave, use delete instead'', d)
              else (Inr [], snd (exec ok 2 (del_member groupId userId) d)))"

text \<open>The owner check shared by the three owner-only operations: \<open>None\<close> when it passes.\<close>

definition owner_check :: "outcome \<Rightarrow> uid \<Rightarrow> int \<Rightarrow> string \<Rightarrow> db \<Rightarrow> string option" where
  "owner_check ok u g msg d =
     (case query ok 1 (owner_of g) d of
        None \<Rightarrow> Some ''group not found''
      | Some None \<Rightarrow> Some ''group not found''
      | Some (Some own) \<Rightarrow> if own \<noteq> u then Some msg else None)"

definition deleteGroup :: "uid \<times> int \<Rightarrow> outcome \<Rightarrow> db \<Rightarrow> reply \<times> db" where
  "deleteGroup a ok d =
     (let (userId, groupId) = a
      in if \<not> ok Acquire then (Inl ''db error'', d)
         else
           (case owner_check ok userId groupId ''only owner can delete group'' d of
              Some m \<Rightarrow> (Inl m, d)
            | None \<Rightarrow>
              if \<not> ok Begin then (Inl ''failed to start transaction'', d)
              else
                (let (r1, d1) = exec ok 2 (del_members groupId) d;
                     (r2, d2) = exec ok 3 (del_group groupId) d1;
                     (success, d') = tx ok (r1 \<ge> 0 \<and> r2 \<ge> 0, d2) d
                 in if \<not> success then (Inl ''delete failed'', d') else (Inr [], d'))))"

definition setAnnouncement :: "uid \<times> int \<times> string \<Rightarrow> outcome \<Rightarrow> db \<Rightarrow> reply \<times> db" where
  "setAnnouncement a ok d =
     (let (userId, groupId, announcement) = a
      in if \<not> ok Acquire then (Inl ''db error'', d)
         else
           (case owner_check ok userId groupId ''only owner can set announcement'' d of
              Some m \<Rightarrow> (Inl m, d)
            | None \<Rightarrow> (Inr [], snd (prepared ok 2 (set_announcement_row groupId announcement) d))))"

definition getAnnouncement :: "outcome \<Rightarrow> int \<Rightarrow> db \<Rightarrow> string" where
  "getAnnouncement ok g d =
     (if \<not> ok Acquire then []
      else case query ok 1 (\<lambda>d. find (\<lambda>r. g_id r = g) (grps d)) d of
             Some (Some r) \<Rightarrow> (case g_announcement r of Some a \<Rightarrow> a | None \<Rightarrow> [])
           | _ \<Rightarrow> [])"

definition kickMember :: "uid \<times> int \<times> uid \<Rightarrow> outcome \<Rightarrow> db \<Rightarrow> reply \<times> db" where
  "kickMember a ok d =
     (let (operatorId, groupId, targetUserId) = a
      in if operatorId = targetUserId then (Inl ''cannot kick yourself'', d)
         else if \<not> ok Acquire then (Inl ''db error'', d)
         else
           (case owner_check ok operatorId groupId ''only owner can kick members'' d of
              Some m \<Rightarrow> (Inl m, d)
            | None \<Rightarrow> (Inr [], snd (exec ok 2 (del_member groupId targetUserId) d))))"

definition createGroup :: "jlib \<Rightarrow> saga_defs option \<Rightarrow> outcome \<Rightarrow> (phase \<Rightarrow> outcome) \<Rightarrow> outcome \<Rightarrow> int
    \<Rightarrow> uid \<Rightarrow> string \<Rightarrow> db \<Rightarrow> reply \<times> db" where
  "createGroup L coord oS oX oR newId ownerId name d =
     (if name = [] then (Inl ''name required'', d)
      else case coord of Some defs \<Rightarrow> createGroupViaSaga L defs oS oX oR newId ownerId name d
           | None \<Rightarrow> createGroupLegacy (ownerId, name) oS d)"

section \<open>Membership operations are atomic\<close>

lemma social_groups:
  "social_ok d \<Longrightarrow> db_ok d' \<Longrightarrow> friends d' = friends d \<Longrightarrow> requests d' = requests d \<Longrightarrow> social_ok d'"
  by (simp add: social_ok_def)

lemma safeD: "safe st \<Longrightarrow> db_ok d \<Longrightarrow> db_ok (snd (st d))"
  by (simp add: safe_def)

lemma group_stmt_fields [simp]:
  "friends (snd (ins_group n w d)) = friends d" "requests (snd (ins_group n w d)) = requests d"
  "friends (snd (del_group g d)) = friends d" "requests (snd (del_group g d)) = requests d"
  "friends (snd (ins_member g u d)) = friends d" "requests (snd (ins_member g u d)) = requests d"
  "friends (snd (ins_member_ignore g u d)) = friends d" "requests (snd (ins_member_ignore g u d)) = requests d"
  "friends (snd (del_member g u d)) = friends d" "requests (snd (del_member g u d)) = requests d"
  "friends (snd (del_members g d)) = friends d" "requests (snd (del_members g d)) = requests d"
  "friends (snd (set_announcement_row g a d)) = friends d"
  "requests (snd (set_announcement_row g a d)) = requests d"
  by (simp_all add: ins_group_def del_group_def ins_member_def ins_member_ignore_def del_member_def
      del_members_def set_announcement_row_def)

definition group_stmts :: "stmt \<Rightarrow> bool" where
  "group_stmts st \<longleftrightarrow> safe st \<and> (\<forall>d. friends (snd (st d)) = friends d \<and> requests (snd (st d)) = requests d)"

lemma group_stmts_intro [simp]:
  "group_stmts (ins_group n w)" "group_stmts (del_group g)" "group_stmts (ins_member g u)"
  "group_stmts (ins_member_ignore g u)" "group_stmts (del_member g u)" "group_stmts (del_members g)"
  "group_stmts (set_announcement_row g a)"
  by (simp_all add: group_stmts_def)

lemma social_stmt: "group_stmts st \<Longrightarrow> social_ok d \<Longrightarrow> social_ok (snd (st d))"
  using social_groups safeD by (simp add: group_stmts_def social_ok_def)

lemma social_exec: "group_stmts st \<Longrightarrow> social_ok d \<Longrightarrow> social_ok (snd (exec ok n st d))"
  by (simp add: exec_def social_stmt)

lemma social_prepared: "group_stmts st \<Longrightarrow> social_ok d \<Longrightarrow> social_ok (snd (prepared ok n st d))"
  by (simp add: prepared_def social_stmt)

lemma createGroupLegacy_cases:
  assumes "social_ok d" "createGroupLegacy (w, n) ok d = (rep, d')"
  shows "social_ok d' \<and> (case rep of Inl m \<Rightarrow> unchanged d d' | Inr fs \<Rightarrow> True)"
proof -
  have d1: "social_ok (snd (exec ok 1 (ins_group n w) d))" using assms(1) by (simp add: social_exec)
  show ?thesis
    using assms d1 social_exec [OF group_stmts_intro(3) d1, of ok 2 "next_group (seq d)" w]
    by (auto simp: createGroupLegacy_def Let_def exec_def ins_group_def split: if_splits prod.splits)
qed

lemma deleteGroup_cases:
  assumes "social_ok d" "deleteGroup (u, g) ok d = (rep, d')"
  shows "social_ok d' \<and> (case rep of Inl m \<Rightarrow> unchanged d d'
    | Inr fs \<Rightarrow> owner_of g d = Some u \<and> d' = snd (del_group g (snd (del_members g d))))"
proof (cases "\<not> ok Acquire \<or> owner_check ok u g ''only owner can delete group'' d \<noteq> None \<or> \<not> ok Begin")
  case True
  with assms show ?thesis by (auto simp: deleteGroup_def split: if_splits option.splits)
next
  case False
  obtain r1 d1 where 1: "exec ok 2 (del_members g) d = (r1, d1)" by (metis prod.exhaust)
  obtain r2 d2 where 2: "exec ok 3 (del_group g) d1 = (r2, d2)" by (metis prod.exhaust)
  obtain s e where t: "tx ok (r1 \<ge> 0 \<and> r2 \<ge> 0, d2) d = (s, e)" by (metis prod.exhaust)
  have ok: "db_ok d" using assms(1) by (simp add: social_ok_def)
  note p = pair_tx [OF 1 2 t safe_del_member(2) safe_del_group ok]
  have own: "owner_of g d = Some u"
    using False by (auto simp: owner_check_def query_def split: option.splits if_splits)
  have r: "d' = e" "rep = (if s then Inr [] else Inl ''delete failed'')"
    using assms(2) False 1 2 t by (auto simp: deleteGroup_def split: if_splits)
  have "social_ok (snd (del_group g (snd (del_members g d))))"
    using assms(1) by (simp add: social_stmt)
  then show ?thesis using p r own unchanged_social [OF assms(1)] by (cases s) auto
qed

interpretation createGroupLegacy_op: atomic_op createGroupLegacy social_ok
  by (rule atomic_opI) (use createGroupLegacy_cases in \<open>fastforce split: sum.splits\<close>)

interpretation deleteGroup_op: atomic_op deleteGroup social_ok
  by (rule atomic_opI) (use deleteGroup_cases in \<open>fastforce split: sum.splits\<close>)

interpretation joinGroup_op: atomic_op joinGroup social_ok
  by (rule atomic_opI) (auto simp: joinGroup_def social_exec split: if_splits)

interpretation leaveGroup_op: atomic_op leaveGroup social_ok
  by (rule atomic_opI) (auto simp: leaveGroup_def social_exec split: if_splits)

interpretation setAnnouncement_op: atomic_op setAnnouncement social_ok
  by (rule atomic_opI) (auto simp: setAnnouncement_def social_prepared split: if_splits option.splits)

interpretation kickMember_op: atomic_op kickMember social_ok
  by (rule atomic_opI) (auto simp: kickMember_def social_exec split: if_splits option.splits)

text \<open>The steps of the saga keep the integrity of the tables, done or rolled back.\<close>

lemma social_exec_rollback:
  assumes "group_stmts st" "social_ok d"
  shows "social_ok (rollback d (snd (exec ok n st d)))"
proof -
  have "seq_le d (snd (exec ok n st d))"
    using assms by (simp add: exec_def group_stmts_def safe_def social_ok_def)
  moreover have "db_ok d" using assms(2) by (simp add: social_ok_def)
  ultimately show ?thesis
    by (intro unchanged_social [OF assms(2) unchanged_rollback] db_ok_rollback)
qed

lemma rollback_self [simp]: "rollback d d = d"
  by (simp add: rollback_def)

lemmas social_both = social_exec social_exec_rollback

interpretation cg: saga_invariant social_ok "create_steps lastError" for lastError
proof unfold_locales
  show "social_ok (snd (upd_saga sid f d)) = social_ok d" for sid f d
    by (simp add: upd_saga_def social_ok_def)
next
  fix st d ok cx
  assume "st \<in> set (create_steps lastError)" "social_ok d"
  then show "social_ok (result_db (st_forward st ok cx d)) \<and> social_ok (rollback d (result_db (st_forward st ok cx d)))"
    using social_both [of "ins_group _ _" d ok 1] social_both [of "ins_member _ _" d ok 1]
    by (auto simp: create_steps_def step1_forward_def step2_forward_def case_prod_beta Let_def split: option.split)
next
  fix st d ok cx
  assume "st \<in> set (create_steps lastError)"
  then show "cx_step (result_ctx (st_forward st ok cx d)) = cx_step cx"
    by (auto simp: create_steps_def step1_forward_def step2_forward_def case_prod_beta Let_def split: option.split)
next
  fix st g d ok cx
  assume "st \<in> set (create_steps lastError)" "st_compensate st = Some g" "social_ok d"
  then show "social_ok (result_db (g ok cx d)) \<and> social_ok (rollback d (result_db (g ok cx d)))"
    using social_both [of "del_group _" d ok 1] social_both [of "del_member _ _" d ok 1]
    by (auto simp: create_steps_def step1_compensate_def step2_compensate_def case_prod_beta Let_def split: option.split)
qed

text \<open>What the steps, the direct way and the row of a new saga keep, creating a group keeps.\<close>

lemma createGroup_inv:
  assumes loc: "saga_invariant I (create_steps le)" and legacy: "\<And>a ok d. I d \<Longrightarrow> I (snd (createGroupLegacy a ok d))"
    and ins: "\<And>i ty p d. I d \<Longrightarrow> I (snd (ins_saga i ty p d))"
    and coord: "coord = None \<or> coord = Some (registerCreateGroupSaga le Map.empty)" and "I d"
  shows "I (snd (createGroup L coord oS oX oR newId w n d))"
proof (cases coord)
  case None
  with \<open>I d\<close> show ?thesis by (auto simp: createGroup_def legacy)
next
  case (Some defs)
  have defs: "\<And>ty sts. defs ty = Some sts \<Longrightarrow> sts = create_steps le"
    using coord Some by (auto simp: registerCreateGroupSaga_def registerSaga_def split: if_splits)
  have start: "I (snd (saga_start L defs oS newId ty p d))" for ty p
    using \<open>I d\<close> ins by (auto simp: saga_start_def exec_def case_prod_beta Let_def split: option.split)
  have run: "I (snd (saga_execute L defs oX sid (snd (saga_start L defs oS newId ty p d))))" for sid ty p
    by (rule saga_invariant.execute_inv [OF loc defs start])
  have "(\<exists>ty p. snd (createGroupViaSaga L defs oS oX oR newId w n d) = snd (saga_start L defs oS newId ty p d)) \<or>
      (\<exists>sid ty p. snd (createGroupViaSaga L defs oS oX oR newId w n d) =
         snd (saga_execute L defs oX sid (snd (saga_start L defs oS newId ty p d))))"
    unfolding createGroupViaSaga_def Let_def case_prod_beta by (simp split: bool.split) blast
  then have "I (snd (createGroupViaSaga L defs oS oX oR newId w n d))"
    by (elim disjE exE) (simp_all only: start run)
  with Some \<open>I d\<close> show ?thesis by (simp add: createGroup_def)
qed

lemma createGroup_social:
  "coord = None \<or> coord = Some (registerCreateGroupSaga le Map.empty) \<Longrightarrow> social_ok d \<Longrightarrow>
    social_ok (snd (createGroup L coord oS oX oR newId w n d))"
  by (rule createGroup_inv [OF cg.saga_invariant_axioms createGroupLegacy_op.op_inv])
     (simp_all add: ins_saga_def social_ok_def)

section \<open>The saga, step by step\<close>

definition pay0 :: "uid \<Rightarrow> string \<Rightarrow> json" where
  "pay0 w n = obj [(''owner_id'', JInt w), (''name'', JStr n), (''group_id'', JInt 0)]"

definition pay1 :: "uid \<Rightarrow> string \<Rightarrow> int \<Rightarrow> json" where
  "pay1 w n g = jset (pay0 w n) ''group_id'' (JInt g)"

lemma pay_values [simp]:
  "value_str (pay0 w n) ''name'' [] = Some n" "value_int (pay0 w n) ''owner_id'' 0 = Some w"
  "value_int (pay1 w n g) ''group_id'' 0 = Some g" "value_int (pay1 w n g) ''owner_id'' 0 = Some w"
  by (simp_all add: pay0_def pay1_def jset_obj)

definition add_group :: "uid \<Rightarrow> string \<Rightarrow> db \<Rightarrow> db" where
  "add_group w n d = d\<lparr>grps := grps d @ [\<lparr>g_id = next_group (seq d), g_name = n, g_owner = w,
     g_announcement = None\<rparr>], seq := (seq d)\<lparr>next_group := next_group (seq d) + 1\<rparr>\<rparr>"

lemma step1_eval:
  assumes "cx_payload cx = pay0 w n" "n \<noteq> []" "w \<noteq> 0"
  shows "step1_forward le ok cx d = (if ok (Exec 1) \<and> has_user d w
    then StepOk (cx\<lparr>cx_payload := pay1 w n (next_group (seq d))\<rparr>) (add_group w n d)
    else StepFail (cx\<lparr>cx_error := ''INSERT groups failed: '' @ le\<rparr>) d)"
  using assms by (simp add: step1_forward_def exec_def ins_group_def add_group_def pay1_def)

lemma step2_eval:
  assumes "cx_payload cx = pay1 w n g" "g \<noteq> 0" "w \<noteq> 0"
  shows "step2_forward le ok cx d =
    (if ok (Exec 1) \<and> (g, w) \<notin> set (gmembers d) \<and> has_group d g \<and> has_user d w
     then StepOk cx (d\<lparr>gmembers := gmembers d @ [(g, w)]\<rparr>)
     else StepFail (cx\<lparr>cx_error := ''INSERT group_members failed: '' @ le\<rparr>) d)"
  using assms by (auto simp: step2_forward_def exec_def ins_member_def)

lemma comp1_eval:
  assumes "cx_payload cx = pay1 w n g" "g \<noteq> 0"
  shows "step1_compensate ok cx d = (if ok (Exec 1) then StepOk cx (snd (del_group g d)) else StepFail cx d)"
  using assms by (simp add: step1_compensate_def exec_def del_group_def)

text \<open>Deleting the group a transaction has just added restores the group tables.\<close>

lemma del_added:
  assumes "groups_ok d" "grps d' = grps (add_group w n d)" "gmembers d' = gmembers d" "users d' = users d"
  shows "same_groups d (snd (del_group (next_group (seq d)) d'))"
proof -
  have "filter (\<lambda>r. g_id r \<noteq> next_group (seq d)) (grps d) = grps d"
    using assms(1) by (auto simp: groups_ok_def filter_id_conv)
  moreover have "fst p \<noteq> next_group (seq d)" if "p \<in> set (gmembers d)" for p
    using assms(1) that by (fastforce simp: groups_ok_def has_group_def list_ex_iff)
  then have "filter (\<lambda>p. fst p \<noteq> next_group (seq d)) (gmembers d) = gmembers d"
    by (auto simp: filter_id_conv)
  ultimately show ?thesis using assms by (simp add: same_groups_def del_group_def add_group_def)
qed

abbreviation adv :: "jlib \<Rightarrow> nat \<Rightarrow> json \<Rightarrow> saga_row \<Rightarrow> saga_row" where
  "adv L i p r \<equiv> r\<lparr>sg_step := i, sg_payload := lib_dump L p\<rparr>"

text \<open>The second forward step, from a context that carries the new group.\<close>

lemma forward_second:
  assumes cx: "cx_payload cx = pay1 w n g" "g \<noteq> 0" "w \<noteq> 0" and row: "saga_of sid d = Some r" "sg_step r = 1"
  shows "(\<exists>cx' d'. forward_loop L ok sid 1 (tl (create_steps le)) cx d = (False, cx', d') \<and>
      cx_payload cx' = pay1 w n g \<and> cx_step cx' = 1 \<and> same_groups d d') \<or>
    (\<exists>cx'. forward_loop L ok sid 1 (tl (create_steps le)) cx d = (True, cx',
       snd (upd_saga sid (adv L 2 (pay1 w n g)) (d\<lparr>gmembers := gmembers d @ [(g, w)]\<rparr>))))"
proof -
  have rows: "1 \<le> fst (upd_saga sid (adv L 2 (pay1 w n g)) (d\<lparr>gmembers := gmembers d @ [(g, w)]\<rparr>))"
    by (rule upd_saga_rows [where r = r]) (use row in \<open>auto simp: saga_row.splits dest: arg_cong [of _ _ sg_step]\<close>)
  show ?thesis
    using cx rows
    by (auto simp: create_steps_def step2_eval Let_def exec_def eval_nat_numeral
        split: prod.splits if_splits)
qed

lemma forward_first:
  assumes cx: "cx_payload cx = pay0 w n" "n \<noteq> []" "w \<noteq> 0"
    and row: "saga_of sid d = Some r" "sg_step r = 0"
  shows "(\<exists>cx' d'. forward_loop L ok sid 0 (create_steps le) cx d = (False, cx', d') \<and>
      cx_step cx' = 0 \<and> same_groups d d') \<or>
    (\<exists>cx'. has_user d w \<and> cx_payload cx' = pay1 w n (next_group (seq d)) \<and>
      forward_loop L ok sid 0 (create_steps le) cx d = forward_loop L ok sid 1 (tl (create_steps le)) cx'
       (snd (upd_saga sid (adv L 1 (pay1 w n (next_group (seq d)))) (add_group w n d))))"
proof -
  have rows: "1 \<le> fst (upd_saga sid (adv L 1 (pay1 w n (next_group (seq d)))) (add_group w n d))"
    by (rule upd_saga_rows [where r = r])
      (use row in \<open>auto simp: add_group_def dest: arg_cong [of _ _ sg_step]\<close>)
  have cons: "forward_loop L ok sid 0 (create_steps le) cx d = forward_loop L ok sid 0
      (\<lparr>st_name = ''insert_groups_row'', st_forward = step1_forward le,
        st_compensate = Some step1_compensate\<rparr> # tl (create_steps le)) cx d"
    by (simp add: create_steps_def)
  let ?cx = "cx\<lparr>cx_step := 0, cx_payload := pay1 w n (next_group (seq d))\<rparr>"
  show ?thesis
  proof (cases "ok (Fwd 0) Acquire \<and> ok (Fwd 0) Begin \<and> ok (Fwd 0) (Exec 1) \<and> has_user d w \<and>
      ok (Fwd 0) (Exec 9) \<and> ok (Fwd 0) Commit")
    case True
    with cx rows show ?thesis unfolding cons
      by (intro disjI2 exI [of _ ?cx]) (auto simp: step1_eval exec_def split: prod.splits)
  next
    case False
    with cx rows show ?thesis unfolding cons
      by (intro disjI1) (auto simp: step1_eval exec_def Let_def split: prod.splits)
  qed
qed

definition group_added :: "uid \<Rightarrow> string \<Rightarrow> int \<Rightarrow> db \<Rightarrow> db \<Rightarrow> bool" where
  "group_added w n g d d' \<longleftrightarrow> \<not> has_group d g \<and>
     grps d' = grps d @ [\<lparr>g_id = g, g_name = n, g_owner = w, g_announcement = None\<rparr>] \<and>
     gmembers d' = gmembers d @ [(g, w)]"

lemma comp_one:
  assumes "cx_payload cx = pay1 w n g" "g \<noteq> 0" "ok (Comp 0) = (\<lambda>c. True)"
  shows "comp_loop ok (create_steps le) 1 cx d = (cx, snd (del_group g d))"
  using assms by (simp add: create_steps_def comp1_eval)

text \<open>A whole execution that starts at step 0.\<close>

lemma execute_create:
  assumes d: "groups_ok d" and load: "loadContextAndDef L defs (ok Load) sid d = Some (cx, create_steps le)"
    and cx: "cx_payload cx = pay0 w n" "cx_step cx = 0" "n \<noteq> []" "w \<noteq> 0"
    and row: "saga_of sid d = Some r" "sg_step r = 0"
  shows "(\<exists>d'. saga_execute L defs ok sid d = (False, d') \<and>
      (ok (Comp 0) = (\<lambda>c. True) \<longrightarrow> same_groups d d')) \<or>
    (\<exists>d' r'. saga_execute L defs ok sid d = (True, d') \<and> group_added w n (next_group (seq d)) d d' \<and>
      saga_of sid d' = Some r' \<and> sg_payload r' = lib_dump L (pay1 w n (next_group (seq d))))"
proof -
  let ?g = "next_group (seq d)"
  let ?d1 = "snd (upd_saga sid (adv L 1 (pay1 w n ?g)) (add_group w n d))"
  have g: "?g \<noteq> 0" "\<not> has_group d ?g"
    using d by (auto simp: groups_ok_def has_group_def list_ex_iff)
  have r1: "saga_of sid ?d1 = Some (adv L 1 (pay1 w n ?g) r)" "sg_step (adv L 1 (pay1 w n ?g) r) = 1"
    using row by (simp_all add: saga_of_upd add_group_def)
  from forward_first [OF cx(1,3,4) row, where L = L and ok = ok and le = le] show ?thesis
  proof (elim disjE exE conjE)
    fix cx' d'
    assume f: "forward_loop L ok sid 0 (create_steps le) cx d = (False, cx', d')" "cx_step cx' = 0"
      "same_groups d d'"
    then show ?thesis using load cx(2)
      by (intro disjI1) (auto simp: saga_execute_def Let_def intro: same_groups_trans [OF _ same_groups_mark])
  next
    fix cx'
    assume p1: "cx_payload cx' = pay1 w n ?g"
      and f: "forward_loop L ok sid 0 (create_steps le) cx d = forward_loop L ok sid 1 (tl (create_steps le)) cx' ?d1"
    from forward_second [OF p1 g(1) cx(4) r1, where L = L and ok = ok and le = le] show ?thesis
    proof (elim disjE exE conjE)
      fix cx2 d2
      assume f2: "forward_loop L ok sid 1 (tl (create_steps le)) cx' ?d1 = (False, cx2, d2)"
        and p2: "cx_payload cx2 = pay1 w n ?g" "cx_step cx2 = 1" "same_groups ?d1 d2"
      have "same_groups d (snd (del_group ?g (saga_mark (ok MarkCompensating) sid h d2)))" for h
        using p2(3) by (intro del_added [OF d, of _ w n]) (auto simp: same_groups_def add_group_def)
      then show ?thesis using load cx(2) f f2 p2 comp_one [OF p2(1) g(1)]
        by (intro disjI1)
          (auto simp: saga_execute_def Let_def intro: same_groups_trans [OF _ same_groups_mark] split: prod.splits)
    next
      fix cx2
      assume f2: "forward_loop L ok sid 1 (tl (create_steps le)) cx' ?d1 = (True, cx2,
        snd (upd_saga sid (adv L 2 (pay1 w n ?g)) (?d1\<lparr>gmembers := gmembers ?d1 @ [(?g, w)]\<rparr>)))"
      let ?d2 = "snd (upd_saga sid (adv L 2 (pay1 w n ?g)) (?d1\<lparr>gmembers := gmembers ?d1 @ [(?g, w)]\<rparr>))"
      let ?d3 = "saga_mark (ok MarkDone) sid (\<lambda>r. r\<lparr>sg_state := SagaDone\<rparr>) ?d2"
      have "saga_of sid (?d1\<lparr>gmembers := gmembers ?d1 @ [(?g, w)]\<rparr>) = Some (adv L 1 (pay1 w n ?g) r)"
        using r1(1) by (simp only: saga_of_fields)
      then have r2: "saga_of sid ?d2 = Some (adv L 2 (pay1 w n ?g) (adv L 1 (pay1 w n ?g) r))"
        by (subst saga_of_upd) simp_all
      then have "\<exists>r'. saga_of sid ?d3 = Some r' \<and> sg_payload r' = lib_dump L (pay1 w n ?g)"
        by (auto simp: saga_mark_def exec_def saga_of_upd)
      moreover have "group_added w n ?g d ?d3" using g by (simp add: group_added_def add_group_def)
      moreover have "saga_execute L defs ok sid d = (True, ?d3)"
        using load cx(2) f f2 by (simp add: saga_execute_def)
      ultimately show ?thesis by blast
    qed
  qed
qed

section \<open>Properties\<close>

lemma createGroup_started:
  assumes "n \<noteq> []" "newId \<noteq> 0" "saga_of newId d = None" "oS Acquire" "oS (Exec 1)"
    and defs: "defs' = registerCreateGroupSaga le defs" and d1: "d1 = snd (ins_saga newId ''group_create'' (lib_dump L (pay0 w n)) d)"
  shows "createGroup L (Some defs') oS oX oR newId w n d = (case saga_execute L defs' oX newId d1 of
      (False, d2) \<Rightarrow> (Inl ''saga failed (compensated)'', d2)
    | (True, d2) \<Rightarrow> (let groupId = readGroupIdFromSaga L oR newId d2
        in if groupId = 0 then (Inl ''saga done but group_id missing'', d2)
           else (Inr [(''groupId'', JInt groupId), (''sagaId'', JInt newId)], d2)))"
proof -
  have "saga_start L defs' oS newId ''group_create'' (pay0 w n) d = (newId, d1)"
    using assms saga_of_ins(1) [OF assms(3), of "''group_create''" "lib_dump L (pay0 w n)"]
    by (simp add: saga_start_def registerCreateGroupSaga_def registerSaga_def exec_def)
  with assms(1,2) show ?thesis by (simp add: createGroup_def createGroupViaSaga_def pay0_def [symmetric])
qed

lemma created_context:
  assumes "saga_of newId d = None" "d1 = snd (ins_saga newId ''group_create'' (lib_dump L (pay0 w n)) d)"
    and "lib_parse L (lib_dump L (pay0 w n)) = Some (pay0 w n)"
    and "loadContextAndDef L (registerCreateGroupSaga le defs) ok newId d1 = Some cs"
  shows "cs = (\<lparr>cx_saga_id = newId, cx_type = ''group_create'', cx_payload = pay0 w n, cx_step = 0, cx_error = []\<rparr>, create_steps le)"
  using assms(2-4) saga_of_ins(2) [OF assms(1), of "''group_create''" "lib_dump L (pay0 w n)"]
  by (auto simp: loadContextAndDef_def query_def saga_of_def registerCreateGroupSaga_def registerSaga_def split: if_splits)


definition demo_saga_lib :: jlib where
  "demo_saga_lib = \<lparr>lib_dump = (\<lambda>j. if j = pay0 1 ''g'' then ''0'' else ''1''),
     lib_parse = (\<lambda>s. if s = ''0'' then Some (pay0 1 ''g'') else if s = ''1'' then Some (pay1 1 ''g'' 1) else None)\<rparr>"


text \<open>C36. Only the owner of a group can delete it, set its announcement or remove somebody
  else: any other caller gets an error and changes nothing, on every pattern of faults.\<close>

theorem group_owner_only:
  assumes "owner_of g d \<noteq> Some u"
  shows "(\<exists>m. deleteGroup (u, g) ok d = (Inl m, d)) \<and>
    (\<exists>m. setAnnouncement (u, g, a) ok d = (Inl m, d)) \<and>
    (\<exists>m. kickMember (u, g, t) ok d = (Inl m, d))"
  using assms
  by (auto simp: deleteGroup_def setAnnouncement_def kickMember_def owner_check_def query_def
      split: option.splits)

theorem group_owner_only_witness:
  "\<exists>m. deleteGroup (2, 1) (\<lambda>c. True) (add_group 1 ''g'' two_users) = (Inl m, add_group 1 ''g'' two_users)"
proof -
  have "owner_of 1 (add_group 1 ''g'' two_users) \<noteq> Some 2"
    by (simp add: owner_of_def add_group_def two_users_def empty_db_def)
  from group_owner_only [OF this] show ?thesis by blast
qed

text \<open>The check that keeps an owner in the group fails open: when the lookup of the owner
  fails, leaveGroup removes the owner's membership and reports success.\<close>

theorem owner_leaves_on_failed_lookup:
  assumes "ok Acquire" "\<not> ok (Query 1)" "ok (Exec 2)"
  shows "fst (leaveGroup (w, g) ok d) = Inr [] \<and> (g, w) \<notin> set (gmembers (snd (leaveGroup (w, g) ok d)))"
  using assms by (simp add: leaveGroup_def query_def exec_def del_member_def)

theorem owner_leaves_on_failed_lookup_witness:
  "fst (leaveGroup (1, 1) (\<lambda>c. c \<noteq> Query 1) ((add_group 1 ''g'' two_users)\<lparr>gmembers := [(1, 1)]\<rparr>)) = Inr []"
  using owner_leaves_on_failed_lookup [of "\<lambda>c. c \<noteq> Query 1" 1 1
      "(add_group 1 ''g'' two_users)\<lparr>gmembers := [(1, 1)]\<rparr>"] by simp

end
