(* ===== verification/Protocol.thy ===== *)
theory Protocol
  imports Json
begin

text \<open>
  \<^verbatim>\<open>src/src/common/Protocol.h\<close>: message identifiers, routing keys, the JSON messages of the web
  socket protocol, and password storage. Random numbers, the clock, Snowflake numbers,
  SHA-256 and Argon2 are arguments. Words keep the widths of the code.
\<close>

unbundle bit_operations_syntax

section \<open>Identifiers\<close>

definition hex_digit :: "nat \<Rightarrow> char" where
  "hex_digit d = (if d < 10 then char_of (48 + d) else char_of (87 + d))"

text \<open>\<^verbatim>\<open>%0nx\<close> of a value below \<open>16 ^ n\<close>.\<close>

fun hex_pad :: "nat \<Rightarrow> nat \<Rightarrow> string" where
  "hex_pad 0 v = []"
| "hex_pad (Suc n) v = hex_pad n (v div 16) @ [hex_digit (v mod 16)]"

definition generateMsgId :: "32 word \<Rightarrow> 32 word \<Rightarrow> 32 word \<Rightarrow> 32 word \<Rightarrow> string" where
  "generateMsgId a b c d =
     (let b = (b AND 0xFFFF0FFF) OR 0x00004000;
          c = (c AND 0x3FFFFFFF) OR 0x80000000
      in hex_pad 8 (unat a) @ ''-'' @ hex_pad 4 (unat (drop_bit 16 b AND 0xFFFF)) @ ''-'' @
         hex_pad 4 (unat (b AND 0xFFFF)) @ ''-'' @ hex_pad 4 (unat (drop_bit 16 c AND 0xFFFF)) @ ''-'' @
         hex_pad 4 (unat (c AND 0xFFFF)) @ hex_pad 8 (unat d))"

definition privateRoutingKey :: "64 word \<Rightarrow> 64 word \<Rightarrow> 64 word" where
  "privateRoutingKey userIdA userIdB =
     (let lo = (if userIdB <s userIdA then userIdB else userIdA);
          hi = (if userIdA <s userIdB then userIdB else userIdA)
      in push_bit 32 lo OR (hi AND 0xFFFFFFFF))"

definition groupRoutingKey :: "64 word \<Rightarrow> 64 word" where
  "groupRoutingKey groupId = groupId"

definition generateServerMsgId :: "int \<Rightarrow> string" where
  "generateServerMsgId nextId = to_string nextId"

section \<open>Messages\<close>

definition makePrivateMsg :: "jlib \<Rightarrow> ms \<Rightarrow> uid \<Rightarrow> uid \<Rightarrow> string \<Rightarrow> string \<Rightarrow> string" where
  "makePrivateMsg L now from to content msgId = lib_dump L (obj
     [(''type'', JStr ''msg''), (''from'', JStr (to_string from)), (''to'', JStr (to_string to)),
      (''content'', JStr content), (''msgId'', JStr msgId), (''timestamp'', JInt now)])"

definition makeGroupMsg :: "jlib \<Rightarrow> ms \<Rightarrow> uid \<Rightarrow> int \<Rightarrow> string \<Rightarrow> string \<Rightarrow> string" where
  "makeGroupMsg L now from groupId content msgId = lib_dump L (obj
     [(''type'', JStr ''group_msg''), (''from'', JStr (to_string from)), (''to'', JStr (to_string groupId)),
      (''content'', JStr content), (''msgId'', JStr msgId), (''timestamp'', JInt now)])"

definition ack_json :: "string \<Rightarrow> string \<Rightarrow> json" where
  "ack_json msgId clientMsgId =
     (let j = obj [(''type'', JStr ''ack''), (''msgId'', JStr msgId)]
      in if clientMsgId \<noteq> [] then jset j ''clientMsgId'' (JStr clientMsgId) else j)"

definition makeAck :: "jlib \<Rightarrow> string \<Rightarrow> string \<Rightarrow> string" where
  "makeAck L msgId clientMsgId = lib_dump L (ack_json msgId clientMsgId)"

definition makeOnline :: "jlib \<Rightarrow> uid \<Rightarrow> string" where
  "makeOnline L userId = lib_dump L (obj [(''type'', JStr ''online''), (''userId'', JStr (to_string userId))])"

definition makeOffline :: "jlib \<Rightarrow> uid \<Rightarrow> string" where
  "makeOffline L userId = lib_dump L (obj [(''type'', JStr ''offline''), (''userId'', JStr (to_string userId))])"

definition error_json :: "string \<Rightarrow> json" where
  "error_json message = obj [(''type'', JStr ''error''), (''message'', JStr message)]"

definition makeError :: "jlib \<Rightarrow> string \<Rightarrow> string" where
  "makeError L message = lib_dump L (error_json message)"

definition makeFileMsg :: "jlib \<Rightarrow> ms \<Rightarrow> uid \<Rightarrow> uid \<Rightarrow> string \<Rightarrow> string \<Rightarrow> int \<Rightarrow> string \<Rightarrow> string" where
  "makeFileMsg L now from to url filename fileSize msgId = lib_dump L (obj
     [(''type'', JStr ''file_msg''), (''from'', JStr (to_string from)), (''to'', JStr (to_string to)),
      (''url'', JStr url), (''filename'', JStr filename), (''fileSize'', JInt fileSize),
      (''msgId'', JStr msgId), (''timestamp'', JInt now)])"

definition makeRecall :: "jlib \<Rightarrow> string \<Rightarrow> uid \<Rightarrow> string" where
  "makeRecall L msgId fromUserId = lib_dump L (obj
     [(''type'', JStr ''recall''), (''msgId'', JStr msgId), (''from'', JStr (to_string fromUserId))])"

definition makeDelivered :: "jlib \<Rightarrow> string \<Rightarrow> ms \<Rightarrow> int \<Rightarrow> string" where
  "makeDelivered L msgId deliveredAt deliveredCount = lib_dump L (obj
     [(''type'', JStr ''delivered''), (''msgId'', JStr msgId), (''deliveredAt'', JInt deliveredAt),
      (''deliveredCount'', JInt deliveredCount)])"

definition makeReactionUpdate :: "jlib \<Rightarrow> string \<Rightarrow> json \<Rightarrow> string \<Rightarrow> string \<Rightarrow> string" where
  "makeReactionUpdate L msgId reacts convType convId = lib_dump L (obj
     [(''type'', JStr ''reaction_update''), (''msgId'', JStr msgId), (''reactions'', reacts),
      (''convType'', JStr convType), (''convId'', JStr convId)])"

definition makeEdit :: "jlib \<Rightarrow> string \<Rightarrow> string \<Rightarrow> ms \<Rightarrow> uid \<Rightarrow> string \<Rightarrow> string \<Rightarrow> string" where
  "makeEdit L msgId newBody editedAt fromUserId convType convId = lib_dump L (obj
     [(''type'', JStr ''edit''), (''msgId'', JStr msgId), (''newBody'', JStr newBody),
      (''editedAt'', JInt editedAt), (''from'', JStr (to_string fromUserId)),
      (''convType'', JStr convType), (''convId'', JStr convId)])"

definition makeReadAck :: "jlib \<Rightarrow> uid \<Rightarrow> uid \<Rightarrow> string \<Rightarrow> string" where
  "makeReadAck L fromUserId toUserId lastMsgId = lib_dump L (obj
     [(''type'', JStr ''read_ack''), (''from'', JStr (to_string fromUserId)),
      (''to'', JStr (to_string toUserId)), (''lastMsgId'', JStr lastMsgId)])"

definition makeTyping :: "jlib \<Rightarrow> uid \<Rightarrow> uid \<Rightarrow> string" where
  "makeTyping L fromUserId toUserId = lib_dump L (obj
     [(''type'', JStr ''typing''), (''from'', JStr (to_string fromUserId)), (''to'', JStr (to_string toUserId))])"

section \<open>Passwords\<close>

text \<open>
  \<open>argon_hash salt pw\<close> is \<^verbatim>\<open>argon2id_hash_encoded\<close> (\<open>None\<close> when it fails), \<open>argon_ok enc pw\<close> is
  \<^verbatim>\<open>argon2id_verify\<close>, \<open>digest\<close> the 32 bytes of SHA-256.
\<close>

record pwlib =
  argon_hash :: "string \<Rightarrow> string \<Rightarrow> string option"
  argon_ok :: "string \<Rightarrow> string \<Rightarrow> bool"
  digest :: "string \<Rightarrow> byte list"

definition sha256 :: "pwlib \<Rightarrow> string \<Rightarrow> string" where
  "sha256 P input = concat (map (\<lambda>b. hex_pad 2 (unat b)) (digest P input))"

definition hashPassword :: "pwlib \<Rightarrow> string \<Rightarrow> string \<Rightarrow> string" where
  "hashPassword P salt password = (case argon_hash P salt password of Some e \<Rightarrow> e | None \<Rightarrow> [])"

definition verifyPassword :: "pwlib \<Rightarrow> string \<Rightarrow> string \<Rightarrow> bool" where
  "verifyPassword P password encoded =
     (if encoded = [] then False
      else if length encoded = 64 \<and> find_char (CHR ''$'') encoded = None
           then sha256 P (''muduo-im-salt-v1'' @ password) = encoded
           else argon_ok P encoded password)"

section \<open>Lemmas\<close>

lemma digit_chars:
  "char_of (52 :: nat) = CHR ''4''" "char_of (56 :: nat) = CHR ''8''" "char_of (57 :: nat) = CHR ''9''"
  "char_of (97 :: nat) = CHR ''a''" "char_of (98 :: nat) = CHR ''b''"
  by code_simp+

lemma length_hex_pad [simp]: "length (hex_pad n v) = n"
  by (induction n v rule: hex_pad.induct) auto

lemma hd_hex_pad: "v < 16 ^ Suc n \<Longrightarrow> hex_pad (Suc n) v = hex_digit (v div 16 ^ n) # hex_pad n (v mod 16 ^ n)"
proof (induction n arbitrary: v)
  case 0
  then show ?case by simp
next
  case (Suc n)
  have "v div 16 < 16 ^ Suc n" using Suc.prems by (simp add: less_mult_imp_div_less)
  from Suc.IH [OF this] have "hex_pad (Suc n) (v div 16) =
      hex_digit (v div 16 div 16 ^ n) # hex_pad n (v div 16 mod 16 ^ n)" .
  moreover have "v div 16 mod 16 ^ n = v mod 16 ^ Suc n div 16"
    by (simp add: mod_mult2_eq)
  moreover have "v mod 16 ^ Suc n mod 16 = v mod 16" by (simp add: mod_mod_cancel)
  ultimately show ?case by (simp add: div_mult2_eq)
qed

lemma version_word:
  "((b AND 0xFFFF0FFF) OR 0x00004000) AND 0xFFFF = (b AND 0xFFF) OR (0x4000 :: 32 word)"
  by (simp add: bit.conj_disj_distrib2 and.assoc)

lemma version_digit: "unat (((b AND 0xFFFF0FFF) OR 0x00004000) AND 0xFFFF :: 32 word) div 4096 = 4"
proof -
  have "drop_bit 12 ((b AND 0xFFF) OR (0x4000 :: 32 word)) = 4"
    by (simp add: drop_bit_or drop_bit_and)
  then have "unat (drop_bit 12 ((b AND 0xFFF) OR (0x4000 :: 32 word))) = 4" by simp
  then show ?thesis unfolding version_word by (simp add: drop_bit_eq_div unat_div_distrib)
qed

lemma variant_word:
  "drop_bit 16 ((c AND 0x3FFFFFFF) OR 0x80000000) AND 0xFFFF =
     (drop_bit 16 c AND 0x3FFF) OR (0x8000 :: 32 word)"
  by (simp add: bit.conj_disj_distrib2 and.assoc drop_bit_or drop_bit_and)

lemma and_mask_lt: "unat (x AND (mask n :: 32 word)) < 2 ^ n"
proof -
  have "x AND mask n = take_bit n x" by (simp add: take_bit_eq_mask)
  then show ?thesis by (simp add: unsigned_take_bit_eq)
qed

lemma and3_cases: "(y AND 3 :: 32 word) \<in> {0, 1, 2, 3}"
proof -
  have "unat (y AND 3) < 4" using and_mask_lt [of y 2] by (simp add: mask_eq_exp_minus_1)
  then have "unat (y AND 3) = 0 \<or> unat (y AND 3) = 1 \<or> unat (y AND 3) = 2 \<or> unat (y AND 3) = 3" by linarith
  then show ?thesis by (simp add: word_unat_eq_iff)
qed

lemma variant_digit:
  "unat (drop_bit 16 ((c AND 0x3FFFFFFF) OR 0x80000000) AND 0xFFFF :: 32 word) div 4096 \<in> {8, 9, 10, 11}"
proof -
  let ?w = "(drop_bit 16 c AND 0x3FFF) OR (0x8000 :: 32 word)"
  have "drop_bit 12 ?w = (drop_bit 28 c AND 3) OR 8"
    by (simp add: drop_bit_or drop_bit_and)
  with and3_cases [of "drop_bit 28 c"] have "unat (drop_bit 12 ?w) \<in> {8, 9, 10, 11}" by auto
  then show ?thesis unfolding variant_word by (simp add: drop_bit_eq_div unat_div_distrib)
qed

lemma nibble16: "unat (x AND 0xFFFF :: 32 word) < 16 ^ Suc 3"
  using and_mask_lt [of x 16] by (simp add: mask_eq_exp_minus_1)

text \<open>C38. Whatever the random words, the generated identifier has the shape of a version-4 UUID:
  36 characters with hyphens at 8, 13, 18 and 23, the version digit 4 and a variant digit
  among 8, 9, a, b.\<close>

theorem generateMsgId_uuid4:
  "length (generateMsgId a b c d) = 36 \<and>
   generateMsgId a b c d ! 8 = CHR ''-'' \<and> generateMsgId a b c d ! 13 = CHR ''-'' \<and>
   generateMsgId a b c d ! 18 = CHR ''-'' \<and> generateMsgId a b c d ! 23 = CHR ''-'' \<and>
   generateMsgId a b c d ! 14 = CHR ''4'' \<and> generateMsgId a b c d ! 19 \<in> set ''89ab''"
proof -
  let ?b = "unat (((b AND 0xFFFF0FFF) OR 0x00004000) AND 0xFFFF)"
  let ?c = "unat (drop_bit 16 ((c AND 0x3FFFFFFF) OR 0x80000000) AND 0xFFFF)"
  have four: "hex_pad 4 v = hex_pad (Suc 3) v" for v by (rule arg_cong [of _ _ "\<lambda>n. hex_pad n v"]) simp
  have p: "(16 :: nat) ^ 3 = 4096" by simp
  have b: "hex_pad 4 ?b = CHR ''4'' # hex_pad 3 (?b mod 4096)"
    unfolding four hd_hex_pad [OF nibble16] p version_digit by (simp add: hex_digit_def digit_chars)
  have "hex_digit (?c div 4096) \<in> set ''89ab''" using variant_digit [of c] by (auto simp: hex_digit_def digit_chars)
  moreover have c: "hex_pad 4 ?c = hex_digit (?c div 4096) # hex_pad 3 (?c mod 4096)"
    unfolding four hd_hex_pad [OF nibble16] p ..
  ultimately show ?thesis
    unfolding generateMsgId_def Let_def b c by (simp add: nth_append nth_Cons')
qed

lemma small_bits: "uint (w :: 64 word) < 2 ^ 32 \<Longrightarrow> take_bit 32 w = w"
  by (metis take_bit_int_eq_self uint_ge_0 unsigned_take_bit_eq unsigned_word_eqI)

lemma key_parts:
  assumes "uint (lo :: 64 word) < 2 ^ 32" "uint (hi :: 64 word) < 2 ^ 32"
  shows "drop_bit 32 (push_bit 32 lo OR (hi AND 0xFFFFFFFF)) = lo"
    "take_bit 32 (push_bit 32 lo OR (hi AND 0xFFFFFFFF)) = hi"
proof -
  have m: "hi AND 0xFFFFFFFF = hi"
    using small_bits [OF assms(2)] by (simp add: take_bit_eq_mask mask_eq_exp_minus_1)
  have h: "\<not> bit hi n" if "32 \<le> n" for n
    using small_bits [OF assms(2)] that by (metis bit_take_bit_iff not_less)
  have l: "n < 32" if "bit lo n" for n
    using small_bits [OF assms(1)] that by (metis bit_take_bit_iff)
  show "drop_bit 32 (push_bit 32 lo OR (hi AND 0xFFFFFFFF)) = lo"
    unfolding m using h l by (intro bit_eqI) (auto simp: bit_simps)
  show "take_bit 32 (push_bit 32 lo OR (hi AND 0xFFFFFFFF)) = hi"
    unfolding m using h by (intro bit_eqI) (auto simp: bit_simps)
qed

lemma sless_small:
  assumes "uint (a :: 64 word) < 2 ^ 32" "uint (b :: 64 word) < 2 ^ 32"
  shows "a <s b \<longleftrightarrow> a < b"
proof -
  have "sint w = uint w" if "uint w < 2 ^ 32" for w :: "64 word"
    unfolding sint_uint by (rule signed_take_bit_int_eq_self) (use that order_trans [OF _ uint_ge_0 [of w]] in auto)
  with assms show ?thesis by (simp add: word_sless_alt word_less_def)
qed

text \<open>Routing keys do not depend on the direction of a conversation, and two conversations
  between users with non-negative 32-bit identifiers get the same key only if they are the
  same conversation.\<close>

theorem privateRoutingKey_faithful:
  assumes "uint a < 2 ^ 32" "uint b < 2 ^ 32" "uint c < 2 ^ 32" "uint d < 2 ^ 32"
  shows "privateRoutingKey a b = privateRoutingKey b a \<and>
    (privateRoutingKey a b = privateRoutingKey c d \<longleftrightarrow> {a, b} = {c, d})"
proof -
  have key: "privateRoutingKey x y = push_bit 32 (min x y) OR (max x y AND 0xFFFFFFFF)"
    if "uint x < 2 ^ 32" "uint y < 2 ^ 32" for x y
    using that by (auto simp: privateRoutingKey_def sless_small min_def max_def Let_def)
  have mm: "uint (min x y) < 2 ^ 32" "uint (max x y) < 2 ^ 32"
    if "uint x < 2 ^ 32" "uint y < 2 ^ 32" for x y :: "64 word"
    using that by (simp_all add: min_def max_def)
  have "privateRoutingKey a b = privateRoutingKey c d \<longleftrightarrow> min a b = min c d \<and> max a b = max c d"
    unfolding key [OF assms(1,2)] key [OF assms(3,4)]
    by (metis key_parts [OF mm [OF assms(1,2)]] key_parts [OF mm [OF assms(3,4)]])
  also have "\<dots> \<longleftrightarrow> {a, b} = {c, d}"
    by (auto simp: min_def max_def doubleton_eq_iff split: if_splits)
  finally show ?thesis using key [OF assms(1,2)] key [OF assms(2,1)] by (simp add: min.commute max.commute)
qed

theorem privateRoutingKey_faithful_witness:
  "privateRoutingKey 7 9 = privateRoutingKey 9 7 \<and>
    (privateRoutingKey 7 9 = privateRoutingKey 9 8 \<longleftrightarrow> {7 :: 64 word, 9} = {9, 8})"
  by (rule privateRoutingKey_faithful) simp_all

end
