(* ===== verification/Base64Url.thy ===== *)
theory Base64Url
  imports Prelude
begin

text \<open>
  The Base64URL codec of \<^verbatim>\<open>src/src/common/JWT.h\<close>: \<^verbatim>\<open>base64UrlEncode\<close> collects input bytes in
  a three-byte buffer and emits four alphabet characters per full buffer;
  \<^verbatim>\<open>base64UrlDecode\<close> collects sextets in a four-element buffer. The buffers are lists whose
  length is the loop's counter \<^verbatim>\<open>i\<close>.
\<close>

unbundle bit_operations_syntax

section \<open>Encoding\<close>

definition b64_chars :: string where
  "b64_chars = ''ABCDEFGHIJKLMNOPQRSTUVWXYZabcdefghijklmnopqrstuvwxyz0123456789+/''"

definition byte_of :: "char \<Rightarrow> byte" where
  "byte_of c = of_nat (of_char c)"

definition char_byte :: "byte \<Rightarrow> char" where
  "char_byte b = char_of (unat b)"

text \<open>\<^verbatim>\<open>arr4[0..3]\<close> computed from \<^verbatim>\<open>arr3[0..2]\<close>.\<close>

definition sextets :: "byte \<Rightarrow> byte \<Rightarrow> byte \<Rightarrow> byte list" where
  "sextets a b c =
     [drop_bit 2 (a AND 0xfc),
      push_bit 4 (a AND 0x03) + drop_bit 4 (b AND 0xf0),
      push_bit 2 (b AND 0x0f) + drop_bit 6 (c AND 0xc0),
      c AND 0x3f]"

definition sextets_of :: "byte list \<Rightarrow> byte list" where
  "sextets_of buf = (case buf of [a, b, c] \<Rightarrow> sextets a b c | [a, b] \<Rightarrow> sextets a b 0
     | [a] \<Rightarrow> sextets a 0 0 | _ \<Rightarrow> [])"

definition b64_char :: "byte \<Rightarrow> char" where
  "b64_char v = b64_chars ! unat v"

text \<open>The \<^verbatim>\<open>while (inLen--)\<close> loop; \<open>buf\<close> is \<^verbatim>\<open>arr3[0..i-1]\<close>.\<close>

fun encode_loop :: "byte list \<Rightarrow> byte list \<Rightarrow> string \<Rightarrow> byte list \<times> string" where
  "encode_loop [] buf result = (buf, result)"
| "encode_loop (x # xs) buf result =
     (let buf' = buf @ [x] in
      if length buf' = 3 then encode_loop xs [] (result @ map b64_char (sextets_of buf'))
      else encode_loop xs buf' result)"

definition url_safe :: "char \<Rightarrow> char" where
  "url_safe c = (if c = CHR ''+'' then CHR ''-'' else if c = CHR ''/'' then CHR ''_'' else c)"

text \<open>The \<^verbatim>\<open>if (i)\<close> block after the loop: a partial buffer is zero-filled and gives \<^verbatim>\<open>i + 1\<close> characters.\<close>

definition encode_rest :: "byte list \<times> string \<Rightarrow> string" where
  "encode_rest p = (case p of (buf, result) \<Rightarrow> if buf = [] then result
     else result @ map b64_char (take (length buf + 1) (sextets_of buf)))"

definition base64UrlEncode :: "string \<Rightarrow> string" where
  "base64UrlEncode input = map url_safe (encode_rest (encode_loop (map byte_of input) [] []))"

section \<open>Decoding\<close>

definition url_unsafe :: "char \<Rightarrow> char" where
  "url_unsafe c = (if c = CHR ''-'' then CHR ''+'' else if c = CHR ''_'' then CHR ''/'' else c)"

text \<open>\<^verbatim>\<open>while (s.size() % 4) s += '='\<close>\<close>

definition pad4 :: "string \<Rightarrow> string" where
  "pad4 s = s @ replicate ((4 - length s mod 4) mod 4) (CHR ''='')"

definition triple :: "byte \<Rightarrow> byte \<Rightarrow> byte \<Rightarrow> byte \<Rightarrow> byte list" where
  "triple a b c d =
     [push_bit 2 a + drop_bit 4 (b AND 0x30),
      push_bit 4 (b AND 0xf) + drop_bit 2 (c AND 0x3c),
      push_bit 6 (c AND 0x3) + d]"

definition triple_of :: "byte list \<Rightarrow> byte list" where
  "triple_of buf = (case buf of [a, b, c, d] \<Rightarrow> triple a b c d | [a, b, c] \<Rightarrow> triple a b c 0
     | [a, b] \<Rightarrow> triple a b 0 0 | [a] \<Rightarrow> triple a 0 0 0 | _ \<Rightarrow> [])"

text \<open>The loop over the padded input: \<^verbatim>\<open>=\<close> breaks, a character outside the alphabet is skipped.\<close>

fun decode_loop :: "string \<Rightarrow> byte list \<Rightarrow> byte list \<Rightarrow> byte list \<times> byte list" where
  "decode_loop [] buf result = (buf, result)"
| "decode_loop (x # xs) buf result =
     (if x = CHR ''='' then (buf, result)
      else case find_char x b64_chars of
        None \<Rightarrow> decode_loop xs buf result
      | Some pos \<Rightarrow>
          (let buf' = buf @ [of_nat pos] in
           if length buf' = 4 then decode_loop xs [] (result @ triple_of buf')
           else decode_loop xs buf' result))"

definition decode_rest :: "byte list \<times> byte list \<Rightarrow> byte list" where
  "decode_rest p = (case p of (buf, result) \<Rightarrow> if buf = [] then result
     else result @ take (length buf - 1) (triple_of buf))"

definition base64UrlDecode :: "string \<Rightarrow> string" where
  "base64UrlDecode input =
     map char_byte (decode_rest (decode_loop (pad4 (map url_unsafe input)) [] []))"

section \<open>Arithmetic of the bit operations\<close>

lemma and_masks:
  fixes x :: byte
  shows "x AND 0x03 = take_bit 2 x" "x AND 0x0f = take_bit 4 x" "x AND 0x3f = take_bit 6 x"
  by (simp_all add: take_bit_eq_mask mask_numeral)

lemma unat_and_masks:
  fixes x :: byte
  shows "unat (x AND 0x03) = unat x mod 4" "unat (x AND 0x0f) = unat x mod 16"
    "unat (x AND 0x3f) = unat x mod 64"
  unfolding and_masks by (simp_all only: unsigned_take_bit_eq) (simp_all add: take_bit_eq_mod)

lemma unat_drop_masks:
  fixes x :: byte
  shows "unat (drop_bit 2 (x AND 0xfc)) = unat x div 4" 
    "unat (drop_bit 4 (x AND 0xf0)) = unat x div 16"
    "unat (drop_bit 6 (x AND 0xc0)) = unat x div 64"
    "unat (drop_bit 4 (x AND 0x30)) = unat x mod 64 div 16"
    "unat (drop_bit 2 (x AND 0x3c)) = unat x mod 64 div 4"
proof -
  have x: "unat x < 256" using unsigned_less [of x] by simp
  have *: "drop_bit 2 (0xfc::byte) = 0x3f" "drop_bit 4 (0xf0::byte) = 0x0f" "drop_bit 6 (0xc0::byte) = 0x03"
    "drop_bit 4 (0x30::byte) = 0x03" "drop_bit 2 (0x3c::byte) = 0x0f" by simp_all
  have y: "m div 4 mod 64 = m div 4" "m div 16 mod 16 = m div 16" "m div 64 mod 4 = m div 64"
    if "m < 256" for m :: nat using that by (auto intro!: mod_less)
  have z16: "m div 16 mod 4 = m mod 64 div 16" for m :: nat
    using mod_mult2_eq [of m 16 4] by simp
  have z4: "m div 4 mod 16 = m mod 64 div 4" for m :: nat
    using mod_mult2_eq [of m 4 16] by simp
  show "unat (drop_bit 2 (x AND 0xfc)) = unat x div 4" 
    "unat (drop_bit 4 (x AND 0xf0)) = unat x div 16"
    "unat (drop_bit 6 (x AND 0xc0)) = unat x div 64"
    "unat (drop_bit 4 (x AND 0x30)) = unat x mod 64 div 16"
    "unat (drop_bit 2 (x AND 0x3c)) = unat x mod 64 div 4"
    unfolding drop_bit_and * unat_and_masks unat_drop_bit_eq 
    using y [OF x] z16 [of "unat x"] z4 [of "unat x"] by (simp_all add: drop_bit_eq_div)
qed

lemma unat_push: "unat (push_bit n (x::byte)) = (2 ^ n * unat x) mod 256"
  by (simp only: unsigned_push_bit_eq) (simp add: push_bit_eq_mult take_bit_eq_mod mult.commute)

lemma unat_add8: "unat (x + y :: byte) = (unat x + unat y) mod 256"
  by (simp add: unat_word_ariths)


lemma unat_byte: "unat (x::byte) < 256"
  using unsigned_less [of x] by simp

lemma unat_sextets:
  "map unat (sextets a b c) = [unat a div 4, 16 * (unat a mod 4) + unat b div 16,
     4 * (unat b mod 16) + unat c div 64, unat c mod 64]"
proof -
  have "unat a mod 4 < 4" "unat b div 16 < 16" "unat b mod 16 < 16" "unat c div 64 < 4"
    using unat_byte [of b] unat_byte [of c] by (auto simp: less_mult_imp_div_less)
  then have "16 * (unat a mod 4) + unat b div 16 < 256" "4 * (unat b mod 16) + unat c div 64 < 256" 
    "16 * (unat a mod 4) < 256"  "4 * (unat b mod 16) < 256"
    by linarith+
  then show ?thesis
    unfolding sextets_def list.map unat_add8 unat_push unat_drop_masks unat_and_masks by simp
qed

lemma triple_sextets: 
  assumes "map unat [x0, x1, x2, x3] = map unat (sextets a b c)"
  shows "triple x0 x1 x2 x3 = [a,b,c]"
proof -
  define p q r s u v where d: "p = unat a div 4" "q = unat a mod 4" "r = unat b div 16" "s = unat b mod 16"
     "u = unat c div 64" "v = unat c mod 64"
  have l: "p < 64" "q < 4" "r < 16" "s < 16" "u < 4" "v < 64"
    using unat_byte [of a] unat_byte [of b] unat_byte [of c] unfolding d by (auto simp: less_mult_imp_div_less)
  have e: "unat a = 4 * p + q" "unat b = 16 * r + s" "unat c = 64 * u + v" unfolding d by simp_all
  have m: "(16 * q + r) mod 64 div 16 = q" "(16 * q + r) mod 16 = r" "(4 * s + u) mod 64 div 4 = s" "(4 * s + u) mod 4 = u"
     using l by auto
  have x: "unat x0 = p" "unat x1 = 16 * q + r" "unat x2 = 4 * s + u" "unat x3 = v"
    using assms unfolding unat_sextets d by simp_all
  show ?thesis
    unfolding triple_def word_unat_eq_iff list.inject unat_add8 unat_push unat_drop_masks unat_and_masks x m
    unfolding e using l by simp
qed

lemma sextets_lt64: "v \<in> set (sextets a b c) \<Longrightarrow> unat v < 64"
proof -
  assume "v \<in> set (sextets a b c)"
  then have "unat v \<in> set (map unat (sextets a b c))" by simp
  moreover have "unat a div 4 < 64" "unat a mod 4 < 4" "unat b div 16 < 16" "unat b mod 16 < 16" "unat c div 64 < 4"
    using unat_byte [of a] unat_byte [of b] unat_byte [of c] by (auto simp: less_mult_imp_div_less)
  ultimately show ?thesis unfolding unat_sextets by auto
qed

fun enc3 :: "byte list \<Rightarrow> byte list" where
  "enc3 (a # b # c # xs) = sextets a b c @ enc3 xs"
| "enc3 [a, b] = take 3 (sextets a b 0)"
| "enc3 [a] = take 2 (sextets a 0 0)"
| "enc3 [] = []"

fun dec4 :: "byte list \<Rightarrow> byte list" where
  "dec4 (a # b # c # d # xs) = triple a b c d @ dec4 xs"
| "dec4 [a, b, c] = take 2 (triple a b c 0)"
| "dec4 [a, b] = take 1 (triple a b 0 0)"
| "dec4 [a] = []"
| "dec4 [] = []"

lemma enc3_lt64: "v \<in> set (enc3 xs) \<Longrightarrow> unat v < 64"
  by (induction xs rule: enc3.induct) (auto dest: in_set_takeD sextets_lt64)

lemma sextets_shape:
  obtains s0 s1 s2 s3 where "sextets a b c = [s0, s1, s2, s3]" "triple s0 s1 s2 s3 = [a, b, c]"
    "c = 0 \<Longrightarrow> s3 = 0" "b = 0 \<Longrightarrow> c = 0 \<Longrightarrow> s2 = 0"
  using that [of "sextets a b c ! 0" "sextets a b c ! 1" "sextets a b c ! 2" "sextets a b c ! 3"]
    triple_sextets [of "sextets a b c ! 0" "sextets a b c ! 1" "sextets a b c ! 2" "sextets a b c ! 3" a b c]
  by (simp add: sextets_def)

lemma dec4_enc3: "dec4 (enc3 xs) = xs"
proof (induction xs rule: enc3.induct)
  case (1 a b c xs)
  then show ?case by (rule_tac sextets_shape [of a b c]) simp
next
  case (2 a b)
  show ?case by (rule sextets_shape [of a b 0]) (simp)
next
  case (3 a)
  show ?case by (rule sextets_shape [of a 0 0]) simp
next
  case 4
  show ?case by simp
qed

lemma encode_loop_enc3: "encode_rest (encode_loop xs [] res) = res @ map b64_char (enc3 xs)"
proof (induction xs arbitrary: res rule: enc3.induct)
  case (1 a b c xs)
  then show ?case by (simp add: sextets_of_def)
qed (simp_all add: encode_rest_def sextets_of_def numeral_3_eq_3 numeral_2_eq_2)

lemma base64UrlEncode_enc3:
  "base64UrlEncode s = map (\<lambda>v. url_safe (b64_char v)) (enc3 (map byte_of s))"
  by (simp add: base64UrlEncode_def encode_loop_enc3)

lemma find_char_nth: "distinct xs \<Longrightarrow> n < length xs \<Longrightarrow> find_char (xs ! n) xs = Some n"
proof (induction xs arbitrary: n)
  case Nil
  then show ?case by simp
next
  case (Cons x xs)
  then show ?case by (cases n) auto
qed

lemma b64_chars_facts: "distinct b64_chars" "length b64_chars = 64"
  "CHR ''-'' \<notin> set b64_chars" "CHR ''_'' \<notin> set b64_chars" "CHR ''='' \<notin> set b64_chars" "CHR ''.'' \<notin> set b64_chars"
  by (simp_all add: b64_chars_def)

lemma b64_char_in: "unat v < 64 \<Longrightarrow> b64_char v \<in> set b64_chars"
  by (simp add: b64_char_def b64_chars_facts)

lemma url_unsafe_safe: "unat v < 64 \<Longrightarrow> url_unsafe (url_safe (b64_char v)) = b64_char v"
  using b64_char_in [of v] b64_chars_facts by (auto simp: url_unsafe_def url_safe_def)

lemma find_b64_char: "unat v < 64 \<Longrightarrow> find_char (b64_char v) b64_chars = Some (unat v)"
  by (simp add: b64_char_def find_char_nth b64_chars_facts)

lemma b64_char_neq_pad: "unat v < 64 \<Longrightarrow> b64_char v \<noteq> CHR ''=''"
  using b64_char_in [of v] b64_chars_facts by auto

lemma decode_loop_pad: "decode_loop (replicate k (CHR ''='')) buf res = (buf, res)"
  by (cases k) auto

lemma decode_loop_dec4:
  assumes "\<forall>v \<in> set vs. unat v < 64"
  shows "decode_rest (decode_loop (map b64_char vs @ replicate k (CHR ''='')) [] res) = res @ dec4 vs"
  using assms
proof (induction vs arbitrary: res rule: dec4.induct)
  case (1 a b c d xs)
  then show ?case by (simp add: triple_of_def find_b64_char b64_char_neq_pad Let_def)
qed (simp_all add: decode_rest_def triple_of_def find_b64_char b64_char_neq_pad decode_loop_pad triple_def)

lemma char_byte_of [simp]: "char_byte (byte_of c) = c"
proof -
  have "(of_char c :: nat) mod 256 = of_char c" by simp
  then show ?thesis
    by (simp add: char_byte_def byte_of_def unsigned_of_nat take_bit_eq_mod)
qed

lemma base64UrlDecode_Encode [simp]: "base64UrlDecode (base64UrlEncode s) = s"
proof -
  let ?vs = "enc3 (map byte_of s)"
  have lt: "\<forall>v \<in> set ?vs. unat v < 64" by (auto dest: enc3_lt64)
  have "map url_unsafe (base64UrlEncode s) = map b64_char ?vs"
    using lt by (simp add: base64UrlEncode_enc3 url_unsafe_safe)
  then have "base64UrlDecode (base64UrlEncode s) = map char_byte (dec4 ?vs)"
    using decode_loop_dec4 [OF lt, of "(4 - length ?vs mod 4) mod 4" "[]"]
    by (simp add: base64UrlDecode_def pad4_def)
  then show ?thesis by (simp add: dec4_enc3 comp_def)
qed

definition url_alphabet :: "char set" where
  "url_alphabet = (set b64_chars - {CHR ''+'', CHR ''/''}) \<union> {CHR ''-'', CHR ''_''}"

lemma set_base64UrlEncode: "set (base64UrlEncode s) \<subseteq> url_alphabet"
proof
  fix c assume "c \<in> set (base64UrlEncode s)"
  then obtain v where v: "v \<in> set (enc3 (map byte_of s))" "c = url_safe (b64_char v)"
    by (auto simp: base64UrlEncode_enc3)
  with enc3_lt64 b64_char_in have "b64_char v \<in> set b64_chars" by blast
  with v(2) show "c \<in> url_alphabet"
    by (auto simp: url_safe_def url_alphabet_def)
qed

lemma length_enc3: "length (enc3 xs) = (4 * length xs + 2) div 3"
  by (induction xs rule: enc3.induct) (simp_all add: sextets_def)

lemma length_base64UrlEncode: "length (base64UrlEncode s) = (4 * length s + 2) div 3"
  by (simp add: base64UrlEncode_enc3 length_enc3)

section \<open>The codec contract\<close>

text \<open>
  What the token layer needs of its codec: decoding inverts encoding, and an encoded
  string never contains the separator.
\<close>

locale segment_codec =
  fixes enc :: "string \<Rightarrow> string" and dec :: "string \<Rightarrow> string" and sep :: char
  assumes dec_enc: "dec (enc s) = s"
    and sep_free: "sep \<notin> set (enc s)"
begin

lemma enc_inject: "enc s = enc t \<longleftrightarrow> s = t"
  by (metis dec_enc)

lemma find_first_sep: "find_char sep (enc h @ sep # rest) = Some (length (enc h))"
  by (rule find_char_append_notin [OF sep_free])

lemma join_inject:
  "enc h @ sep # enc p = enc h' @ sep # enc p' \<longleftrightarrow> h = h' \<and> p = p'"
  using append_sep_inj [OF sep_free sep_free] enc_inject by blast

end

interpretation b64: segment_codec base64UrlEncode base64UrlDecode "CHR ''.''"
proof unfold_locales
  show "base64UrlDecode (base64UrlEncode s) = s" for s by simp
  have "CHR ''.'' \<notin> url_alphabet" by (simp add: url_alphabet_def b64_chars_facts)
  then show "CHR ''.'' \<notin> set (base64UrlEncode s)" for s
    using set_base64UrlEncode by blast
qed

end
