(* ===== verification/Jwt.thy ===== *)
theory Jwt
  imports Json Base64Url
begin

text \<open>
  Tokens of \<^verbatim>\<open>src/src/common/JWT.h\<close>: \<^verbatim>\<open>generateWithJti\<close> and \<^verbatim>\<open>verifyAndParse\<close>. The MAC is OpenSSL's
  and the JSON text conversion nlohmann's: both are arguments (\<open>hmac\<close>, \<open>L\<close>). The clock is
  an argument too, in seconds.
\<close>

record claims =
  c_userId :: int
  c_jti :: string
  c_iat :: int
  c_exp :: int

definition remainingSeconds :: "int \<Rightarrow> claims \<Rightarrow> int" where
  "remainingSeconds now c = (if c_exp c > now then c_exp c - now else 0)"

text \<open>\<^verbatim>\<open>hmacSha256\<close>: the OpenSSL call with the instance's secret.\<close>

type_synonym mac = "string \<Rightarrow> string \<Rightarrow> string"

definition jwt_header :: json where
  "jwt_header = obj [(''alg'', JStr ''HS256''), (''typ'', JStr ''JWT'')]"

definition jwt_payload :: "int \<Rightarrow> int \<Rightarrow> string \<Rightarrow> int \<Rightarrow> json" where
  "jwt_payload now userId jti expireSeconds =
     (let payload = obj [(''userId'', JInt userId), (''iat'', JInt now),
                         (''exp'', JInt (now + expireSeconds))]
      in if jti \<noteq> [] then jset payload ''jti'' (JStr jti) else payload)"

definition generateWithJti :: "jlib \<Rightarrow> mac \<Rightarrow> string \<Rightarrow> int \<Rightarrow> int \<Rightarrow> string \<Rightarrow> int \<Rightarrow> string" where
  "generateWithJti L hmac secret now userId jti expireSeconds =
     (let headerB64 = base64UrlEncode (lib_dump L jwt_header);
          payloadB64 = base64UrlEncode (lib_dump L (jwt_payload now userId jti expireSeconds));
          message = headerB64 @ ''.'' @ payloadB64;
          signature = base64UrlEncode (hmac secret message)
      in message @ ''.'' @ signature)"

definition generate :: "jlib \<Rightarrow> mac \<Rightarrow> string \<Rightarrow> int \<Rightarrow> int \<Rightarrow> int \<Rightarrow> string" where
  "generate L hmac secret now userId expireSeconds =
     generateWithJti L hmac secret now userId [] expireSeconds"

text \<open>The \<^verbatim>\<open>try\<close> block: any \<^verbatim>\<open>value\<close> that throws makes the whole check fail.\<close>

definition claims_of :: "json \<Rightarrow> claims option" where
  "claims_of payload =
     (case (value_int payload ''userId'' 0, value_int payload ''exp'' 0,
            value_int payload ''iat'' 0, value_str payload ''jti'' []) of
        (Some u, Some e, Some i, Some t) \<Rightarrow> Some \<lparr>c_userId = u, c_jti = t, c_iat = i, c_exp = e\<rparr>
      | _ \<Rightarrow> None)"

definition verifyAndParse :: "jlib \<Rightarrow> mac \<Rightarrow> string \<Rightarrow> int \<Rightarrow> string \<Rightarrow> claims option" where
  "verifyAndParse L hmac secret now token =
     (case find_char (CHR ''.'') token of None \<Rightarrow> None
      | Some dot1 \<Rightarrow>
        (case find_char (CHR ''.'') (drop (dot1 + 1) token) of None \<Rightarrow> None
         | Some k \<Rightarrow>
           (let dot2 = dot1 + 1 + k;
                message = take dot2 token;
                signature = drop (dot2 + 1) token;
                expected = base64UrlEncode (hmac secret message)
            in if signature \<noteq> expected then None
               else
                 (let payloadStr = base64UrlDecode (take (dot2 - dot1 - 1) (drop (dot1 + 1) token))
                  in case lib_parse L payloadStr of None \<Rightarrow> None
                     | Some payload \<Rightarrow>
                       (case claims_of payload of None \<Rightarrow> None
                        | Some c \<Rightarrow>
                          if c_exp c = 0 \<or> now > c_exp c then None
                          else if c_userId c \<le> 0 then None else Some c)))))"

definition verify :: "jlib \<Rightarrow> mac \<Rightarrow> string \<Rightarrow> int \<Rightarrow> string \<Rightarrow> int" where
  "verify L hmac secret now token =
     (case verifyAndParse L hmac secret now token of Some c \<Rightarrow> c_userId c | None \<Rightarrow> -1)"

section \<open>Shape of a token\<close>

lemma verifyAndParse_segments:
  assumes "CHR ''.'' \<notin> set h" "CHR ''.'' \<notin> set p"
  shows "verifyAndParse L hmac secret now (h @ ''.'' @ p @ ''.'' @ s) =
    (if s \<noteq> base64UrlEncode (hmac secret (h @ ''.'' @ p)) then None
     else case lib_parse L (base64UrlDecode p) of None \<Rightarrow> None
        | Some payload \<Rightarrow> (case claims_of payload of None \<Rightarrow> None
           | Some c \<Rightarrow> if c_exp c = 0 \<or> now > c_exp c then None
                       else if c_userId c \<le> 0 then None else Some c))"
  using assms by (simp add: verifyAndParse_def find_char_append_notin Let_def)

lemma verifyAndParse_SomeD:
  assumes "verifyAndParse L hmac secret now token = Some c"
  obtains h p where "token = h @ ''.'' @ p @ ''.'' @ base64UrlEncode (hmac secret (h @ ''.'' @ p))"
    "CHR ''.'' \<notin> set h" "CHR ''.'' \<notin> set p" "0 < c_userId c" "c_exp c \<noteq> 0" "now \<le> c_exp c"
    "map_option claims_of (lib_parse L (base64UrlDecode p)) = Some (Some c)"
proof -
  from assms obtain d1 k where d: "find_char (CHR ''.'') token = Some d1"
      "find_char (CHR ''.'') (drop (Suc d1) token) = Some k"
    by (auto simp: verifyAndParse_def split: option.splits)
  define h p s where hps: "h = take d1 token" "p = take k (drop (Suc d1) token)"
      "s = drop (Suc k) (drop (Suc d1) token)"
  have t: "token = h @ ''.'' @ p @ ''.'' @ s"
    using find_char_split [OF d(1)] find_char_split [OF d(2)] by (simp add: hps)
  have nd: "CHR ''.'' \<notin> set h" "CHR ''.'' \<notin> set p"
    using find_char_SomeD [OF d(1)] find_char_SomeD [OF d(2)] by (auto simp: hps)
  have v: "verifyAndParse L hmac secret now (h @ ''.'' @ p @ ''.'' @ s) = Some c"
    using assms t by simp
  show thesis
    using v unfolding verifyAndParse_segments [OF nd]
    by (intro that [OF _ nd]) (auto simp: t split: if_splits option.splits)
qed

lemma claims_of_payload [simp]:
  "claims_of (jwt_payload now u jti e) =
     Some \<lparr>c_userId = u, c_jti = jti, c_iat = now, c_exp = now + e\<rparr>"
  by (simp add: claims_of_def jwt_payload_def jset_obj Let_def)

lemma token_roundtrip:
  assumes "lib_parse L (lib_dump L (jwt_payload t0 u jti e)) = Some (jwt_payload t0 u jti e)"
  shows "verifyAndParse L hmac secret now (generateWithJti L hmac secret t0 u jti e) =
    (if t0 + e \<noteq> 0 \<and> now \<le> t0 + e \<and> 0 < u
     then Some \<lparr>c_userId = u, c_jti = jti, c_iat = t0, c_exp = t0 + e\<rparr> else None)"
  using verifyAndParse_segments [OF b64.sep_free b64.sep_free] assms
  by (auto simp: generateWithJti_def Let_def)

section \<open>Properties\<close>

text \<open>C2. A token issued by generateWithJti verifies, under the same secret, exactly while it
  is unexpired and its user id is positive, and then yields the claims it was issued with.
  The JSON library is only assumed to parse back the payload it printed.\<close>

theorem generated_token_verifies:
  assumes parse_dump: "lib_parse L (lib_dump L (jwt_payload t0 u jti e)) = Some (jwt_payload t0 u jti e)"
  shows "verifyAndParse L hmac secret now (generateWithJti L hmac secret t0 u jti e) =
    (if t0 + e \<noteq> 0 \<and> now \<le> t0 + e \<and> 0 < u
     then Some \<lparr>c_userId = u, c_jti = jti, c_iat = t0, c_exp = t0 + e\<rparr> else None)"
  by (rule token_roundtrip [OF parse_dump])

definition demo_lib :: jlib where
  "demo_lib = \<lparr>lib_dump = (\<lambda>j. if j = jwt_payload 100 7 ''a1'' 60 then ''P'' else ''H''),
     lib_parse = (\<lambda>s. if s = ''P'' then Some (jwt_payload 100 7 ''a1'' 60) else None)\<rparr>"

definition demo_mac :: mac where
  "demo_mac key msg = key @ rev msg"

theorem generated_token_verifies_witness:
  "verifyAndParse demo_lib demo_mac ''k'' 130 (generateWithJti demo_lib demo_mac ''k'' 100 7 ''a1'' 60) =
     Some \<lparr>c_userId = 7, c_jti = ''a1'', c_iat = 100, c_exp = 160\<rparr>"
proof -
  have "lib_parse demo_lib (lib_dump demo_lib (jwt_payload 100 7 ''a1'' 60)) =
      Some (jwt_payload 100 7 ''a1'' 60)"
    by (simp add: demo_lib_def)
  from generated_token_verifies [OF this, of demo_mac "''k''" 130] show ?thesis by simp
qed

text \<open>C3. Whatever verifyAndParse accepts carries the MAC of its own first two segments
  under the server's secret, is unexpired and names a positive user.\<close>

theorem accepted_token_is_signed:
  assumes "verifyAndParse L hmac secret now token = Some c"
  shows "\<exists>h p. token = h @ ''.'' @ p @ ''.'' @ base64UrlEncode (hmac secret (h @ ''.'' @ p)) \<and>
    CHR ''.'' \<notin> set h \<and> CHR ''.'' \<notin> set p \<and> 0 < c_userId c \<and> now \<le> c_exp c \<and>
    0 \<le> remainingSeconds now c"
  using assms by (rule verifyAndParse_SomeD) (auto simp: remainingSeconds_def)

theorem accepted_token_is_signed_witness:
  "\<exists>h p. generateWithJti demo_lib demo_mac ''k'' 100 7 ''a1'' 60 =
      h @ ''.'' @ p @ ''.'' @ base64UrlEncode (demo_mac ''k'' (h @ ''.'' @ p)) \<and>
    CHR ''.'' \<notin> set h \<and> CHR ''.'' \<notin> set p \<and>
    0 < c_userId \<lparr>c_userId = 7, c_jti = ''a1'', c_iat = 100, c_exp = 160\<rparr> \<and>
    130 \<le> c_exp \<lparr>c_userId = 7, c_jti = ''a1'', c_iat = 100, c_exp = 160\<rparr> \<and>
    0 \<le> remainingSeconds 130 \<lparr>c_userId = 7, c_jti = ''a1'', c_iat = 100, c_exp = 160\<rparr>"
proof (rule accepted_token_is_signed [where L = demo_lib])
  have "jwt_header \<noteq> jwt_payload 100 7 ''a1'' 60"
    by (simp add: jwt_header_def jwt_payload_def jset_def obj_def)
  then show "verifyAndParse demo_lib demo_mac ''k'' 130
      (generateWithJti demo_lib demo_mac ''k'' 100 7 ''a1'' 60) =
      Some \<lparr>c_userId = 7, c_jti = ''a1'', c_iat = 100, c_exp = 160\<rparr>"
    using verifyAndParse_segments [OF b64.sep_free b64.sep_free]
    by (simp add: generateWithJti_def demo_lib_def Let_def)
qed

end
