(* ===== verification/Users.thy ===== *)
theory Users
  imports Friends Protocol Jwt
begin

text \<open>
  \<^verbatim>\<open>src/src/server/UserService.h\<close>: registration, login with the lock-out counter, profiles,
  password change and account deletion. User names are compared by the collation of the
  database (\<open>coll\<close>); \<open>P\<close> are the password primitives, \<open>L\<close>, \<open>hmac\<close>, \<open>secret\<close> those of the token.
  A statement refused for the size of a value is an outcome of that statement.
\<close>

type_synonym collation = "string \<Rightarrow> string \<Rightarrow> bool"

record attempt =
  a_failures :: nat
  a_lockedUntilMs :: ms

type_synonym attempts = "string \<rightharpoonup> attempt"

definition kMaxLoginFailures :: nat where
  "kMaxLoginFailures = 5"

definition kLockoutDurationMs :: ms where
  "kLockoutDurationMs = 15 * 60 * 1000"

definition isPasswordStrong :: "string \<Rightarrow> bool" where
  "isPasswordStrong pw =
     (if length pw < 8 \<or> length pw > 72 then False
      else let (hasAlpha, hasDigit) = foldl (\<lambda>(a, d) c. if is_alpha c then (True, d)
                 else if is_digit c then (a, True) else (a, d)) (False, False) pw
           in hasAlpha \<and> hasDigit)"

definition recordLoginFailure :: "string \<Rightarrow> ms \<Rightarrow> attempts \<Rightarrow> attempts" where
  "recordLoginFailure username nowMs st =
     (let a = (case st username of Some a \<Rightarrow> a | None \<Rightarrow> \<lparr>a_failures = 0, a_lockedUntilMs = 0\<rparr>);
          n = a_failures a + 1
      in if n \<ge> kMaxLoginFailures
         then st(username \<mapsto> \<lparr>a_failures = 0, a_lockedUntilMs = nowMs + kLockoutDurationMs\<rparr>)
         else st(username \<mapsto> a\<lparr>a_failures := n\<rparr>))"

definition find_user :: "collation \<Rightarrow> string \<Rightarrow> db \<Rightarrow> user_row option" where
  "find_user coll name d = find (\<lambda>r. coll (u_username r) name) (users d)"

definition user_by_id :: "uid \<Rightarrow> db \<Rightarrow> user_row option" where
  "user_by_id u d = find (\<lambda>r. u_id r = u) (users d)"

definition ins_user :: "collation \<Rightarrow> string \<Rightarrow> string \<Rightarrow> string \<Rightarrow> stmt" where
  "ins_user coll name pw nick d =
     (if list_ex (\<lambda>r. coll (u_username r) name) (users d) then (-1, d)
      else (1, d\<lparr>users := users d @ [\<lparr>u_id = next_user (seq d), u_username = name, u_password = pw,
                                      u_nickname = Some nick, u_avatar = []\<rparr>],
                 seq := (seq d)\<lparr>next_user := next_user (seq d) + 1\<rparr>\<rparr>))"

definition upd_user :: "uid \<Rightarrow> (user_row \<Rightarrow> user_row) \<Rightarrow> stmt" where
  "upd_user u f d =
     (int (length (filter (\<lambda>r. u_id r = u \<and> f r \<noteq> r) (users d))),
      d\<lparr>users := map (\<lambda>r. if u_id r = u then f r else r) (users d)\<rparr>)"

definition registerUser :: "collation \<Rightarrow> pwlib \<Rightarrow> string \<times> string \<times> string \<times> string \<Rightarrow> outcome \<Rightarrow> db \<Rightarrow> reply \<times> db" where
  "registerUser coll P a ok d =
     (let (salt, username, password, nickname) = a
      in if username = [] \<or> password = [] then (Inl ''username and password required'', d)
         else if length username < 3 \<or> length username > 32
              then (Inl ''username must be 3-32 characters'', d)
         else if \<not> isPasswordStrong password
              then (Inl ''password must be 8-72 characters and contain both letters and digits'', d)
         else if \<not> ok Acquire then (Inl ''database error'', d)
         else if query ok 1 (\<lambda>d. find_user coll username d \<noteq> None) d = Some True
              then (Inl ''username already exists'', d)
         else if \<not> ok (Prepare 2) then (Inl ''prepare failed'', d)
         else
           (let hashedPwd = hashPassword P salt password;
                nick = (if nickname = [] then username else nickname);
                (r, d') = exec ok 2 (ins_user coll username hashedPwd nick) d
            in if r < 0 then (Inl ''register failed'', d')
               else (Inr [(''userId'', JInt (next_user (seq d))), (''message'', JStr ''registered'')], d')))"

definition login :: "collation \<Rightarrow> pwlib \<Rightarrow> jlib \<Rightarrow> mac \<Rightarrow> string \<Rightarrow> ms \<Rightarrow> string \<Rightarrow> string \<Rightarrow> string \<Rightarrow> outcome
    \<Rightarrow> db \<Rightarrow> attempts \<Rightarrow> reply \<times> attempts" where
  "login coll P L hmac secret nowMs jti username password ok d st =
     (if username = [] \<or> password = [] then (Inl ''username and password required'', st)
      else if (case st username of Some a \<Rightarrow> a_lockedUntilMs a > nowMs | None \<Rightarrow> False)
           then (Inl (''account locked, retry in '' @
                   to_string ((a_lockedUntilMs (the (st username)) - nowMs) div 1000) @ '' seconds''), st)
      else if \<not> ok Acquire then (Inl ''database error'', st)
      else
        (case query ok 1 (find_user coll username) d of
           Some (Some row) \<Rightarrow>
             if \<not> verifyPassword P password (u_password row)
             then (Inl ''wrong password'', recordLoginFailure username nowMs st)
             else
               (let token = generateWithJti L hmac secret (nowMs div 1000) (u_id row) jti 86400
                in (Inr [(''token'', JStr token), (''userId'', JInt (u_id row)),
                         (''nickname'', JStr (case u_nickname row of Some n \<Rightarrow> n | None \<Rightarrow> []))],
                    st(username := None)))
         | _ \<Rightarrow> (Inl ''user not found'', recordLoginFailure username nowMs st)))"

definition verifyToken :: "jlib \<Rightarrow> mac \<Rightarrow> string \<Rightarrow> int \<Rightarrow> string \<Rightarrow> int" where
  "verifyToken L hmac secret now token = verify L hmac secret now token"

definition getProfile :: "(uid \<Rightarrow> string) \<Rightarrow> outcome \<Rightarrow> uid \<Rightarrow> db \<Rightarrow> reply" where
  "getProfile created ok u d =
     (if \<not> ok Acquire then Inl ''db error''
      else case query ok 1 (user_by_id u) d of
             Some (Some r) \<Rightarrow> Inr [(''userId'', JInt (u_id r)), (''username'', JStr (u_username r)),
               (''nickname'', JStr (case u_nickname r of Some n \<Rightarrow> n | None \<Rightarrow> [])),
               (''avatar'', JStr (u_avatar r)), (''createdAt'', JStr (created u))]
           | _ \<Rightarrow> Inl ''user not found'')"

definition getPublicProfile :: "outcome \<Rightarrow> uid \<Rightarrow> db \<Rightarrow> reply" where
  "getPublicProfile ok u d =
     (if \<not> ok Acquire then Inl ''db error''
      else case query ok 1 (user_by_id u) d of
             Some (Some r) \<Rightarrow> Inr [(''userId'', JInt (u_id r)), (''username'', JStr (u_username r)),
               (''nickname'', JStr (case u_nickname r of Some n \<Rightarrow> n | None \<Rightarrow> [])),
               (''avatar'', JStr (u_avatar r))]
           | _ \<Rightarrow> Inl ''user not found'')"

definition updateProfile :: "uid \<times> string \<times> string \<Rightarrow> outcome \<Rightarrow> db \<Rightarrow> reply \<times> db" where
  "updateProfile a ok d =
     (let (userId, nickname, avatar) = a
      in if nickname = [] \<and> avatar = [] then (Inl ''nothing to update'', d)
         else if \<not> ok Acquire then (Inl ''db error'', d)
         else if nickname \<noteq> [] \<and> avatar \<noteq> []
              then (Inr [], snd (prepared ok 1 (upd_user userId (\<lambda>r. r\<lparr>u_nickname := Some nickname, u_avatar := avatar\<rparr>)) d))
         else if nickname \<noteq> []
              then (Inr [], snd (prepared ok 2 (upd_user userId (\<lambda>r. r\<lparr>u_nickname := Some nickname\<rparr>)) d))
         else (Inr [], snd (prepared ok 3 (upd_user userId (\<lambda>r. r\<lparr>u_avatar := avatar\<rparr>)) d)))"

definition changePassword :: "pwlib \<Rightarrow> string \<times> uid \<times> string \<times> string \<Rightarrow> outcome \<Rightarrow> db \<Rightarrow> reply \<times> db" where
  "changePassword P a ok d =
     (let (salt, userId, oldPassword, newPassword) = a
      in if \<not> isPasswordStrong newPassword
         then (Inl ''new password must be 8-72 characters and contain both letters and digits'', d)
         else if \<not> ok Acquire then (Inl ''db error'', d)
         else
           (case query ok 1 (user_by_id userId) d of
              Some (Some row) \<Rightarrow>
                if \<not> verifyPassword P oldPassword (u_password row) then (Inl ''wrong old password'', d)
                else (Inr [], snd (prepared ok 2
                       (upd_user userId (\<lambda>r. r\<lparr>u_password := hashPassword P salt newPassword\<rparr>)) d))
            | _ \<Rightarrow> (Inl ''user not found'', d)))"

definition del_friends_of :: "uid \<Rightarrow> stmt" where
  "del_friends_of u d =
     (int (length (filter (\<lambda>p. fst p = u \<or> snd p = u) (friends d))),
      d\<lparr>friends := filter (\<lambda>p. fst p \<noteq> u \<and> snd p \<noteq> u) (friends d)\<rparr>)"

definition del_memberships_of :: "uid \<Rightarrow> stmt" where
  "del_memberships_of u d =
     (int (length (filter (\<lambda>p. snd p = u) (gmembers d))),
      d\<lparr>gmembers := filter (\<lambda>p. snd p \<noteq> u) (gmembers d)\<rparr>)"

definition del_requests_of :: "uid \<Rightarrow> stmt" where
  "del_requests_of u d =
     (int (length (filter (\<lambda>r. r_from r = u \<or> r_to r = u) (requests d))),
      d\<lparr>requests := filter (\<lambda>r. r_from r \<noteq> u \<and> r_to r \<noteq> u) (requests d)\<rparr>)"

definition deleteAccount :: "pwlib \<Rightarrow> uid \<times> string \<Rightarrow> outcome \<Rightarrow> db \<Rightarrow> reply \<times> db" where
  "deleteAccount P a ok d =
     (let (userId, password) = a
      in if \<not> ok Acquire then (Inl ''db error'', d)
         else
           (case query ok 1 (user_by_id userId) d of
              Some (Some row) \<Rightarrow>
                if \<not> verifyPassword P password (u_password row) then (Inl ''wrong password'', d)
                else if \<not> ok Begin then (Inl ''failed to start transaction'', d)
                else
                  (let (r1, d1) = exec ok 2 (del_friends_of userId) d;
                       (r2, d2) = exec ok 3 (del_memberships_of userId) d1;
                       (r3, d3) = exec ok 4 (del_requests_of userId) d2;
                       (r4, d4) = exec ok 5 (del_user userId) d3;
                       (success, d') = tx ok (r1 \<ge> 0 \<and> r2 \<ge> 0 \<and> r3 \<ge> 0 \<and> r4 \<ge> 0, d4) d
                   in if \<not> success then (Inl ''delete failed'', d') else (Inr [], d'))
            | _ \<Rightarrow> (Inl ''user not found'', d)))"

text \<open>\<open>like pat v\<close> is the SQL LIKE of the database on the pattern \<open>%pat%\<close>.\<close>

definition searchUsers :: "(string \<Rightarrow> string \<Rightarrow> bool) \<Rightarrow> outcome \<Rightarrow> string \<Rightarrow> db \<Rightarrow> reply" where
  "searchUsers like ok keyword d =
     (if keyword = [] \<or> length keyword < 2 then Inl ''keyword too short (min 2 chars)''
      else if \<not> ok Acquire then Inl ''db error''
      else
        (let rows = (case query ok 1 (\<lambda>d. take 20 (filter (\<lambda>r. like keyword (u_username r) \<or>
                 (case u_nickname r of Some n \<Rightarrow> like keyword n | None \<Rightarrow> False)) (users d))) d of
               Some rs \<Rightarrow> rs | None \<Rightarrow> [])
         in Inr [(''users'', JArr (map profile_json rows))]))"

section \<open>Integrity\<close>

lemma safe_ins_user [simp]: "safe (ins_user coll n p k)"
proof -
  have "db_ok (snd (ins_user coll n p k d)) \<and> seq_le d (snd (ins_user coll n p k d))" if "db_ok d" for d
  proof (cases "list_ex (\<lambda>r. coll (u_username r) n) (users d)")
    case True
    with that show ?thesis by (simp add: ins_user_def)
  next
    case False
    let ?d = "snd (ins_user coll n p k d)"
    have u: "has_user ?d v \<longleftrightarrow> has_user d v \<or> v = next_user (seq d)" for v
      using False by (auto simp: ins_user_def has_user_def)
    have g: "has_group ?d = has_group d" using False by (simp add: ins_user_def has_group_def fun_eq_iff)
    have "users_ok ?d" "seq_le d ?d" using False that by (auto simp: ins_user_def db_ok_def users_ok_def seq_le_def)
    moreover have "friends_ok ?d" "requests_ok ?d" "groups_ok ?d"
      using that by (auto simp: db_ok_def friends_ok_def requests_ok_def groups_ok_def u g)
        (use False in \<open>auto simp: ins_user_def\<close>)
    ultimately show ?thesis by (simp add: db_ok_def)
  qed
  then show ?thesis by (simp add: safe_def)
qed

lemma safe_upd_user [simp]:
  assumes "\<And>r. u_id (f r) = u_id r"
  shows "safe (upd_user u f)"
proof -
  let ?f = "\<lambda>r. if u_id r = u then f r else r"
  have f: "map u_id (map ?f rs) = map u_id rs" for rs by (simp add: assms)
  have "list_ex (\<lambda>r. u_id r = v) (map ?f rs) = list_ex (\<lambda>r. u_id r = v) rs" for rs v
    by (induction rs) (auto simp: assms)
  then have g: "has_user (d\<lparr>users := map ?f (users d)\<rparr>) v = has_user d v" for d v
    by (simp add: has_user_def)
  show ?thesis
    by (simp add: safe_def upd_user_def db_ok_defs seq_le_def f g del: map_map) (auto simp: assms)
qed

lemma safe_del_of [simp]: "safe (del_friends_of u)" "safe (del_memberships_of u)" "safe (del_requests_of u)"
  by (auto simp: safe_def del_friends_of_def del_memberships_of_def del_requests_of_def db_ok_defs seq_le_def
      distinct_map_filter)

lemma registerUser_cases:
  assumes "social_ok d" "registerUser coll P (salt, n, pw, k) ok d = (rep, d')"
  shows "social_ok d' \<and> (case rep of Inl m \<Rightarrow> d' = d
    | Inr fs \<Rightarrow> fs = [(''userId'', JInt (next_user (seq d))), (''message'', JStr ''registered'')] \<and>
        \<not> list_ex (\<lambda>r. coll (u_username r) n) (users d) \<and> isPasswordStrong pw \<and> n \<noteq> [] \<and>
        d' = snd (ins_user coll n (hashPassword P salt pw) (if k = [] then n else k) d))"
proof -
  let ?st = "ins_user coll n (hashPassword P salt pw) (if k = [] then n else k)"
  have "social_ok (snd (?st d))"
    using assms(1) safe_ins_user [of coll n "hashPassword P salt pw" "if k = [] then n else k"]
    by (simp add: social_ok_def safe_def) (simp add: ins_user_def)
  then show ?thesis
    using assms by (auto simp: registerUser_def exec_def ins_user_def Let_def split: if_splits)
qed

lemma social_upd_user:
  assumes "social_ok d" "\<And>r. u_id (f r) = u_id r"
  shows "social_ok (snd (prepared ok n (upd_user u f) d))"
  using assms safe_upd_user [of f u]
  by (simp add: social_ok_def prepared_def safe_def) (simp add: upd_user_def)

interpretation registerUser_op: atomic_op "registerUser coll P" social_ok for coll P
  by (rule atomic_opI) (use registerUser_cases in \<open>fastforce split: sum.splits\<close>)

interpretation updateProfile_op: atomic_op updateProfile social_ok
  by (rule atomic_opI) (auto simp: updateProfile_def social_upd_user split: if_splits)

interpretation changePassword_op: atomic_op "changePassword P" social_ok for P
  by (rule atomic_opI) (auto simp: changePassword_def social_upd_user split: if_splits option.splits)

text \<open>The four deletions of \<^verbatim>\<open>deleteAccount\<close> amount to the cascading one.\<close>

lemma delete_all_eq:
  "snd (del_user u (snd (del_requests_of u (snd (del_memberships_of u (snd (del_friends_of u d))))))) =
     snd (del_user u d)"
  by (simp add: del_user_def del_requests_of_def del_memberships_of_def del_friends_of_def conj_commute)

lemma social_del_user: "social_ok d \<Longrightarrow> social_ok (snd (del_user u d))"
  using safe_del_user [of u] by (auto simp: social_ok_def safe_def) (auto simp: del_user_def)

lemma deleteAccount_cases:
  assumes "social_ok d" "deleteAccount P (u, pw) ok d = (rep, d')"
  shows "social_ok d' \<and> (case rep of Inl m \<Rightarrow> unchanged d d'
    | Inr fs \<Rightarrow> (\<exists>r. user_by_id u d = Some r \<and> verifyPassword P pw (u_password r)) \<and> d' = snd (del_user u d))"
proof (cases "ok Acquire \<and> ok (Query 1) \<and> ok Begin \<and>
    (\<exists>r. user_by_id u d = Some r \<and> verifyPassword P pw (u_password r))")
  case False
  with assms show ?thesis
    by (auto simp: deleteAccount_def query_def split: if_splits option.splits)
next
  case True
  then obtain row where row: "user_by_id u d = Some row" "verifyPassword P pw (u_password row)" by blast
  obtain r1 d1 where 1: "exec ok 2 (del_friends_of u) d = (r1, d1)" by (metis prod.exhaust)
  obtain r2 d2 where 2: "exec ok 3 (del_memberships_of u) d1 = (r2, d2)" by (metis prod.exhaust)
  obtain r3 d3 where 3: "exec ok 4 (del_requests_of u) d2 = (r3, d3)" by (metis prod.exhaust)
  obtain r4 d4 where 4: "exec ok 5 (del_user u) d3 = (r4, d4)" by (metis prod.exhaust)
  let ?b = "(r1 \<ge> 0 \<and> r2 \<ge> 0 \<and> r3 \<ge> 0 \<and> r4 \<ge> 0, d4)"
  obtain s e where t: "tx ok ?b d = (s, e)" by (metis prod.exhaust)
  have r: "d' = e" "rep = (if s then Inr [] else Inl ''delete failed'')"
    using assms(2) True row 1 2 3 4 t by (auto simp: deleteAccount_def query_def split: if_splits)
  have "db_ok d" using assms(1) by (simp add: social_ok_def)
  then have ok: "db_ok d4" "seq_le d d4"
    using exec_safe [OF safe_del_of(1) _ 1] exec_safe [OF safe_del_of(2) _ 2] exec_safe [OF safe_del_of(3) _ 3]
      exec_safe [OF safe_del_user _ 4] seq_le_trans by metis+
  have "unchanged d e \<and> db_ok e" if "\<not> s"
    using tx_unchanged [of ok ?b d] tx_safe [of d ?b ok] ok \<open>db_ok d\<close> t that by simp
  moreover have "e = snd (del_user u d)" if s
  proof -
    from t that have c: "0 \<le> r1" "0 \<le> r2" "0 \<le> r3" "0 \<le> r4" "e = d4"
      by (auto simp: tx_def split: if_splits)
    from exec_ge0 [OF 1 c(1)] exec_ge0 [OF 2 c(2)] exec_ge0 [OF 3 c(3)] exec_ge0 [OF 4 c(4)] c(5)
    have "e = snd (del_user u (snd (del_requests_of u (snd (del_memberships_of u (snd (del_friends_of u d)))))))"
      by simp
    then show ?thesis by (simp only: delete_all_eq)
  qed
  ultimately show ?thesis
    using r row assms(1) unchanged_social [OF assms(1)] social_del_user [OF assms(1)] by (cases s) auto
qed

interpretation deleteAccount_op: atomic_op "deleteAccount P" social_ok for P
  by (rule atomic_opI) (use deleteAccount_cases in \<open>fastforce split: sum.splits\<close>)

section \<open>Properties\<close>

lemma find_new_user:
  assumes "\<not> list_ex (\<lambda>r. coll (u_username r) n) (users d)" "coll n n"
  shows "find_user coll n (snd (ins_user coll n p k d)) =
    Some \<lparr>u_id = next_user (seq d), u_username = n, u_password = p, u_nickname = Some k, u_avatar = []\<rparr>"
proof -
  have "find (\<lambda>r. coll (u_username r) n) (users d) = None"
    using assms(1) by (auto simp: find_None_iff list_ex_iff)
  moreover have "find P (xs @ [x]) = (if find P xs = None \<and> P x then Some x else find P xs)"
    for P and xs :: "user_row list" and x by (induction xs) auto
  ultimately show ?thesis using assms by (simp add: find_user_def ins_user_def)
qed

lemma verify_fresh_hash:
  assumes "argon_hash P salt pw = Some e" "argon_ok P e pw" "CHR ''$'' \<in> set e"
  shows "verifyPassword P pw (hashPassword P salt pw)"
  using assms by (auto simp: verifyPassword_def hashPassword_def find_char_None_iff)

text \<open>C30. Who registers can log in, and the token names them: after a registration that reported
  success with number i, a login with the same name and password, with no lock on the name
  and no failing call, succeeds, clears the failure count and returns a token that verifies
  to i for its whole validity. Assumed of the parameters: Argon2 accepts what it encoded, its
  encodings contain a dollar sign, the collation is reflexive, and the JSON library reads
  back the token payload.\<close>

theorem register_then_login:
  assumes "social_ok d" "0 < next_user (seq d)" "registerUser coll P (salt, n, pw, k) ok d = (Inr fs, d')"
    and argon: "argon_hash P salt pw = Some e" "argon_ok P e pw" "CHR ''$'' \<in> set e"
    and coll: "coll n n" and st: "st n = None"
    and json: "lib_parse L (lib_dump L (jwt_payload (now div 1000) (next_user (seq d)) jti 86400)) =
      Some (jwt_payload (now div 1000) (next_user (seq d)) jti 86400)"
    and t: "0 \<le> now" "now div 1000 \<le> t" "t \<le> now div 1000 + 86400"
  shows "\<exists>token. login coll P L hmac secret now jti n pw (\<lambda>c. True) d' st =
      (Inr [(''token'', JStr token), (''userId'', JInt (next_user (seq d))),
        (''nickname'', JStr (if k = [] then n else k))], st(n := None)) \<and>
    fs = [(''userId'', JInt (next_user (seq d))), (''message'', JStr ''registered'')] \<and>
    verifyToken L hmac secret t token = next_user (seq d)"
proof -
  let ?k = "if k = [] then n else k" and ?h = "hashPassword P salt pw" and ?u = "next_user (seq d)"
  from registerUser_cases [OF assms(1,3)] have r: "\<not> list_ex (\<lambda>r. coll (u_username r) n) (users d)"
      "isPasswordStrong pw" "n \<noteq> []" "d' = snd (ins_user coll n ?h ?k d)"
      "fs = [(''userId'', JInt ?u), (''message'', JStr ''registered'')]" by auto
  have pw: "pw \<noteq> []" using r(2) by (auto simp: isPasswordStrong_def)
  let ?t = "generateWithJti L hmac secret (now div 1000) ?u jti 86400"
  have "now div 1000 \<ge> 0" using t(1) by simp
  then have "verifyToken L hmac secret t ?t = ?u"
    using token_roundtrip [OF json] t assms(2) by (simp add: verifyToken_def verify_def)
  moreover have "login coll P L hmac secret now jti n pw (\<lambda>c. True) d' st =
      (Inr [(''token'', JStr ?t), (''userId'', JInt ?u), (''nickname'', JStr ?k)], st(n := None))"
    using r(3) pw st find_new_user [where coll = coll and n = n and d = d and p = ?h and k = ?k, OF r(1) coll] verify_fresh_hash [OF argon]
    by (simp add: login_def query_def r(4) del: if_split)
  ultimately show ?thesis using r(5) by blast
qed

definition demo_pw :: pwlib where
  "demo_pw = \<lparr>argon_hash = (\<lambda>s p. Some (''$'' @ p)), argon_ok = (\<lambda>e p. e = ''$'' @ p), digest = (\<lambda>s. [])\<rparr>"

definition demo_jlib :: "json \<Rightarrow> jlib" where
  "demo_jlib j = \<lparr>lib_dump = (\<lambda>x. if x = j then ''P'' else ''H''), lib_parse = (\<lambda>s. if s = ''P'' then Some j else None)\<rparr>"

theorem register_then_login_witness:
  "\<exists>token. login (=) demo_pw (demo_jlib (jwt_payload 5 1 ''j'' 86400)) demo_mac ''k'' 5000 ''j'' ''carol'' ''passw0rd''
      (\<lambda>c. True) (snd (registerUser (=) demo_pw (''s'', ''carol'', ''passw0rd'', []) (\<lambda>c. True) empty_db)) Map.empty =
      (Inr [(''token'', JStr token), (''userId'', JInt 1), (''nickname'', JStr ''carol'')], Map.empty)"
proof -
  let ?r = "registerUser (=) demo_pw (''s'', ''carol'', ''passw0rd'', []) (\<lambda>c. True) empty_db"
  have strong: "isPasswordStrong ''passw0rd''" by code_simp
  have r: "?r = (Inr [(''userId'', JInt 1), (''message'', JStr ''registered'')], snd ?r)"
    using strong by (simp add: registerUser_def query_def exec_def ins_user_def find_user_def empty_db_def)
  have ok: "social_ok empty_db" by (simp add: social_ok_def) (simp add: empty_db_def)
  show ?thesis
    using register_then_login [OF ok _ r, of "''$passw0rd''" Map.empty
        "demo_jlib (jwt_payload 5 1 ''j'' 86400)" 5000 "''j''" 5 demo_mac "''k''"]
    by (simp add: empty_db_def demo_pw_def demo_jlib_def) auto
qed

lemma login_failure:
  assumes "login coll P L hmac secret now jti n pw ok d st = (Inl m, st')" "m = ''wrong password'' \<or> m = ''user not found''"
  shows "st' = recordLoginFailure n now st"
proof -
  have "''account locked, retry in '' @ x \<noteq> m" for x using assms(2) by auto
  with assms show ?thesis
    by (auto simp: login_def Let_def split: if_splits option.splits)
qed

text \<open>A series of logins on one name: each is a time, a token number, a password and outcomes.\<close>

type_synonym login_try = "ms \<times> string \<times> string \<times> outcome"

definition try_login :: "collation \<Rightarrow> pwlib \<Rightarrow> jlib \<Rightarrow> mac \<Rightarrow> string \<Rightarrow> string \<Rightarrow> db \<Rightarrow> attempts \<Rightarrow> login_try
    \<Rightarrow> reply \<times> attempts" where
  "try_login coll P L hmac secret n d st x =
     (let (now, jti, pw, ok) = x in login coll P L hmac secret now jti n pw ok d st)"

fun failed_logins :: "collation \<Rightarrow> pwlib \<Rightarrow> jlib \<Rightarrow> mac \<Rightarrow> string \<Rightarrow> string \<Rightarrow> db \<Rightarrow> attempts \<Rightarrow> login_try list \<Rightarrow> bool" where
  "failed_logins coll P L hmac secret n d st [] = True"
| "failed_logins coll P L hmac secret n d st (x # xs) =
     (let (r, st') = try_login coll P L hmac secret n d st x
      in r \<in> {Inl ''wrong password'', Inl ''user not found''} \<and> failed_logins coll P L hmac secret n d st' xs)"

lemma failed_logins_state:
  assumes "failed_logins coll P L hmac secret n d st xs"
  shows "foldl (\<lambda>st x. snd (try_login coll P L hmac secret n d st x)) st xs =
    foldl (\<lambda>st t. recordLoginFailure n t st) st (map fst xs)"
  using assms
proof (induction xs arbitrary: st)
  case Nil
  then show ?case by simp
next
  case (Cons x xs)
  obtain now jti pw ok where x: "x = (now, jti, pw, ok)" by (metis prod_cases4)
  obtain r st' where l: "login coll P L hmac secret now jti n pw ok d st = (r, st')" by (metis prod.exhaust)
  with Cons.prems x have "r \<in> {Inl ''wrong password'', Inl ''user not found''}"
      "failed_logins coll P L hmac secret n d st' xs" by (auto simp: try_login_def)
  moreover from this(1) l login_failure have "st' = recordLoginFailure n now st" by blast
  ultimately show ?case using Cons.IH l x by (simp add: try_login_def)
qed

lemma five_failures:
  assumes "st n = None"
  shows "foldl (\<lambda>st t. recordLoginFailure n t st) st [t1, t2, t3, t4, t5] n =
    Some \<lparr>a_failures = 0, a_lockedUntilMs = t5 + kLockoutDurationMs\<rparr>"
  using assms by (simp add: recordLoginFailure_def kMaxLoginFailures_def)

text \<open>C31. Five failed logins in a row on a name lock it: from then on, until fifteen minutes
  after the fifth, every login on that name with a non-empty password is refused without
  looking at the password, and the lock state stays as it is.\<close>

theorem five_failures_lock:
  assumes "st n = None" "length xs = 5" "failed_logins coll P L hmac secret n d st xs"
    and "n \<noteq> []" "pw \<noteq> []" "t < fst (last xs) + kLockoutDurationMs"
    and st': "st' = foldl (\<lambda>st x. snd (try_login coll P L hmac secret n d st x)) st xs"
  shows "\<exists>m. login coll P L hmac secret t jti n pw ok d st' = (Inl (''account locked, retry in '' @ m), st')"
proof -
  obtain x1 x2 x3 x4 x5 where xs: "xs = [x1, x2, x3, x4, x5]"
    using assms(2) by (auto simp: numeral_eq_Suc length_Suc_conv)
  have "st' n = Some \<lparr>a_failures = 0, a_lockedUntilMs = fst x5 + kLockoutDurationMs\<rparr>"
    using failed_logins_state [OF assms(3)] five_failures [of st n, OF assms(1)] st' xs by simp
  with assms(4-6) xs show ?thesis by (simp add: login_def)
qed

theorem five_failures_lock_witness:
  "\<exists>m. login (=) demo_pw (demo_jlib JNull) demo_mac ''k'' 900004 ''j'' ''ann'' ''pw'' (\<lambda>c. True) two_users
      (foldl (\<lambda>st x. snd (try_login (=) demo_pw (demo_jlib JNull) demo_mac ''k'' ''ann'' two_users st x)) Map.empty
        [(1, ''j'', ''a'', \<lambda>c. True), (2, ''j'', ''b'', \<lambda>c. True), (3, ''j'', ''c'', \<lambda>c. True),
         (4, ''j'', ''d'', \<lambda>c. True), (5, ''j'', ''e'', \<lambda>c. True)]) =
    (Inl (''account locked, retry in '' @ m),
      foldl (\<lambda>st x. snd (try_login (=) demo_pw (demo_jlib JNull) demo_mac ''k'' ''ann'' two_users st x)) Map.empty
        [(1, ''j'', ''a'', \<lambda>c. True), (2, ''j'', ''b'', \<lambda>c. True), (3, ''j'', ''c'', \<lambda>c. True),
         (4, ''j'', ''d'', \<lambda>c. True), (5, ''j'', ''e'', \<lambda>c. True)])"
  by (rule five_failures_lock [OF _ _ _ _ _ _ refl])
    (simp_all add: try_login_def login_def query_def find_user_def two_users_def verifyPassword_def
      demo_pw_def recordLoginFailure_def kMaxLoginFailures_def kLockoutDurationMs_def find_char_None_iff)

text \<open>C32. Deleting an account under any pattern of failing calls: success needs the account's
  password and leaves no trace of the user in the user, friend, request, group and member
  tables (groups owned by the user go with their members), with all references intact;
  failure changes nothing.\<close>

theorem deleteAccount_effect:
  assumes "social_ok d" "deleteAccount P (u, pw) ok d = (rep, d')"
  shows "social_ok d' \<and> (case rep of Inl m \<Rightarrow> unchanged d d'
    | Inr fs \<Rightarrow> (\<exists>r. user_by_id u d = Some r \<and> verifyPassword P pw (u_password r)) \<and>
        \<not> has_user d' u \<and> (\<forall>v. (u, v) \<notin> set (friends d') \<and> (v, u) \<notin> set (friends d')) \<and>
        filter (\<lambda>r. r_from r = u \<or> r_to r = u) (requests d') = [] \<and>
        filter (\<lambda>r. g_owner r = u) (grps d') = [] \<and> (\<forall>g. (g, u) \<notin> set (gmembers d')))"
  using deleteAccount_cases [OF assms] has_user_del [of u d u]
  by (auto simp: del_user_def filter_empty_conv split: sum.splits)

theorem deleteAccount_effect_witness:
  "\<not> has_user (snd (deleteAccount demo_pw (1, ''x'') (\<lambda>c. True) (two_users\<lparr>users :=
     [\<lparr>u_id = 1, u_username = ''ann'', u_password = ''$x'', u_nickname = None, u_avatar = []\<rparr>]\<rparr>))) 1"
proof -
  let ?d = "two_users\<lparr>users := [\<lparr>u_id = 1, u_username = ''ann'', u_password = ''$x'', u_nickname = None, u_avatar = []\<rparr>]\<rparr>"
  have ok: "social_ok ?d" by (simp add: social_ok_def db_ok_defs two_users_def empty_db_def)
  have "deleteAccount demo_pw (1, ''x'') (\<lambda>c. True) ?d = (Inr [], snd (deleteAccount demo_pw (1, ''x'') (\<lambda>c. True) ?d))"
    by (simp add: deleteAccount_def query_def user_by_id_def verifyPassword_def demo_pw_def exec_def tx_def
        del_friends_of_def del_memberships_of_def del_requests_of_def del_user_def)
  from deleteAccount_effect [OF ok this] show ?thesis by simp
qed

text \<open>A password change whose UPDATE fails is still reported as done: with the right old
  password and a strong new one, the answer is success while the stored password is the old.\<close>

theorem changePassword_false_success:
  assumes "user_by_id u d = Some r" "verifyPassword P oldp (u_password r)" "isPasswordStrong newp"
    "ok Acquire" "ok (Query 1)" "\<not> ok (Exec 2)"
  shows "changePassword P (salt, u, oldp, newp) ok d = (Inr [], d)"
  using assms by (simp add: changePassword_def query_def prepared_def)

theorem changePassword_false_success_witness:
  "changePassword demo_pw (''s'', 1, ''x'', ''passw0rd'') (\<lambda>c. c \<noteq> Exec 2) (two_users\<lparr>users :=
     [\<lparr>u_id = 1, u_username = ''ann'', u_password = ''$x'', u_nickname = None, u_avatar = []\<rparr>]\<rparr>) =
   (Inr [], two_users\<lparr>users :=
     [\<lparr>u_id = 1, u_username = ''ann'', u_password = ''$x'', u_nickname = None, u_avatar = []\<rparr>]\<rparr>)"
proof (rule changePassword_false_success)
  show "isPasswordStrong ''passw0rd''" by code_simp
qed (auto simp: user_by_id_def verifyPassword_def demo_pw_def)

end
