(* ===== verification/Messages.thy ===== *)
theory Messages
  imports Database
begin

text \<open>
  \<^verbatim>\<open>src/src/server/MessageService.h\<close>: storing messages, history pages, reactions, edits and
  recalls. Rows of a table are in insertion order; \<open>ORDER BY timestamp DESC\<close> is a stable
  sort. The text match \<open>like\<close> of the database is an argument.
\<close>

text \<open>Kind 0 is \<^verbatim>\<open>private_messages\<close>, kind 1 \<^verbatim>\<open>group_messages\<close>.\<close>

definition table :: "int \<Rightarrow> db \<Rightarrow> msg_row list" where
  "table kind d = (if kind = 0 then pmsgs d else gmsgs d)"

definition set_table :: "int \<Rightarrow> msg_row list \<Rightarrow> db \<Rightarrow> db" where
  "set_table kind rows d = (if kind = 0 then d\<lparr>pmsgs := rows\<rparr> else d\<lparr>gmsgs := rows\<rparr>)"

definition new_msg :: "string \<Rightarrow> uid \<Rightarrow> int \<Rightarrow> string \<Rightarrow> ms \<Rightarrow> string option \<Rightarrow> msg_row" where
  "new_msg msgId from peer content ts mentions =
     \<lparr>m_msg_id = msgId, m_from = from, m_peer = peer, m_content = content, m_recalled = False,
      m_timestamp = ts, m_edited_at = None, m_original = None, m_mentions = mentions,
      m_delivered_at = None, m_delivered_count = 0\<rparr>"

definition ins_msg :: "int \<Rightarrow> msg_row \<Rightarrow> stmt" where
  "ins_msg kind r d =
     (if list_ex (\<lambda>x. m_msg_id x = m_msg_id r) (table kind d) then (-1, d)
      else (1, set_table kind (table kind d @ [r]) d))"

definition upd_msgs :: "int \<Rightarrow> (msg_row \<Rightarrow> bool) \<Rightarrow> (msg_row \<Rightarrow> msg_row) \<Rightarrow> stmt" where
  "upd_msgs kind P f d =
     (int (length (filter (\<lambda>r. P r \<and> f r \<noteq> r) (table kind d))),
      set_table kind (map (\<lambda>r. if P r then f r else r) (table kind d)) d)"

definition savePrivateMessageTx :: "outcome \<Rightarrow> string \<Rightarrow> uid \<Rightarrow> uid \<Rightarrow> string \<Rightarrow> ms \<Rightarrow> db \<Rightarrow> bool \<times> db" where
  "savePrivateMessageTx ok msgId from to content ts d =
     (let (r, d') = prepared ok 1 (ins_msg 0 (new_msg msgId from to content ts None)) d in (r > 0, d'))"

definition savePrivateMessage :: "outcome \<Rightarrow> string \<Rightarrow> uid \<Rightarrow> uid \<Rightarrow> string \<Rightarrow> ms \<Rightarrow> db \<Rightarrow> bool \<times> db" where
  "savePrivateMessage ok msgId from to content ts d =
     (if \<not> ok Acquire then (False, d) else savePrivateMessageTx ok msgId from to content ts d)"

definition saveGroupMessage :: "outcome \<Rightarrow> string \<Rightarrow> int \<Rightarrow> uid \<Rightarrow> string \<Rightarrow> ms \<Rightarrow> string \<Rightarrow> db \<Rightarrow> bool \<times> db" where
  "saveGroupMessage ok msgId groupId from content ts mentionsJson d =
     (if \<not> ok Acquire then (False, d)
      else
        (let (r, d') = prepared ok 1 (ins_msg 1 (new_msg msgId from groupId content ts
               (if mentionsJson = [] then None else Some mentionsJson))) d
         in (r > 0, d')))"

section \<open>History\<close>

text \<open>One page of a list of rows: newest first, strictly before the cursor, at most \<open>limit\<close>.\<close>

definition page :: "int \<Rightarrow> ms \<Rightarrow> msg_row list \<Rightarrow> msg_row list" where
  "page limit before rows =
     take (nat limit) (sort_key (\<lambda>r. - m_timestamp r)
       (filter (\<lambda>r. before > 0 \<longrightarrow> m_timestamp r < before) rows))"

definition conversation :: "uid \<Rightarrow> uid \<Rightarrow> db \<Rightarrow> msg_row list" where
  "conversation u v d = filter (\<lambda>r. (m_from r = u \<and> m_peer r = v \<or> m_from r = v \<and> m_peer r = u) \<and>
     \<not> m_recalled r) (pmsgs d)"

definition group_log :: "int \<Rightarrow> db \<Rightarrow> msg_row list" where
  "group_log g d = filter (\<lambda>r. m_peer r = g \<and> \<not> m_recalled r) (gmsgs d)"

definition pm_json :: "msg_row \<Rightarrow> json" where
  "pm_json r = obj [(''msgId'', JStr (m_msg_id r)), (''from'', JInt (m_from r)), (''to'', JInt (m_peer r)),
     (''content'', JStr (m_content r)), (''timestamp'', JInt (m_timestamp r))]"

definition gm_json :: "msg_row \<Rightarrow> json" where
  "gm_json r = obj [(''msgId'', JStr (m_msg_id r)), (''from'', JInt (m_from r)),
     (''content'', JStr (m_content r)), (''timestamp'', JInt (m_timestamp r))]"

text \<open>A negative \<open>LIMIT\<close> is a syntax error, so the query has no result.\<close>

definition getPrivateHistory :: "outcome \<Rightarrow> uid \<Rightarrow> uid \<Rightarrow> int \<Rightarrow> ms \<Rightarrow> db \<Rightarrow> json" where
  "getPrivateHistory ok u v limit before d =
     (if \<not> ok Acquire then JArr []
      else case query ok 1 (\<lambda>d. page limit before (conversation u v d)) d of
             Some rows \<Rightarrow> if limit < 0 then JArr [] else JArr (map pm_json rows)
           | None \<Rightarrow> JArr [])"

definition getGroupHistory :: "outcome \<Rightarrow> int \<Rightarrow> int \<Rightarrow> ms \<Rightarrow> db \<Rightarrow> json" where
  "getGroupHistory ok g limit before d =
     (if \<not> ok Acquire then JArr []
      else case query ok 1 (\<lambda>d. page limit before (group_log g d)) d of
             Some rows \<Rightarrow> if limit < 0 then JArr [] else JArr (map gm_json rows)
           | None \<Rightarrow> JArr [])"

section \<open>Reactions\<close>

definition ins_reaction :: "string \<Rightarrow> uid \<Rightarrow> string \<Rightarrow> stmt" where
  "ins_reaction msgId u emoji d =
     (if (msgId, u, emoji) \<in> set (reactions d) then (0, d)
      else (1, d\<lparr>reactions := reactions d @ [(msgId, u, emoji)]\<rparr>))"

definition del_reaction :: "string \<Rightarrow> uid \<Rightarrow> string \<Rightarrow> stmt" where
  "del_reaction msgId u emoji d =
     (int (length (filter (\<lambda>x. x = (msgId, u, emoji)) (reactions d))),
      d\<lparr>reactions := filter (\<lambda>x. x \<noteq> (msgId, u, emoji)) (reactions d)\<rparr>)"

text \<open>The result is the success flag, \<^verbatim>\<open>outAdded\<close> (if written) and the database.\<close>

definition toggleReaction :: "outcome \<Rightarrow> string \<Rightarrow> uid \<Rightarrow> string \<Rightarrow> db \<Rightarrow> bool \<times> bool option \<times> db" where
  "toggleReaction ok msgId u emoji d =
     (if msgId = [] \<or> emoji = [] \<or> length emoji > 16 then (False, None, d)
      else if \<not> ok Acquire then (False, None, d)
      else if query ok 1 (\<lambda>d. (msgId, u, emoji) \<in> set (reactions d)) d = Some True
           then (let (r, d') = prepared ok 2 (del_reaction msgId u emoji) d in (r \<ge> 0, Some False, d'))
           else (let (r, d') = prepared ok 3 (ins_reaction msgId u emoji) d in (r \<ge> 0, Some True, d')))"

definition add_reaction_json :: "json \<Rightarrow> string \<times> uid \<times> string \<Rightarrow> json" where
  "add_reaction_json j x =
     (let (m, u, e) = x;
          old = (case jlookup j e of Some (JArr xs) \<Rightarrow> xs | _ \<Rightarrow> [])
      in jset j e (JArr (old @ [JStr (to_string u)])))"

definition getReactions :: "outcome \<Rightarrow> string \<Rightarrow> db \<Rightarrow> json" where
  "getReactions ok msgId d =
     (if \<not> ok Acquire then obj []
      else case query ok 1 (\<lambda>d. filter (\<lambda>x. fst x = msgId) (reactions d)) d of
             None \<Rightarrow> obj [] | Some rows \<Rightarrow> foldl add_reaction_json (obj []) rows)"

section \<open>Edit and recall\<close>

definition kEditWindowMs :: ms where
  "kEditWindowMs = 15 * 60 * 1000"

definition ins_edit :: "edit_row \<Rightarrow> stmt" where
  "ins_edit e d = (1, d\<lparr>edits := edits d @ [e]\<rparr>)"

text \<open>The result is success, \<^verbatim>\<open>outOldBody\<close> (if written) and the database.\<close>

definition editMessage :: "outcome \<Rightarrow> ms \<Rightarrow> string \<Rightarrow> uid \<Rightarrow> string \<Rightarrow> int \<Rightarrow> db \<Rightarrow> bool \<times> string option \<times> db" where
  "editMessage ok nowMs msgId editorId newBody msgKind d =
     (if msgKind \<noteq> 0 \<and> msgKind \<noteq> 1 then (False, None, d)
      else if \<not> ok Acquire then (False, None, d)
      else if \<not> ok Begin then (False, None, d)
      else
        (case query ok 1 (\<lambda>d. find (\<lambda>r. m_msg_id r = msgId) (table msgKind d)) d of
           Some (Some row) \<Rightarrow>
             (let windowStart = nowMs - kEditWindowMs;
                  oldBody = m_content row;
                  existingOriginal = (case m_original row of Some x \<Rightarrow> x | None \<Rightarrow> [])
              in if m_from row \<noteq> editorId then (False, None, d)
                 else if m_recalled row then (False, None, d)
                 else if m_timestamp row < windowStart then (False, None, d)
                 else
                   (let f = (if existingOriginal = []
                             then (\<lambda>r. r\<lparr>m_content := newBody, m_edited_at := Some nowMs, m_original := Some oldBody\<rparr>)
                             else (\<lambda>r. r\<lparr>m_content := newBody, m_edited_at := Some nowMs\<rparr>));
                        (r1, d1) = prepared ok 2 (upd_msgs msgKind
                          (\<lambda>r. m_msg_id r = msgId \<and> m_from r = editorId \<and> \<not> m_recalled r) f) d
                    in if r1 \<le> 0 then (False, Some oldBody, rollback d d1)
                       else
                         (let (r2, d2) = prepared ok 3 (ins_edit \<lparr>e_msg_id = msgId, e_editor = editorId,
                                e_kind = msgKind, e_old = oldBody, e_new = newBody, e_at = nowMs\<rparr>) d1
                          in if r2 < 0 then (False, Some oldBody, rollback d d2)
                             else if ok Commit then (True, Some oldBody, d2)
                             else (False, Some oldBody, rollback d d2))))
         | _ \<Rightarrow> (False, None, d)))"

definition recallMessage :: "outcome \<Rightarrow> ms \<Rightarrow> string \<Rightarrow> uid \<Rightarrow> db \<Rightarrow> bool \<times> db" where
  "recallMessage ok nowMs msgId fromUserId d =
     (if \<not> ok Acquire then (False, d)
      else
        (let twoMinAgo = nowMs - 120000;
             P = (\<lambda>r. m_msg_id r = msgId \<and> m_from r = fromUserId \<and> m_timestamp r > twoMinAgo \<and> \<not> m_recalled r);
             f = (\<lambda>r. r\<lparr>m_recalled := True\<rparr>);
             (a1, d1) = exec ok 1 (upd_msgs 0 P f) d
         in if a1 \<le> 0
            then (let (a2, d2) = exec ok 2 (upd_msgs 1 P f) d1 in (a2 > 0, d2))
            else (a1 > 0, d1)))"

section \<open>Search\<close>

definition searchMessages :: "(string \<Rightarrow> string \<Rightarrow> bool) \<Rightarrow> outcome \<Rightarrow> uid \<Rightarrow> string \<Rightarrow> int \<Rightarrow> db \<Rightarrow> reply" where
  "searchMessages like ok u keyword limit d =
     (if keyword = [] \<or> length keyword < 2 then Inl ''keyword too short''
      else if \<not> ok Acquire then Inl ''db error''
      else
        (let hit = (\<lambda>r. like keyword (m_content r) \<and> \<not> m_recalled r);
             ps = (case query ok 1 (\<lambda>d. page limit 0 (filter (\<lambda>r. (m_from r = u \<or> m_peer r = u) \<and> hit r) (pmsgs d))) d of
                     Some rows \<Rightarrow> if limit < 0 then [] else rows | None \<Rightarrow> []);
             gs = (case query ok 2 (\<lambda>d. page limit 0 (filter (\<lambda>r. (m_peer r, u) \<in> set (gmembers d) \<and> hit r) (gmsgs d))) d of
                     Some rows \<Rightarrow> if limit < 0 then [] else rows | None \<Rightarrow> [])
         in Inr [(''messages'', JArr
              (map (\<lambda>r. jset (pm_json r) ''chatType'' (JStr ''private'')) ps @
               map (\<lambda>r. obj [(''msgId'', JStr (m_msg_id r)), (''from'', JInt (m_from r)),
                  (''groupId'', JInt (m_peer r)), (''content'', JStr (m_content r)),
                  (''timestamp'', JInt (m_timestamp r)), (''chatType'', JStr ''group'')]) gs))]))"

section \<open>Lemmas\<close>

lemma table_set_table [simp]:
  "table k (set_table k rows d) = rows" "edits (set_table k rows d) = edits d"
  by (simp_all add: table_def set_table_def)

lemma filter_before_strict:
  assumes "sorted_wrt (>) (map t xs)" "0 < n" "n \<le> length xs"
  shows "filter (\<lambda>x. t x < (t (last (take n xs)) :: int)) xs = drop n xs"
proof -
  have len: "length (take n xs) = n" using assms(3) by simp
  have l: "last (take n xs) = xs ! (n - 1)" using assms len
    by (metis diff_less last_conv_nth length_0_conv nth_take zero_less_one not_gr_zero)
  have "\<not> t x < t (xs ! (n - 1))" if "x \<in> set (take n xs)" for x
  proof -
    from that obtain i where i: "i < n" "x = xs ! i" using len by (auto simp: in_set_conv_nth)
    show ?thesis
    proof (cases "i = n - 1")
      case False
      with i assms have "t (xs ! i) > t (xs ! (n - 1))" by (auto simp: sorted_wrt_iff_nth_less)
      with i show ?thesis by simp
    qed (use i in simp)
  qed
  then have "filter (\<lambda>x. t x < t (xs ! (n - 1))) (take n xs) = []" by (auto simp: filter_empty_conv)
  moreover have "t x < t (xs ! (n - 1))" if "x \<in> set (drop n xs)" for x
  proof -
    from that obtain j where "j < length (drop n xs)" "x = drop n xs ! j" by (metis in_set_conv_nth)
    then have "n + j < length xs" "x = xs ! (n + j)" by simp_all
    then show ?thesis using assms by (auto simp: sorted_wrt_iff_nth_less)
  qed
  then have "filter (\<lambda>x. t x < t (xs ! (n - 1))) (drop n xs) = drop n xs" by (auto simp: filter_id_conv)
  moreover have "filter (\<lambda>x. t x < t (xs ! (n - 1))) xs =
      filter (\<lambda>x. t x < t (xs ! (n - 1))) (take n xs) @ filter (\<lambda>x. t x < t (xs ! (n - 1))) (drop n xs)"
    by (metis append_take_drop_id filter_append)
  ultimately show ?thesis unfolding l by simp
qed

lemma newest_first_strict:
  assumes "distinct (map m_timestamp rows)"
  shows "sorted_wrt (>) (map m_timestamp (sort_key (\<lambda>r. - m_timestamp r) rows))"
proof -
  let ?s = "sort_key (\<lambda>r. - m_timestamp r) rows"
  have "sorted (map (\<lambda>r. - m_timestamp r) ?s)" by simp
  moreover have "distinct (map (\<lambda>r. - m_timestamp r) ?s)"
    using assms by (simp add: distinct_map inj_on_def)
  ultimately have "sorted_wrt (<) (map (\<lambda>r. - m_timestamp r) ?s)" by (simp add: strict_sorted_iff)
  then show ?thesis by (simp add: sorted_wrt_map)
qed

lemma pages_append:
  assumes "distinct (map m_timestamp rows)" "\<forall>r \<in> set rows. 0 < m_timestamp r"
    "0 < n" "n \<le> int (length rows)" "0 \<le> m"
  shows "page n 0 rows @ page m (m_timestamp (last (page n 0 rows))) rows = page (n + m) 0 rows"
proof -
  let ?s = "sort_key (\<lambda>r. - m_timestamp r) rows"
  have p: "page k 0 rows = take (nat k) ?s" for k by (simp add: page_def)
  have ne: "take (nat n) ?s \<noteq> []" using assms(3,4) by (cases rows) auto
  then have "last (take (nat n) ?s) \<in> set rows"
    by (metis last_in_set set_take_subset set_sort subsetD)
  then have c: "0 < m_timestamp (last (take (nat n) ?s))" using assms(2) by blast
  have "sort_key (\<lambda>r. - m_timestamp r) (filter (\<lambda>r. m_timestamp r < m_timestamp (last (take (nat n) ?s))) rows) =
      filter (\<lambda>r. m_timestamp r < m_timestamp (last (take (nat n) ?s))) ?s"
    by (simp add: filter_sort)
  also have "\<dots> = drop (nat n) ?s"
    using filter_before_strict [OF newest_first_strict [OF assms(1)], of "nat n"] assms(3,4) by simp
  finally have "page m (m_timestamp (last (page n 0 rows))) rows = take (nat m) (drop (nat n) ?s)"
    unfolding p using c by (simp add: page_def)
  then show ?thesis unfolding p using assms(3,5) by (simp add: take_add nat_add_distrib)
qed

lemma find_unique:
  assumes "find (\<lambda>r. m_msg_id r = i) rows = Some row" "distinct (map m_msg_id rows)" "r \<in> set rows" "m_msg_id r = i"
  shows "r = row"
proof -
  have "row \<in> set rows" "m_msg_id row = i" using assms(1) by (auto simp: find_Some_iff)
  with assms(2-4) show ?thesis by (metis inj_onD distinct_map)
qed

text \<open>What a successful edit writes.\<close>

definition edited :: "ms \<Rightarrow> string \<Rightarrow> msg_row \<Rightarrow> msg_row" where
  "edited now body r = r\<lparr>m_content := body, m_edited_at := Some now,
     m_original := (if m_original r = None \<or> m_original r = Some [] then Some (m_content r) else m_original r)\<rparr>"

lemma upd_msgs_done:
  "prepared ok n (upd_msgs k P f) d = (r, d') \<Longrightarrow> 0 < r \<Longrightarrow>
   d' = set_table k (map (\<lambda>r. if P r then f r else r) (table k d)) d"
  by (auto simp: prepared_def upd_msgs_def split: if_splits)

lemma ins_edit_done:
  "prepared ok n (ins_edit e) d = (r, d') \<Longrightarrow> 0 \<le> r \<Longrightarrow> d' = d\<lparr>edits := edits d @ [e]\<rparr>"
  by (auto simp: prepared_def ins_edit_def split: if_splits)

lemma table_edits [simp]: "table k (d\<lparr>edits := x\<rparr>) = table k d"
  by (simp add: table_def)

lemma editMessage_success:
  assumes "editMessage ok now mid u body k d = (True, old, d')" "distinct (map m_msg_id (table k d))"
  shows "\<exists>row \<in> set (table k d). m_msg_id row = mid \<and> m_from row = u \<and> \<not> m_recalled row \<and>
    now - kEditWindowMs \<le> m_timestamp row \<and> old = Some (m_content row) \<and>
    d' = (set_table k (map (\<lambda>r. if m_msg_id r = mid then edited now body r else r) (table k d)) d)
      \<lparr>edits := edits d @ [\<lparr>e_msg_id = mid, e_editor = u, e_kind = k, e_old = m_content row,
                            e_new = body, e_at = now\<rparr>]\<rparr>"
proof -
  from assms(1) obtain row where row: "find (\<lambda>r. m_msg_id r = mid) (table k d) = Some row"
    by (auto simp: editMessage_def query_def split: if_splits option.splits)
  have mem: "row \<in> set (table k d)" "m_msg_id row = mid" using row by (auto simp: find_Some_iff)
  let ?P = "\<lambda>r. m_msg_id r = mid \<and> m_from r = u \<and> \<not> m_recalled r"
  let ?e = "\<lparr>e_msg_id = mid, e_editor = u, e_kind = k, e_old = m_content row, e_new = body, e_at = now\<rparr>"
  let ?f = "if (case m_original row of Some x \<Rightarrow> x | None \<Rightarrow> []) = []
      then (\<lambda>r. r\<lparr>m_content := body, m_edited_at := Some now, m_original := Some (m_content row)\<rparr>)
      else (\<lambda>r. r\<lparr>m_content := body, m_edited_at := Some now\<rparr>)"
  have g: "m_from row = u" "\<not> m_recalled row" "now - kEditWindowMs \<le> m_timestamp row"
    using assms(1) row by (auto simp: editMessage_def query_def Let_def split: if_splits option.splits)
  obtain r1 d1 where 1: "prepared ok 2 (upd_msgs k ?P ?f) d = (r1, d1)" by fastforce
  obtain r2 d2 where 2: "prepared ok 3 (ins_edit ?e) d1 = (r2, d2)" by fastforce
  have k: "0 < r1" "0 \<le> r2" "d' = d2" "old = Some (m_content row)"
    using assms(1) row g 1 2
    by (simp_all only: editMessage_def query_def Let_def split: if_split_asm option.split_asm)
      (auto split: if_split_asm)
  have f: "?f row = edited now body row" by (auto simp: edited_def split: option.splits)
  have m: "map (\<lambda>r. if ?P r then ?f r else r) (table k d) =
      map (\<lambda>r. if m_msg_id r = mid then edited now body r else r) (table k d)"
  proof (rule map_cong [OF refl])
    fix r assume "r \<in> set (table k d)"
    then have "r = row" if "m_msg_id r = mid" using find_unique [OF row assms(2)] that by blast
    then show "(if ?P r then ?f r else r) = (if m_msg_id r = mid then edited now body r else r)"
      using f g by metis
  qed
  from upd_msgs_done [OF 1 k(1)] ins_edit_done [OF 2 k(2)] k(3)
  have "d' = (set_table k (map (\<lambda>r. if m_msg_id r = mid then edited now body r else r) (table k d)) d)
      \<lparr>edits := edits d @ [?e]\<rparr>" unfolding m by simp
  with mem g k(4) show ?thesis by blast
qed

lemma editMessage_failure:
  "editMessage ok now mid u body k d = (False, old, d') \<Longrightarrow> unchanged d d'"
  by (auto simp: editMessage_def Let_def split: if_splits option.splits prod.splits)

section \<open>Integrity of the message tables\<close>

definition msgs_ok :: "db \<Rightarrow> bool" where
  "msgs_ok d \<longleftrightarrow> distinct (map m_msg_id (pmsgs d)) \<and> distinct (map m_msg_id (gmsgs d)) \<and> distinct (reactions d)"

lemma msgs_ok_table: "msgs_ok d \<Longrightarrow> distinct (map m_msg_id (table k d))"
  by (simp add: msgs_ok_def table_def)

lemma msgs_ok_set_table:
  "msgs_ok d \<Longrightarrow> distinct (map m_msg_id rows) \<Longrightarrow> msgs_ok (set_table k rows d)"
  by (simp add: msgs_ok_def set_table_def)

lemma msgs_ok_upd [simp]:
  "msgs_ok (d\<lparr>edits := x\<rparr>) = msgs_ok d" "msgs_ok (d\<lparr>outbox := y\<rparr>) = msgs_ok d" "msgs_ok (d\<lparr>seq := z\<rparr>) = msgs_ok d"
  by (simp_all add: msgs_ok_def)

lemma unchanged_msgs_ok: "unchanged d d' \<Longrightarrow> msgs_ok d' = msgs_ok d"
  by (simp add: msgs_ok_def unchanged_fields)

lemma ins_msg_ok: "msgs_ok d \<Longrightarrow> msgs_ok (snd (ins_msg k r d))"
  by (auto simp: ins_msg_def list_ex_iff msgs_ok_table intro!: msgs_ok_set_table) (metis)

lemma upd_msgs_ok:
  assumes "msgs_ok d" "\<And>r. m_msg_id (f r) = m_msg_id r"
  shows "msgs_ok (snd (upd_msgs k P f d))"
proof -
  have "map m_msg_id (map (\<lambda>r. if P r then f r else r) (table k d)) = map m_msg_id (table k d)"
    using assms(2) by simp
  with assms(1) show ?thesis
    unfolding upd_msgs_def snd_conv by (intro msgs_ok_set_table) (simp_all only: msgs_ok_table)
qed

lemma save_msgs_ok:
  assumes "msgs_ok d"
  shows "msgs_ok (snd (savePrivateMessage ok i f t c ts d))" "msgs_ok (snd (saveGroupMessage ok i g f c ts ms d))"
  using assms ins_msg_ok
  by (auto simp: savePrivateMessage_def savePrivateMessageTx_def saveGroupMessage_def prepared_def split: prod.splits)
    (metis snd_conv)+

lemma toggle_msgs_ok: "msgs_ok d \<Longrightarrow> msgs_ok (snd (snd (toggleReaction ok i u e d)))"
  by (auto simp: toggleReaction_def prepared_def del_reaction_def ins_reaction_def msgs_ok_def split: prod.splits)

lemma edit_msgs_ok:
  assumes "msgs_ok d"
  shows "msgs_ok (snd (snd (editMessage ok now i u b k d)))"
proof -
  obtain r old d' where e: "editMessage ok now i u b k d = (r, old, d')" by (metis prod_cases3)
  show ?thesis
  proof (cases r)
    case False
    with e have "unchanged d d'" using editMessage_failure by auto
    with assms e show ?thesis by (simp add: unchanged_msgs_ok)
  next
    case True
    let ?rows = "map (\<lambda>r. if m_msg_id r = i then edited now b r else r) (table k d)"
    have "map m_msg_id ?rows = map m_msg_id (table k d)" by (simp add: edited_def)
    then have "distinct (map m_msg_id ?rows)" using msgs_ok_table [OF assms, of k] by (simp only:)
    then have "msgs_ok (set_table k ?rows d)" by (rule msgs_ok_set_table [OF assms])
    moreover obtain es where "d' = (set_table k ?rows d)\<lparr>edits := es\<rparr>"
      using editMessage_success [of ok now i u b k d old d'] e True msgs_ok_table [OF assms] by auto
    ultimately show ?thesis using e by simp
  qed
qed

lemma recalled_same: "P r \<Longrightarrow> (\<not> m_recalled r) \<Longrightarrow> r\<lparr>m_recalled := True\<rparr> \<noteq> r"
  by (metis msg_row.select_convs(5) msg_row.surjective msg_row.update_convs(5))

text \<open>The statement of a recall on one table: it reports \<open>0\<close> exactly when nothing matches.\<close>

lemma recall_stmt:
  assumes "exec ok n (upd_msgs k (\<lambda>r. m_msg_id r = i \<and> m_from r = u \<and> m_timestamp r > lim \<and> \<not> m_recalled r)
      (\<lambda>r. r\<lparr>m_recalled := True\<rparr>)) d = (a, d')" "distinct (map m_msg_id (table k d))"
  shows "if a > 0 then (\<exists>row \<in> set (table k d). m_msg_id row = i \<and> m_from row = u \<and> lim < m_timestamp row \<and>
      \<not> m_recalled row) \<and>
      d' = set_table k (map (\<lambda>r. if m_msg_id r = i then r\<lparr>m_recalled := True\<rparr> else r) (table k d)) d
    else d' = d"
proof -
  let ?P = "\<lambda>r. m_msg_id r = i \<and> m_from r = u \<and> m_timestamp r > lim \<and> \<not> m_recalled r"
  let ?f = "\<lambda>r. r\<lparr>m_recalled := True\<rparr>"
  have ne: "filter (\<lambda>r. ?P r \<and> ?f r \<noteq> r) (table k d) = filter ?P (table k d)"
    using recalled_same [of ?P] by (intro filter_cong) auto
  show ?thesis
  proof (cases "ok (Exec n) \<and> (\<exists>row \<in> set (table k d). ?P row)")
    case True
    then obtain row where row: "row \<in> set (table k d)" "?P row" by blast
    have "r = row" if "r \<in> set (table k d)" "m_msg_id r = i" for r
      using that row assms(2) by (metis (no_types, lifting) distinct_map inj_onD)
    then have m: "map (\<lambda>r. if ?P r then ?f r else r) (table k d) =
        map (\<lambda>r. if m_msg_id r = i then ?f r else r) (table k d)"
      using row(2) by (intro map_cong) auto
    have "0 < a" using assms(1) True row ne
      by (auto simp: exec_def upd_msgs_def filter_empty_conv)
    moreover have "d' = set_table k (map (\<lambda>r. if ?P r then ?f r else r) (table k d)) d"
      using assms(1) True by (auto simp: exec_def upd_msgs_def)
    ultimately show ?thesis using row unfolding m by auto
  next
    case False
    have "map (\<lambda>r. if ?P r then ?f r else r) (table k d) = table k d" if "\<forall>row \<in> set (table k d). \<not> ?P row"
      using that by (intro map_idI) auto
    moreover have "set_table k (table k d) d = d" by (simp add: set_table_def table_def)
    ultimately show ?thesis using assms(1) False ne
      by (auto simp: exec_def upd_msgs_def split: if_splits)
  qed
qed

lemma recalled_hidden:
  assumes "d' = set_table k (map (\<lambda>r. if m_msg_id r = i then r\<lparr>m_recalled := True\<rparr> else r) (table k d)) d"
  shows "k = 0 \<Longrightarrow> \<forall>r \<in> set (conversation a b d'). m_msg_id r \<noteq> i"
    "k \<noteq> 0 \<Longrightarrow> \<forall>r \<in> set (group_log g d'). m_msg_id r \<noteq> i"
proof -
  have "m_msg_id x \<noteq> i" if x: "x \<in> set (table k d')" "\<not> m_recalled x" for x
  proof -
    from x(1) obtain y where "x = (if m_msg_id y = i then y\<lparr>m_recalled := True\<rparr> else y)"
      unfolding assms table_set_table set_map by (rule imageE)
    with x(2) show ?thesis by (cases "m_msg_id y = i") simp_all
  qed
  then show "k = 0 \<Longrightarrow> \<forall>r \<in> set (conversation a b d'). m_msg_id r \<noteq> i"
    "k \<noteq> 0 \<Longrightarrow> \<forall>r \<in> set (group_log g d'). m_msg_id r \<noteq> i"
    by (simp_all add: conversation_def group_log_def table_def)
qed

lemma recall_table:
  assumes "exec ok n (upd_msgs k (\<lambda>r. m_msg_id r = i \<and> m_from r = u \<and> m_timestamp r > lim \<and> \<not> m_recalled r)
      (\<lambda>r. r\<lparr>m_recalled := True\<rparr>)) d = (a, d')" "distinct (map m_msg_id (table k d))" "0 < a"
  shows "(\<exists>row \<in> set (table k d). m_msg_id row = i \<and> m_from row = u \<and> lim < m_timestamp row \<and> \<not> m_recalled row) \<and>
      d' = set_table k (map (\<lambda>r. if m_msg_id r = i then r\<lparr>m_recalled := True\<rparr> else r) (table k d)) d \<and>
      (\<forall>a b g. \<forall>x \<in> set (if k = 0 then conversation a b d' else group_log g d'). m_msg_id x \<noteq> i)"
proof -
  have s: "\<exists>row \<in> set (table k d). m_msg_id row = i \<and> m_from row = u \<and> lim < m_timestamp row \<and> \<not> m_recalled row"
    "d' = set_table k (map (\<lambda>r. if m_msg_id r = i then r\<lparr>m_recalled := True\<rparr> else r) (table k d)) d"
    using recall_stmt [OF assms(1,2)] assms(3) by argo+
  have "\<forall>x \<in> set (if k = 0 then conversation a b d' else group_log g d'). m_msg_id x \<noteq> i" for a b g
    using recalled_hidden [OF s(2)] by (cases "k = 0") simp_all
  with s show ?thesis by blast
qed

section \<open>Properties\<close>

definition sample_msg :: "string \<Rightarrow> ms \<Rightarrow> msg_row" where
  "sample_msg i t = new_msg i 1 2 ''hi'' t None"

definition sample_db :: db where
  "sample_db = empty_db\<lparr>pmsgs := [sample_msg ''a'' 1000, sample_msg ''b'' 2000]\<rparr>"

lemmas sample_defs = sample_db_def sample_msg_def new_msg_def empty_db_def

text \<open>
  C33. history paging is seamless. Where no two messages of a conversation have the same
  timestamp, a page of \<open>n\<close> messages followed by the page of \<open>m\<close> messages before its oldest
  timestamp is the page of \<open>n + m\<close>: nothing is skipped and nothing is repeated.
\<close>

theorem history_pages:
  assumes "ok Acquire" "ok (Query 1)"
    "distinct (map m_timestamp (conversation u v d))" "\<forall>r \<in> set (conversation u v d). 0 < m_timestamp r"
    "0 < n" "n \<le> int (length (conversation u v d))" "0 \<le> m"
  shows "\<exists>xs ys. getPrivateHistory ok u v n 0 d = JArr (map pm_json xs) \<and> length xs = nat n \<and>
    getPrivateHistory ok u v m (m_timestamp (last xs)) d = JArr (map pm_json ys) \<and>
    getPrivateHistory ok u v (n + m) 0 d = JArr (map pm_json (xs @ ys))"
proof (intro exI conjI)
  let ?c = "conversation u v d"
  let ?xs = "page n 0 ?c"
  let ?ys = "page m (m_timestamp (last ?xs)) ?c"
  show "getPrivateHistory ok u v n 0 d = JArr (map pm_json ?xs)" "length ?xs = nat n"
    using assms by (simp_all add: getPrivateHistory_def query_def page_def)
  show "getPrivateHistory ok u v m (m_timestamp (last ?xs)) d = JArr (map pm_json ?ys)"
    using assms by (simp add: getPrivateHistory_def query_def)
  show "getPrivateHistory ok u v (n + m) 0 d = JArr (map pm_json (?xs @ ?ys))"
    using assms pages_append [OF assms(3-7)] by (simp add: getPrivateHistory_def query_def)
qed

theorem history_pages_witness:
  "\<exists>xs ys. getPrivateHistory (\<lambda>_. True) 1 2 1 0 sample_db = JArr (map pm_json xs) \<and> length xs = nat 1 \<and>
    getPrivateHistory (\<lambda>_. True) 1 2 1 (m_timestamp (last xs)) sample_db = JArr (map pm_json ys) \<and>
    getPrivateHistory (\<lambda>_. True) 1 2 (1 + 1) 0 sample_db = JArr (map pm_json (xs @ ys))"
  by (rule history_pages) (simp_all add: conversation_def sample_defs)

text \<open>
  an edit that reports success was made by the author of a message that is not
  recalled, at most fifteen minutes after it was sent; it replaces the text of exactly that
  message, keeps the first text as its original, and adds one row to the edit log. An edit
  that reports failure, at whatever step, leaves every table as it was.
\<close>

theorem editMessage_effect:
  assumes "editMessage ok now mid u body k d = (r, old, d')" "distinct (map m_msg_id (table k d))"
  shows "if r then \<exists>row \<in> set (table k d). m_msg_id row = mid \<and> m_from row = u \<and> \<not> m_recalled row \<and>
      now - kEditWindowMs \<le> m_timestamp row \<and> old = Some (m_content row) \<and>
      d' = (set_table k (map (\<lambda>x. if m_msg_id x = mid then edited now body x else x) (table k d)) d)
        \<lparr>edits := edits d @ [\<lparr>e_msg_id = mid, e_editor = u, e_kind = k, e_old = m_content row,
                              e_new = body, e_at = now\<rparr>]\<rparr>
    else unchanged d d'"
  using editMessage_success [of ok now mid u body k d old d'] editMessage_failure [of ok now mid u body k d old d'] assms
  by (cases r) simp_all

theorem editMessage_effect_witness:
  "\<exists>row \<in> set (table 0 sample_db). m_msg_id row = ''a'' \<and> m_from row = 1 \<and> \<not> m_recalled row \<and>
      5000 - kEditWindowMs \<le> m_timestamp row \<and>
      Some ''hi'' = Some (m_content row) \<and>
      snd (snd (editMessage (\<lambda>_. True) 5000 ''a'' 1 ''ho'' 0 sample_db)) =
      (set_table 0 (map (\<lambda>x. if m_msg_id x = ''a'' then edited 5000 ''ho'' x else x) (table 0 sample_db)) sample_db)
        \<lparr>edits := edits sample_db @ [\<lparr>e_msg_id = ''a'', e_editor = 1, e_kind = 0, e_old = m_content row,
                              e_new = ''ho'', e_at = 5000\<rparr>]\<rparr>"
proof -
  have "editMessage (\<lambda>_. True) 5000 ''a'' 1 ''ho'' 0 sample_db =
      (True, Some ''hi'', snd (snd (editMessage (\<lambda>_. True) 5000 ''a'' 1 ''ho'' 0 sample_db)))"
    by (simp add: editMessage_def query_def prepared_def upd_msgs_def ins_edit_def table_def set_table_def
        kEditWindowMs_def Let_def sample_defs)
  from editMessage_effect [OF this] show ?thesis by (simp add: table_def sample_defs)
qed

text \<open>
  a recall that reports success was asked by the author of a message sent less than two
  minutes ago and not recalled before; it marks exactly that message, after which no history
  of its table shows it. A recall that reports failure changes nothing.
\<close>

theorem recallMessage_effect:
  assumes "recallMessage ok now mid u d = (r, d')" "msgs_ok d"
  shows "if r then \<exists>k \<in> {0, 1}. (\<exists>row \<in> set (table k d). m_msg_id row = mid \<and> m_from row = u \<and>
        now - 120000 < m_timestamp row \<and> \<not> m_recalled row) \<and>
      d' = set_table k (map (\<lambda>x. if m_msg_id x = mid then x\<lparr>m_recalled := True\<rparr> else x) (table k d)) d \<and>
      (\<forall>a b g. \<forall>x \<in> set (if k = 0 then conversation a b d' else group_log g d'). m_msg_id x \<noteq> mid)
    else d' = d"
proof -
  let ?P = "\<lambda>r. m_msg_id r = mid \<and> m_from r = u \<and> m_timestamp r > now - 120000 \<and> \<not> m_recalled r"
  let ?done = "\<lambda>k d'. (\<exists>row \<in> set (table k d). m_msg_id row = mid \<and> m_from row = u \<and>
        now - 120000 < m_timestamp row \<and> \<not> m_recalled row) \<and>
      d' = set_table k (map (\<lambda>x. if m_msg_id x = mid then x\<lparr>m_recalled := True\<rparr> else x) (table k d)) d \<and>
      (\<forall>a b g. \<forall>x \<in> set (if k = 0 then conversation a b d' else group_log g d'). m_msg_id x \<noteq> mid)"
  obtain a1 d1 where 1: "exec ok 1 (upd_msgs 0 ?P (\<lambda>r. r\<lparr>m_recalled := True\<rparr>)) d = (a1, d1)" by fastforce
  obtain a2 d2 where 2: "exec ok 2 (upd_msgs 1 ?P (\<lambda>r. r\<lparr>m_recalled := True\<rparr>)) d1 = (a2, d2)" by fastforce
  note dist = msgs_ok_table [OF assms(2)]
  show ?thesis
  proof (cases "0 < a1")
    case True
    with assms(1) [unfolded recallMessage_def Let_def 1 prod.case]
    have c: "d' = (if ok Acquire then d1 else d)" "r = ok Acquire" by (simp_all split: if_splits)
    have "\<exists>k \<in> {0, 1}. ?done k d1" by (rule bexI [of _ 0], rule recall_table [OF 1 dist True]) simp
    with c show ?thesis by (cases r) (simp_all only: if_True if_False)
  next
    case False
    with recall_stmt [OF 1 dist] have d1: "d1 = d" by simp
    from False assms(1) [unfolded recallMessage_def Let_def 1 2 prod.case]
    have c: "d' = (if ok Acquire then d2 else d)" "r = (ok Acquire \<and> 0 < a2)" by (simp_all split: if_splits)
    note 2 = 2 [unfolded d1]
    show ?thesis
    proof (cases r)
      case True
      with c have a2: "0 < a2" by simp
      have "\<exists>k \<in> {0, 1}. ?done k d2" by (rule bexI [of _ 1], rule recall_table [OF 2 dist a2]) simp
      with c True show ?thesis by (simp only: if_True simp_thms)
    next
      case False
      with c recall_stmt [OF 2 dist] show ?thesis by (auto split: if_splits)
    qed
  qed
qed

text \<open>
  two taps of the same emoji cancel out: where the database answers, a reaction is added
  when absent and removed when present, no other reaction changes, and a second toggle gives
  the original reactions back.
\<close>

theorem toggleReaction_involution:
  assumes "mid \<noteq> []" "emoji \<noteq> []" "length emoji \<le> 16" "\<forall>c. ok c"
    "toggleReaction ok mid u emoji d = (r1, a1, d1)" "toggleReaction ok mid u emoji d1 = (r2, a2, d2)"
  shows "r1 \<and> r2 \<and> a1 = Some ((mid, u, emoji) \<notin> set (reactions d)) \<and>
    set (reactions d1) = (if (mid, u, emoji) \<in> set (reactions d) then set (reactions d) - {(mid, u, emoji)}
      else insert (mid, u, emoji) (set (reactions d))) \<and>
    set (reactions d2) = set (reactions d)"
  using assms by (auto simp: toggleReaction_def query_def prepared_def del_reaction_def ins_reaction_def
      split: if_splits)

theorem toggleReaction_involution_witness:
  "\<exists>r1 a1 d1 r2 a2 d2. toggleReaction (\<lambda>_. True) ''a'' 1 ''+'' sample_db = (r1, a1, d1) \<and>
    toggleReaction (\<lambda>_. True) ''a'' 1 ''+'' d1 = (r2, a2, d2) \<and>
    r1 \<and> r2 \<and> a1 = Some True \<and> set (reactions d2) = set (reactions sample_db)"
proof -
  obtain r1 a1 d1 where 1: "toggleReaction (\<lambda>_. True) ''a'' 1 ''+'' sample_db = (r1, a1, d1)" by (metis prod_cases3)
  obtain r2 a2 d2 where 2: "toggleReaction (\<lambda>_. True) ''a'' 1 ''+'' d1 = (r2, a2, d2)" by (metis prod_cases3)
  from toggleReaction_involution [OF _ _ _ _ 1 2] 1 2 show ?thesis by (auto simp: sample_defs)
qed

theorem recallMessage_effect_witness:
  "\<exists>k \<in> {0, 1}. (\<exists>row \<in> set (table k sample_db). m_msg_id row = ''b'' \<and> m_from row = 1 \<and>
        5000 - 120000 < m_timestamp row \<and> \<not> m_recalled row) \<and>
      snd (recallMessage (\<lambda>_. True) 5000 ''b'' 1 sample_db) =
        set_table k (map (\<lambda>x. if m_msg_id x = ''b'' then x\<lparr>m_recalled := True\<rparr> else x) (table k sample_db)) sample_db"
proof -
  have "recallMessage (\<lambda>_. True) 5000 ''b'' 1 sample_db =
      (True, snd (recallMessage (\<lambda>_. True) 5000 ''b'' 1 sample_db))"
    by (simp add: recallMessage_def exec_def upd_msgs_def table_def set_table_def sample_defs)
  from recallMessage_effect [OF this] show ?thesis by (auto simp: msgs_ok_def sample_defs)
qed

end
