(* ===== verification/Outbox.thy ===== *)
theory Outbox
  imports Messages
begin

text \<open>
  The transactional outbox: \<^verbatim>\<open>src/src/server/OutboxService.h\<close> and the transaction of
  \<^verbatim>\<open>ChatServer::handlePrivateMessage\<close> that feeds it. A relay is the background thread of one
  server process; several processes share the table. The Kafka producer is an argument: a
  \<^verbatim>\<open>produce\<close> call is queued or refused, a queued row is answered later by one delivery report,
  a positive report means that the row is in the topic, and rows in flight at a crash may
  or may not have reached it. \<^verbatim>\<open>dump\<close> (the JSON printer) is an argument.
\<close>

section \<open>Statements\<close>

definition ins_outbox :: "ms \<Rightarrow> string \<Rightarrow> string \<Rightarrow> string \<Rightarrow> stmt" where
  "ins_outbox now topic key payload d =
     (1, d\<lparr>outbox := outbox d @ [\<lparr>o_id = next_outbox (seq d), o_topic = topic, o_key = key, o_payload = payload,
            o_status = Pending, o_retry = 0, o_created = now, o_error = None\<rparr>],
          seq := (seq d)\<lparr>next_outbox := next_outbox (seq d) + 1\<rparr>\<rparr>)"

definition upd_outbox :: "(outbox_row \<Rightarrow> bool) \<Rightarrow> (outbox_row \<Rightarrow> outbox_row) \<Rightarrow> stmt" where
  "upd_outbox P f d =
     (int (length (filter (\<lambda>r. P r \<and> f r \<noteq> r) (outbox d))),
      d\<lparr>outbox := map (\<lambda>r. if P r then f r else r) (outbox d)\<rparr>)"

definition insertOutbox :: "outcome \<Rightarrow> nat \<Rightarrow> ms \<Rightarrow> string \<Rightarrow> string \<Rightarrow> string \<Rightarrow> db \<Rightarrow> bool \<times> db" where
  "insertOutbox ok n now topic key payload d =
     (let (r, d') = prepared ok n (ins_outbox now topic key payload) d in (r > 0, d'))"

section \<open>The writing transaction\<close>

definition convKey :: "uid \<Rightarrow> uid \<Rightarrow> string" where
  "convKey a b = to_string (min a b) @ '':'' @ to_string (max a b)"

definition kafkaPayload :: "string \<Rightarrow> uid \<Rightarrow> uid \<Rightarrow> string \<Rightarrow> ms \<Rightarrow> json" where
  "kafkaPayload msgId from to content ts = obj [(''type'', JStr ''private''), (''msgId'', JStr msgId),
     (''convId'', JStr (convKey from to)), (''from'', JInt from), (''to'', JInt to),
     (''content'', JStr content), (''timestamp'', JInt ts)]"

text \<open>The second statement is sent even if the first failed; both are committed or neither.\<close>

definition persistOutbox :: "(json \<Rightarrow> string) \<Rightarrow> outcome \<Rightarrow> string \<Rightarrow> uid \<Rightarrow> uid \<Rightarrow> string \<Rightarrow> ms \<Rightarrow> db \<Rightarrow> bool \<times> db" where
  "persistOutbox dump ok msgId from to content ts d =
     (if \<not> ok Acquire then (False, d)
      else if \<not> ok Begin then (False, d)
      else
        (let (savedRow, d1) = savePrivateMessageTx ok msgId from to content ts d;
             (outboxRow, d2) = insertOutbox ok 2 ts ''im.messages'' (convKey from to)
               (dump (kafkaPayload msgId from to content ts)) d1
         in tx ok (savedRow \<and> outboxRow, d2) d))"

section \<open>The relay\<close>

definition selectPending :: "nat \<Rightarrow> db \<Rightarrow> outbox_row list" where
  "selectPending batch d = take batch (sort_key o_id (filter (\<lambda>r. o_status r = Pending) (outbox d)))"

definition claim_row :: "int \<Rightarrow> stmt" where
  "claim_row i = upd_outbox (\<lambda>r. o_id r = i \<and> o_status r = Pending) (\<lambda>r. r\<lparr>o_status := Sending\<rparr>)"

definition claim_one :: "outcome \<Rightarrow> nat \<Rightarrow> outbox_row \<Rightarrow> outbox_row list \<times> db \<Rightarrow> outbox_row list \<times> db" where
  "claim_one ok n row s =
     (let (k, d') = prepared ok n (claim_row (o_id row)) (snd s)
      in (if k = 1 then fst s @ [row] else fst s, d'))"

fun claim_all :: "outcome \<Rightarrow> nat \<Rightarrow> outbox_row list \<Rightarrow> outbox_row list \<times> db \<Rightarrow> outbox_row list \<times> db" where
  "claim_all ok n [] s = s"
| "claim_all ok n (row # rows) s = claim_all ok (Suc n) rows (claim_one ok n row s)"

definition onDelivery :: "outcome \<Rightarrow> int \<Rightarrow> bool \<Rightarrow> string \<Rightarrow> db \<Rightarrow> db" where
  "onDelivery ok i good err d =
     (if \<not> ok Acquire then d
      else if good
           then snd (prepared ok 1 (upd_outbox (\<lambda>r. o_id r = i) (\<lambda>r. r\<lparr>o_status := Sent\<rparr>)) d)
           else snd (prepared ok 2 (upd_outbox (\<lambda>r. o_id r = i)
                  (\<lambda>r. r\<lparr>o_status := Pending, o_retry := o_retry r + 1, o_error := Some (take 500 err)\<rparr>)) d))"

text \<open>
  Producing the claimed rows: \<open>queued\<close> says which rows the producer accepts, \<open>dok\<close> gives the
  outcomes of the database calls made for a refused one. The accepted rows are in flight.
\<close>

definition produce_one :: "(int \<Rightarrow> outcome) \<Rightarrow> (int \<Rightarrow> bool) \<Rightarrow> outbox_row \<Rightarrow> outbox_row list \<times> db \<Rightarrow> outbox_row list \<times> db" where
  "produce_one dok queued row s =
     (if queued (o_id row) then (fst s @ [row], snd s)
      else (fst s, onDelivery (dok (o_id row)) (o_id row) False ''local queue full'' (snd s)))"

definition drainOnce :: "outcome \<Rightarrow> (int \<Rightarrow> outcome) \<Rightarrow> (int \<Rightarrow> bool) \<Rightarrow> nat \<Rightarrow> db \<Rightarrow> nat \<times> outbox_row list \<times> db" where
  "drainOnce ok dok queued batch d =
     (if \<not> ok Acquire then (0, [], d)
      else
        (case query ok 0 (selectPending batch) d of
           None \<Rightarrow> (0, [], d)
         | Some rows \<Rightarrow>
             if rows = [] then (0, [], d)
             else
               (let (claimed, d1) = claim_all ok 1 rows ([], d);
                    (inflight, d2) = fold (produce_one dok queued) claimed ([], d1)
                in (length claimed, inflight, d2))))"

definition reclaimStuckSending :: "outcome \<Rightarrow> ms \<Rightarrow> int \<Rightarrow> db \<Rightarrow> db" where
  "reclaimStuckSending ok now olderThanSec d =
     (if \<not> ok Acquire then d
      else snd (prepared ok 1 (upd_outbox (\<lambda>r. o_status r = Sending \<and> o_created r < now - olderThanSec * 1000)
             (\<lambda>r. r\<lparr>o_status := Pending\<rparr>)) d))"

section \<open>Several relays on one table\<close>

text \<open>
  One relay process: whether it runs, the rows it has selected and not yet tried to claim,
  the rows it has claimed and not yet produced, and the rows whose report is outstanding.
\<close>

record relay =
  up :: bool
  todo :: "outbox_row list"
  claimed :: "outbox_row list"
  inflight :: "outbox_row list"

record bus =
  store :: db
  relays :: "nat \<Rightarrow> relay"
  topic :: "outbox_row list"

definition idle :: "bool \<Rightarrow> relay" where
  "idle b = \<lparr>up = b, todo = [], claimed = [], inflight = []\<rparr>"

definition set_relay :: "nat \<Rightarrow> relay \<Rightarrow> bus \<Rightarrow> bus" where
  "set_relay i r s = s\<lparr>relays := (relays s)(i := r)\<rparr>"

text \<open>
  The steps interleave freely between processes and with delivery reports. With \<open>strict\<close>
  a relay is started only while no other relay holds a claimed row.
\<close>

inductive bus_step :: "(json \<Rightarrow> string) \<Rightarrow> bool \<Rightarrow> bus \<Rightarrow> bus \<Rightarrow> bool" for dump strict where
  Write: "bus_step dump strict s (s\<lparr>store := snd (persistOutbox dump ok msgId a b content ts (store s))\<rparr>)"
| Select: "up (relays s i) \<Longrightarrow> todo (relays s i) = [] \<Longrightarrow> claimed (relays s i) = [] \<Longrightarrow>
    bus_step dump strict s (set_relay i ((relays s i)\<lparr>todo := selectPending batch (store s)\<rparr>) s)"
| Claim: "todo (relays s i) = row # rows \<Longrightarrow> claim_one ok n row (claimed (relays s i), store s) = (cs, d') \<Longrightarrow>
    bus_step dump strict s ((set_relay i ((relays s i)\<lparr>todo := rows, claimed := cs\<rparr>) s)\<lparr>store := d'\<rparr>)"
| Produce: "todo (relays s i) = [] \<Longrightarrow> claimed (relays s i) = row # rows \<Longrightarrow>
    produce_one dok queued row (inflight (relays s i), store s) = (fl, d') \<Longrightarrow>
    bus_step dump strict s ((set_relay i ((relays s i)\<lparr>claimed := rows, inflight := fl\<rparr>) s)\<lparr>store := d'\<rparr>)"
| Report: "row \<in> set (inflight (relays s i)) \<Longrightarrow> good \<longrightarrow> landed \<Longrightarrow>
    bus_step dump strict s ((set_relay i ((relays s i)\<lparr>inflight := remove1 row (inflight (relays s i))\<rparr>) s)
      \<lparr>store := onDelivery ok (o_id row) good err (store s),
       topic := (if landed then topic s @ [row] else topic s)\<rparr>)"
| Crash: "set landed_rows \<subseteq> set (inflight (relays s i)) \<Longrightarrow>
    bus_step dump strict s ((set_relay i (idle False) s)\<lparr>topic := topic s @ landed_rows\<rparr>)"
| Start: "\<not> up (relays s i) \<Longrightarrow> (strict \<longrightarrow> (\<forall>j. claimed (relays s j) = [] \<and> inflight (relays s j) = [])) \<Longrightarrow>
    bus_step dump strict s ((set_relay i (idle True) s)\<lparr>store := reclaimStuckSending ok now 60 (store s)\<rparr>)"

definition init_bus :: bus where
  "init_bus = \<lparr>store = empty_db, relays = (\<lambda>_. idle False), topic = []\<rparr>"

inductive bus_reach :: "(json \<Rightarrow> string) \<Rightarrow> bool \<Rightarrow> bus \<Rightarrow> bool" for dump strict where
  Init: "bus_reach dump strict init_bus"
| Step: "bus_reach dump strict s \<Longrightarrow> bus_step dump strict s s' \<Longrightarrow> bus_reach dump strict s'"

inductive_cases bus_stepE: "bus_step dump strict s s'"

section \<open>Rows by number\<close>

definition row_of :: "db \<Rightarrow> int \<Rightarrow> outbox_row option" where
  "row_of d i = map_of (map (\<lambda>r. (o_id r, r)) (outbox d)) i"

definition outbox_ok :: "db \<Rightarrow> bool" where
  "outbox_ok d \<longleftrightarrow> distinct (map o_id (outbox d)) \<and> (\<forall>r \<in> set (outbox d). o_id r < next_outbox (seq d))"

definition content :: "outbox_row \<Rightarrow> string \<times> string \<times> string" where
  "content r = (o_topic r, o_key r, o_payload r)"

lemma row_of_id: "row_of d i = Some r \<Longrightarrow> r \<in> set (outbox d) \<and> o_id r = i"
  unfolding row_of_def by (drule map_of_SomeD) auto

lemma row_of_in: "outbox_ok d \<Longrightarrow> r \<in> set (outbox d) \<Longrightarrow> row_of d (o_id r) = Some r"
  unfolding row_of_def outbox_ok_def by (intro map_of_is_SomeI) (auto simp: comp_def)

lemma map_of_upd_rows:
  assumes "\<And>r. o_id (f r) = o_id r"
  shows "map_of (map (\<lambda>r. (o_id r, r)) (map (\<lambda>r. if P r then f r else r) rs)) i =
    map_option (\<lambda>r. if P r then f r else r) (map_of (map (\<lambda>r. (o_id r, r)) rs) i)"
  using assms by (induction rs) auto

lemma row_of_upd:
  assumes "\<And>r. o_id (f r) = o_id r"
  shows "row_of (snd (upd_outbox P f d)) i = map_option (\<lambda>r. if P r then f r else r) (row_of d i)"
  by (simp add: row_of_def upd_outbox_def map_of_upd_rows [OF assms] del: map_map)

lemma outbox_ok_upd:
  assumes "outbox_ok d" "\<And>r. o_id (f r) = o_id r"
  shows "outbox_ok (snd (upd_outbox P f d))"
proof -
  have "map o_id (map (\<lambda>r. if P r then f r else r) (outbox d)) = map o_id (outbox d)" using assms(2) by simp
  with assms show ?thesis by (auto simp: outbox_ok_def upd_outbox_def simp del: map_map)
qed

text \<open>What every step of the relay does to the table: rows stay, with their content.\<close>

definition evolves :: "db \<Rightarrow> db \<Rightarrow> bool" where
  "evolves d d' \<longleftrightarrow> set (pmsgs d) \<subseteq> set (pmsgs d') \<and>
     (\<forall>i r. row_of d i = Some r \<longrightarrow> (\<exists>r'. row_of d' i = Some r' \<and> content r' = content r))"

lemma evolves_refl [simp]: "evolves d d"
  by (simp add: evolves_def)

lemma evolves_upd:
  assumes "\<And>r. o_id (f r) = o_id r" "\<And>r. content (f r) = content r"
  shows "evolves d (snd (upd_outbox P f d))"
  by (auto simp: evolves_def row_of_upd [OF assms(1)] assms(2)) (simp add: upd_outbox_def)

lemmas status_upd = row_of_upd outbox_ok_upd evolves_upd

lemma onDelivery_row:
  "row_of (onDelivery ok i good err d) j = (if i = j \<and> ok Acquire \<and>
      (if good then ok (Prepare 1) \<and> ok (Exec 1) else ok (Prepare 2) \<and> ok (Exec 2))
    then map_option (\<lambda>r. if good then r\<lparr>o_status := Sent\<rparr>
      else r\<lparr>o_status := Pending, o_retry := o_retry r + 1, o_error := Some (take 500 err)\<rparr>) (row_of d j)
    else row_of d j)"
  by (cases "row_of d j") (auto simp: onDelivery_def prepared_def row_of_upd dest: row_of_id)

lemma onDelivery_other: "i \<noteq> j \<Longrightarrow> row_of (onDelivery ok i good err d) j = row_of d j"
  by (simp add: onDelivery_row)

lemma onDelivery_ok:
  "outbox_ok d \<Longrightarrow> outbox_ok (onDelivery ok i good err d)"
  by (simp add: onDelivery_def prepared_def outbox_ok_upd)

lemma onDelivery_evolves: "evolves d (onDelivery ok i good err d)"
  by (simp add: onDelivery_def prepared_def evolves_upd content_def)

lemma reclaim_ok: "outbox_ok d \<Longrightarrow> outbox_ok (reclaimStuckSending ok now t d)"
  by (simp add: reclaimStuckSending_def prepared_def outbox_ok_upd)

lemma reclaim_evolves: "evolves d (reclaimStuckSending ok now t d)"
  by (simp add: reclaimStuckSending_def prepared_def evolves_upd content_def)

lemma filter_single: "distinct xs \<Longrightarrow> x \<in> set xs \<Longrightarrow> length (filter (\<lambda>y. y = x) xs) = 1"
  by (induction xs) (auto simp: filter_empty_conv)

text \<open>The compare-and-set of a claim: it reports 1 exactly when the row was pending.\<close>

lemma claim_row_spec:
  assumes "outbox_ok d" "prepared ok n (claim_row i) d = (k, d')"
  shows "outbox_ok d' \<and> evolves d d' \<and> (\<forall>j. j \<noteq> i \<longrightarrow> row_of d' j = row_of d j) \<and>
    (if k = 1 then \<exists>r. row_of d i = Some r \<and> o_status r = Pending \<and> row_of d' i = Some (r\<lparr>o_status := Sending\<rparr>)
     else row_of d' i = row_of d i)"
proof (cases "ok (Prepare n) \<and> ok (Exec n)")
  case False
  with assms show ?thesis by (auto simp: prepared_def)
next
  case True
  let ?P = "\<lambda>r. o_id r = i \<and> o_status r = Pending"
  let ?f = "\<lambda>r. r\<lparr>o_status := Sending\<rparr>"
  have f: "?f r \<noteq> r" if "?P r" for r
    using that by (metis outbox_row.select_convs(5) outbox_row.surjective outbox_row.update_convs(5) outbox_status.distinct(1))
  have d': "d' = snd (upd_outbox ?P ?f d)" using assms(2) True
    by (simp add: prepared_def claim_row_def split: if_splits)
  have "filter (\<lambda>r. ?P r \<and> ?f r \<noteq> r) (outbox d) = filter ?P (outbox d)" using f by (intro filter_cong) auto
  then have k: "k = int (length (filter ?P (outbox d)))" using assms(2) True
    by (simp add: prepared_def claim_row_def upd_outbox_def)
  have base: "outbox_ok d'" "evolves d d'" "\<forall>j. row_of d' j = map_option (\<lambda>r. if ?P r then ?f r else r) (row_of d j)"
    using assms(1) unfolding d' by (simp_all add: status_upd content_def)
  have other: "\<forall>j. j \<noteq> i \<longrightarrow> row_of d' j = row_of d j"
  proof (intro allI impI)
    fix j assume "j \<noteq> i"
    then show "row_of d' j = row_of d j" using base(3) by (cases "row_of d j") (auto dest: row_of_id)
  qed
  show ?thesis
  proof (cases "\<exists>r. row_of d i = Some r \<and> o_status r = Pending")
    case True
    then obtain r where r: "row_of d i = Some r" "o_status r = Pending" by blast
    have u: "q = r" if "q \<in> set (outbox d)" "o_id q = i" for q
      using row_of_in [OF assms(1) that(1)] that(2) r(1) by simp
    have "filter ?P (outbox d) = filter (\<lambda>q. q = r) (outbox d)"
      using r(2) row_of_id [OF r(1)] u by (intro filter_cong) blast+
    moreover have "distinct (outbox d)" using assms(1) by (simp add: outbox_ok_def distinct_map)
    then have "length (filter (\<lambda>q. q = r) (outbox d)) = 1"
      using row_of_id [OF r(1)] by (intro filter_single) blast+
    ultimately show ?thesis using base other r row_of_id [OF r(1)] k by auto
  next
    case False
    then have "filter ?P (outbox d) = []" using row_of_in [OF assms(1)] by (auto simp: filter_empty_conv)
    with k False base other show ?thesis by (cases "row_of d i") (auto dest: row_of_id)
  qed
qed

text \<open>The writing transaction: both rows or none.\<close>

lemma new_msg_id: "m_msg_id (new_msg i a b c t m) = i"
  by (simp add: new_msg_def)

lemma persistOutbox_spec:
  assumes "persistOutbox dump ok i a b c ts d = (r, d')"
  shows "if r then (\<forall>x \<in> set (pmsgs d). m_msg_id x \<noteq> i) \<and> d' = snd (ins_outbox ts ''im.messages'' (convKey a b)
      (dump (kafkaPayload i a b c ts)) (d\<lparr>pmsgs := pmsgs d @ [new_msg i a b c ts None]\<rparr>))
    else unchanged d d' \<and> next_outbox (seq d) \<le> next_outbox (seq d')"
  using assms
  by (auto simp: persistOutbox_def savePrivateMessageTx_def insertOutbox_def prepared_def ins_msg_def ins_outbox_def
      tx_def table_def set_table_def unchanged_def rollback_def list_ex_iff new_msg_id Let_def split: if_splits prod.splits)

lemma row_of_fresh: "outbox_ok d \<Longrightarrow> row_of d (next_outbox (seq d)) = None"
  using row_of_id [of d "next_outbox (seq d)"]
  by (cases "row_of d (next_outbox (seq d))") (auto simp: outbox_ok_def)

lemma row_of_snoc:
  "outbox_ok d \<Longrightarrow> row_of (snd (ins_outbox now t k p (d\<lparr>pmsgs := ms\<rparr>))) i =
    (if i = next_outbox (seq d) then Some (last (outbox (snd (ins_outbox now t k p d)))) else row_of d i)"
  using row_of_fresh [of d] by (cases "row_of d i") (auto simp: row_of_def ins_outbox_def map_add_def)

lemma persist_ok:
  assumes "outbox_ok d"
  shows "outbox_ok (snd (persistOutbox dump ok i a b c ts d)) \<and> evolves d (snd (persistOutbox dump ok i a b c ts d))"
proof -
  obtain r d' where e: "persistOutbox dump ok i a b c ts d = (r, d')" by fastforce
  note s = persistOutbox_spec [OF e]
  show ?thesis
  proof (cases r)
    case False
    with s have u: "unchanged d d'" "next_outbox (seq d) \<le> next_outbox (seq d')" by auto
    with assms e show ?thesis
      by (fastforce simp: outbox_ok_def evolves_def row_of_def unchanged_fields [OF u(1)])
  next
    case True
    with s have d': "d' = snd (ins_outbox ts ''im.messages'' (convKey a b)
      (dump (kafkaPayload i a b c ts)) (d\<lparr>pmsgs := pmsgs d @ [new_msg i a b c ts None]\<rparr>))" by simp
    have "evolves d d'" unfolding evolves_def d' row_of_snoc [OF assms]
      using row_of_fresh [OF assms] by (auto simp: ins_outbox_def)
    moreover have "outbox_ok d'" using assms unfolding d' by (auto simp: outbox_ok_def ins_outbox_def)
    ultimately show ?thesis using e by simp
  qed
qed

section \<open>Invariants of the relays\<close>

definition holds :: "relay \<Rightarrow> int list" where
  "holds r = map o_id (claimed r @ inflight r)"

definition sending :: "db \<Rightarrow> int \<Rightarrow> bool" where
  "sending d i \<longleftrightarrow> (\<exists>r. row_of d i = Some r \<and> o_status r = Sending)"

text \<open>Every row is held by at most one relay, at most once, and is marked as being sent.\<close>

definition exclusive :: "bus \<Rightarrow> bool" where
  "exclusive s \<longleftrightarrow> (\<forall>i. distinct (holds (relays s i))) \<and>
     (\<forall>i j. i \<noteq> j \<longrightarrow> set (holds (relays s i)) \<inter> set (holds (relays s j)) = {}) \<and>
     (\<forall>i. \<forall>x \<in> set (holds (relays s i)). sending (store s) x)"

text \<open>Every copy of a row is a row of the table, and a row marked sent is in the topic.\<close>

definition known :: "db \<Rightarrow> outbox_row \<Rightarrow> bool" where
  "known d q \<longleftrightarrow> (\<exists>r. row_of d (o_id q) = Some r \<and> content r = content q)"

definition copies_ok :: "bus \<Rightarrow> bool" where
  "copies_ok s \<longleftrightarrow> (\<forall>i. \<forall>q \<in> set (todo (relays s i)) \<union> set (claimed (relays s i)) \<union> set (inflight (relays s i)).
       known (store s) q) \<and> (\<forall>q \<in> set (topic s). known (store s) q)"

definition sent_ok :: "bus \<Rightarrow> bool" where
  "sent_ok s \<longleftrightarrow> (\<forall>i r. row_of (store s) i = Some r \<and> o_status r = Sent \<longrightarrow> i \<in> o_id ` set (topic s))"

definition source_ok :: "(json \<Rightarrow> string) \<Rightarrow> db \<Rightarrow> bool" where
  "source_ok dump d \<longleftrightarrow> (\<forall>r \<in> set (outbox d). \<exists>m \<in> set (pmsgs d). content r = (''im.messages'', convKey (m_from m) (m_peer m),
     dump (kafkaPayload (m_msg_id m) (m_from m) (m_peer m) (m_content m) (m_timestamp m))))"

lemma known_evolves: "known d q \<Longrightarrow> evolves d d' \<Longrightarrow> known d' q"
  unfolding known_def evolves_def by metis

lemma claim_one_spec:
  assumes "outbox_ok d" "claim_one ok n row (cs, d) = (cs', d')"
  shows "outbox_ok d' \<and> evolves d d' \<and> (\<forall>j. sending d j \<longrightarrow> sending d' j) \<and>
    (cs' = cs \<or> cs' = cs @ [row] \<and> \<not> sending d (o_id row) \<and> sending d' (o_id row)) \<and>
    (\<forall>j r'. row_of d' j = Some r' \<and> o_status r' = Sent \<longrightarrow> row_of d j = Some r')"
proof -
  obtain k where k: "prepared ok n (claim_row (o_id row)) d = (k, d')" "cs' = (if k = 1 then cs @ [row] else cs)"
    using assms(2) by (auto simp: claim_one_def split: prod.splits)
  note c = claim_row_spec [OF assms(1) k(1)]
  show ?thesis
  proof (cases "k = 1")
    case True
    with c obtain r where r: "row_of d (o_id row) = Some r" "o_status r = Pending"
      "row_of d' (o_id row) = Some (r\<lparr>o_status := Sending\<rparr>)" by auto
    have "sending d' j" if "sending d j" for j
      using that c r by (cases "j = o_id row") (auto simp: sending_def)
    moreover have "row_of d j = Some r'" if "row_of d' j = Some r'" "o_status r' = Sent" for j r'
      using that c r by (cases "j = o_id row") auto
    ultimately show ?thesis using c r k(2) True by (auto simp: sending_def)
  next
    case False
    then have "row_of d' = row_of d" using c by (intro ext) metis
    with c k(2) False show ?thesis by (simp add: sending_def)
  qed
qed

lemma set_relay_simps [simp]:
  "store (set_relay i r s) = store s" "topic (set_relay i r s) = topic s"
  "relays (set_relay i r s) = (relays s)(i := r)"
  by (simp_all add: set_relay_def)

lemma idle_simps [simp]:
  "todo (idle b) = []" "claimed (idle b) = []" "inflight (idle b) = []" "holds (idle b) = []"
  by (simp_all add: idle_def holds_def)

lemma produce_oneD:
  "produce_one dok queued row (fl, d) = (fl', d') \<Longrightarrow>
    fl' = fl @ [row] \<and> d' = d \<or> fl' = fl \<and> d' = onDelivery (dok (o_id row)) (o_id row) False ''local queue full'' d"
  by (simp add: produce_one_def split: if_splits)

lemma step_base:
  assumes "bus_step dump strict s s'" "outbox_ok (store s)"
  shows "outbox_ok (store s') \<and> evolves (store s) (store s')"
  using assms(1)
proof cases
  case (Claim i row rows ok n cs d')
  then show ?thesis using claim_one_spec [OF assms(2) Claim(3)] by simp
next
  case (Produce i row rows dok queued fl d')
  then show ?thesis using produce_oneD [OF Produce(4)] assms(2) by (auto simp: onDelivery_ok onDelivery_evolves)
qed (use assms(2) in \<open>simp_all add: persist_ok onDelivery_ok onDelivery_evolves reclaim_ok reclaim_evolves\<close>)

text \<open>Copies that a step hands around were selected from the table.\<close>

lemma step_copies:
  assumes "bus_step dump strict s s'" "outbox_ok (store s)" "copies_ok s"
  shows "copies_ok s'"
proof -
  have ev: "known (store s') q" if "known (store s) q" for q
    using known_evolves that step_base [OF assms(1,2)] by blast
  have c: "known (store s') q" if "q \<in> set (todo (relays s i)) \<union> set (claimed (relays s i)) \<union> set (inflight (relays s i))" for q i
    using that assms(3) ev unfolding copies_ok_def by blast
  have t: "known (store s') q" if "q \<in> set (topic s)" for q
    using that assms(3) ev unfolding copies_ok_def by blast
  from assms(1) show ?thesis
  proof cases
    case (Select i batch)
    have "known (store s) q" if "q \<in> set (selectPending batch (store s))" for q
    proof -
      from that have "q \<in> set (outbox (store s))" unfolding selectPending_def by (auto dest: in_set_takeD)
      then show ?thesis using row_of_in [OF assms(2)] by (simp add: known_def)
    qed
    then show ?thesis using Select c t by (auto simp: copies_ok_def)
  next
    case (Claim i row rows ok n cs d')
    have "set cs \<subseteq> insert row (set (claimed (relays s i)))" using claim_one_spec [OF assms(2) Claim(3)] by auto
    then show ?thesis using Claim(1,2) c [of _ i] c t by (auto simp: copies_ok_def)
  next
    case (Produce i row rows dok queued fl d')
    have "set fl \<subseteq> insert row (set (inflight (relays s i)))" using produce_oneD [OF Produce(4)] by auto
    then show ?thesis using Produce(1,2,3) c [of _ i] c t by (auto simp: copies_ok_def)
  next
    case (Report row i good landed ok err)
    then show ?thesis using c [of _ i] c t by (auto simp: copies_ok_def dest: notin_set_remove1 set_remove1_subset [THEN subsetD])
  next
    case (Crash landed_rows i)
    then show ?thesis using c [of _ i] c t by (auto simp: copies_ok_def)
  qed (use c t in \<open>auto simp: copies_ok_def\<close>)
qed

text \<open>Only a positive report marks a row as sent.\<close>

definition no_new_sent :: "db \<Rightarrow> db \<Rightarrow> bool" where
  "no_new_sent d d' \<longleftrightarrow> (\<forall>j r. row_of d' j = Some r \<and> o_status r = Sent \<longrightarrow> row_of d j = Some r)"

lemma no_new_sent_refl [simp]: "no_new_sent d d"
  by (simp add: no_new_sent_def)

lemma no_new_sent_report [simp]: "no_new_sent d (onDelivery ok i False err d)"
  by (auto simp: no_new_sent_def onDelivery_row split: if_splits)

lemma no_new_sent_reclaim [simp]: "no_new_sent d (reclaimStuckSending ok now t d)"
  by (auto simp: no_new_sent_def reclaimStuckSending_def prepared_def row_of_upd split: if_splits)

lemma no_new_sent_persist:
  assumes "outbox_ok d"
  shows "no_new_sent d (snd (persistOutbox dump ok i a b c ts d))"
proof -
  obtain r d' where e: "persistOutbox dump ok i a b c ts d = (r, d')" by fastforce
  show ?thesis
  proof (cases r)
    case True
    with persistOutbox_spec [OF e] have d': "d' = snd (ins_outbox ts ''im.messages'' (convKey a b)
      (dump (kafkaPayload i a b c ts)) (d\<lparr>pmsgs := pmsgs d @ [new_msg i a b c ts None]\<rparr>))" by simp
    have "o_status (last (outbox (snd (ins_outbox ts t k p d)))) = Pending" for t k p by (simp add: ins_outbox_def)
    then show ?thesis unfolding e d' no_new_sent_def snd_conv row_of_snoc [OF assms] by (auto split: if_splits)
  next
    case False
    with persistOutbox_spec [OF e] have "unchanged d d'" by simp
    then show ?thesis unfolding e by (simp add: no_new_sent_def row_of_def unchanged_fields)
  qed
qed

lemma sent_ok_mono:
  "sent_ok s \<Longrightarrow> no_new_sent (store s) (store s') \<Longrightarrow> set (topic s) \<subseteq> set (topic s') \<Longrightarrow> sent_ok s'"
  unfolding sent_ok_def no_new_sent_def by blast

lemma step_sent:
  assumes "bus_step dump strict s s'" "outbox_ok (store s)" "sent_ok s"
  shows "sent_ok s'"
  using assms(1)
proof cases
  case (Claim i row rows ok n cs d')
  have "no_new_sent (store s) d'" using claim_one_spec [OF assms(2) Claim(3)] by (auto simp: no_new_sent_def)
  then show ?thesis using sent_ok_mono [OF assms(3)] Claim by simp
next
  case (Produce i row rows dok queued fl d')
  then show ?thesis using produce_oneD [OF Produce(4)] by (intro sent_ok_mono [OF assms(3)]) auto
next
  case (Report row i good landed ok err)
  show ?thesis
  proof (cases good)
    case False
    with Report show ?thesis by (intro sent_ok_mono [OF assms(3)]) auto
  next
    case True
    with Report have l: landed by simp
    show ?thesis unfolding sent_ok_def
    proof (intro allI impI)
      fix j r assume "row_of (store s') j = Some r \<and> o_status r = Sent"
      then show "j \<in> o_id ` set (topic s')"
        using assms(3) True l Report by (cases "j = o_id row") (auto simp: sent_ok_def onDelivery_other)
    qed
  qed
qed (intro sent_ok_mono [OF assms(3)], simp_all add: no_new_sent_persist assms(2))+

text \<open>One step that touches the rows held by one relay only.\<close>

lemma exclusive_step:
  assumes "exclusive s" "\<And>j. j \<noteq> i \<Longrightarrow> relays s' j = relays s j"
    "distinct (holds (relays s' i))" "set (holds (relays s' i)) \<subseteq> set (holds (relays s i)) \<union> N"
    "\<And>x. x \<in> N \<Longrightarrow> \<not> sending (store s) x \<and> sending (store s') x"
    "\<And>x. x \<in> set (holds (relays s' i)) \<or> (\<exists>j. j \<noteq> i \<and> x \<in> set (holds (relays s j))) \<Longrightarrow>
      sending (store s) x \<Longrightarrow> sending (store s') x"
  shows "exclusive s'"
proof -
  have old: "distinct (holds (relays s j))" "x \<in> set (holds (relays s j)) \<Longrightarrow> sending (store s) x"
    "j \<noteq> k \<Longrightarrow> set (holds (relays s j)) \<inter> set (holds (relays s k)) = {}" for j k x
    using assms(1) unfolding exclusive_def by blast+
  have new: "x \<in> set (holds (relays s i)) \<or> \<not> sending (store s) x" if "x \<in> set (holds (relays s' i))" for x
    using that assms(4,5) by blast
  have disj: "set (holds (relays s' i)) \<inter> set (holds (relays s j)) = {}" if "j \<noteq> i" for j
    using new old(2,3) that by blast
  have "sending (store s') x" if "x \<in> set (holds (relays s' i))" for x
    using that assms(4,5,6) old(2) by blast
  moreover have "sending (store s') x" if "j \<noteq> i" "x \<in> set (holds (relays s' j))" for j x
    using that assms(2,6) old(2) by metis
  moreover have "distinct (holds (relays s' j))" for j
    using assms(2,3) old(1) by (cases "j = i") simp_all
  moreover have "set (holds (relays s' j)) \<inter> set (holds (relays s' k)) = {}" if "j \<noteq> k" for j k
    using that assms(2) disj old(3) by (cases "j = i"; cases "k = i") (auto simp: Int_commute)
  ultimately show ?thesis unfolding exclusive_def by metis
qed

lemma exclusive_held:
  assumes "exclusive s"
  shows "distinct (holds (relays s i))"
    "x \<in> set (holds (relays s i)) \<Longrightarrow> \<forall>j. j \<noteq> i \<longrightarrow> x \<notin> set (holds (relays s j))"
  using assms unfolding exclusive_def by blast+

lemma exclusive_drop:
  assumes "exclusive s" "\<And>j. j \<noteq> i \<Longrightarrow> relays s' j = relays s j" "x \<in> set (holds (relays s i))"
    "distinct (holds (relays s' i))" "set (holds (relays s' i)) \<subseteq> set (holds (relays s i)) - {x}"
    "\<And>y. y \<noteq> x \<Longrightarrow> sending (store s) y \<Longrightarrow> sending (store s') y"
  shows "exclusive s'"
proof (rule exclusive_step [OF assms(1,2,4), where N = "{}"])
  show "set (holds (relays s' i)) \<subseteq> set (holds (relays s i)) \<union> {}" using assms(5) by blast
  fix y
  assume "y \<in> set (holds (relays s' i)) \<or> (\<exists>j. j \<noteq> i \<and> y \<in> set (holds (relays s j)))" "sending (store s) y"
  moreover have "y \<noteq> x" using calculation(1) assms(5) exclusive_held(2) [OF assms(1,3)] by blast
  ultimately show "sending (store s') y" using assms(6) by blast
qed simp_all

lemma sending_report: "x \<noteq> i \<Longrightarrow> sending (onDelivery ok i good err d) x = sending d x"
  by (simp add: sending_def onDelivery_other)

lemma sending_persist:
  assumes "outbox_ok d" "sending d x"
  shows "sending (snd (persistOutbox dump ok i a b c ts d)) x"
proof -
  obtain r d' where e: "persistOutbox dump ok i a b c ts d = (r, d')" by fastforce
  show ?thesis
  proof (cases r)
    case True
    with persistOutbox_spec [OF e] have d': "d' = snd (ins_outbox ts ''im.messages'' (convKey a b)
      (dump (kafkaPayload i a b c ts)) (d\<lparr>pmsgs := pmsgs d @ [new_msg i a b c ts None]\<rparr>))" by simp
    then show ?thesis using assms row_of_fresh [OF assms(1)] row_of_snoc [OF assms(1)]
      unfolding e by (auto simp: sending_def)
  next
    case False
    with persistOutbox_spec [OF e] have "unchanged d d'" by simp
    then show ?thesis using assms(2) unfolding e by (simp add: sending_def row_of_def unchanged_fields)
  qed
qed

lemma distinct_remove1_id:
  assumes "distinct (map o_id (cs @ fl))" "row \<in> set fl"
  shows "distinct (map o_id (cs @ remove1 row fl))" "o_id row \<notin> o_id ` set (cs @ remove1 row fl)"
    "set (remove1 row fl) \<subseteq> set fl"
proof -
  obtain xs ys where fl: "fl = xs @ row # ys" "row \<notin> set xs" using split_list_first [OF assms(2)] by blast
  have "remove1 row fl = xs @ ys" using fl by (simp add: remove1_append)
  then show "distinct (map o_id (cs @ remove1 row fl))" "o_id row \<notin> o_id ` set (cs @ remove1 row fl)"
    "set (remove1 row fl) \<subseteq> set fl" using assms(1) fl by auto
qed

lemma step_exclusive:
  assumes "bus_step dump True s s'" "outbox_ok (store s)" "exclusive s"
  shows "exclusive s'"
  using assms(1)
proof cases
  case (Write ok msgId a b content ts)
  then show ?thesis using assms sending_persist
    by (intro exclusive_step [of s 0 s' "{}"]) (auto simp: exclusive_def)
next
  case (Select i batch)
  then show ?thesis using assms(3) by (intro exclusive_step [of s i s' "{}"]) (auto simp: exclusive_def holds_def)
next
  case (Claim i row rows ok n cs d')
  note c = claim_one_spec [OF assms(2) Claim(3)]
  have h: "distinct (holds (relays s i))" "\<forall>x \<in> set (holds (relays s i)). sending (store s) x"
    using assms(3) by (auto simp: exclusive_def)
  show ?thesis
  proof (cases "cs = claimed (relays s i)")
    case True
    then show ?thesis using Claim c h
      by (intro exclusive_step [OF assms(3), of i s' "{}"]) (auto simp: holds_def)
  next
    case False
    with c have n: "cs = claimed (relays s i) @ [row]" "\<not> sending (store s) (o_id row)" "sending d' (o_id row)" by auto
    then show ?thesis using Claim c h
      by (intro exclusive_step [OF assms(3), of i s' "{o_id row}"]) (auto simp: holds_def)
  qed
next
  case (Produce i row rows dok queued fl d')
  have h: "distinct (holds (relays s i))" "\<forall>j. j \<noteq> i \<longrightarrow> o_id row \<notin> set (holds (relays s j))"
    using exclusive_held(1) [OF assms(3), of i] exclusive_held(2) [OF assms(3), of "o_id row" i] Produce(3)
    by (simp_all add: holds_def)
  from produce_oneD [OF Produce(4)] show ?thesis
  proof
    assume "fl = inflight (relays s i) @ [row] \<and> d' = store s"
    then show ?thesis using Produce h
      by (intro exclusive_step [OF assms(3), of i s' "{}"]) (auto simp: holds_def)
  next
    assume "fl = inflight (relays s i) \<and> d' = onDelivery (dok (o_id row)) (o_id row) False ''local queue full'' (store s)"
    then have keep: "sending (store s') x" if "x \<noteq> o_id row" "sending (store s) x" for x
      using that Produce by (simp add: sending_report)
    have fl: "fl = inflight (relays s i)" using \<open>fl = _ \<and> _\<close> ..
    show ?thesis using Produce h(1) fl keep
      by (intro exclusive_drop [OF assms(3), of i s' "o_id row"]) (auto simp: holds_def)
  qed
next
  case (Report row i good landed ok err)
  have h: "distinct (holds (relays s i))" using exclusive_held(1) [OF assms(3)] .
  note r = distinct_remove1_id [OF h [unfolded holds_def] Report(2)]
  have keep: "sending (store s') x" if "x \<noteq> o_id row" "sending (store s) x" for x
    using that Report by (simp add: sending_report)
  have hs: "holds (relays s' i) = map o_id (claimed (relays s i) @ remove1 row (inflight (relays s i)))"
    using Report by (simp add: holds_def)
  show ?thesis
  proof (rule exclusive_drop [OF assms(3), of i s' "o_id row"])
    show "set (holds (relays s' i)) \<subseteq> set (holds (relays s i)) - {o_id row}"
      unfolding hs using r(2,3) by (simp only: holds_def set_map set_append) blast
    show "distinct (holds (relays s' i))" unfolding hs by (rule r(1))
  qed (use Report keep in \<open>auto simp: holds_def\<close>)
next
  case (Crash landed_rows i)
  then show ?thesis by (intro exclusive_step [OF assms(3), of i s' "{}"]) auto
next
  case (Start i ok now)
  then show ?thesis by (auto simp: exclusive_def holds_def)
qed

section \<open>Reachable states\<close>

lemma outbox_upd: "outbox (d\<lparr>outbox := x\<rparr>) = x"
  by simp

lemma content_upd:
  assumes "\<And>r. content (f r) = content r"
  shows "content ` set (outbox (snd (upd_outbox P f d))) = content ` set (outbox d)"
proof -
  have "content (if P r then f r else r) = content r" for r using assms by simp
  then have "(\<lambda>r. content (if P r then f r else r)) ` set (outbox d) = content ` set (outbox d)"
    by (intro image_cong) simp_all
  then show ?thesis by (simp only: upd_outbox_def snd_conv outbox_upd set_map image_image)
qed

lemma pmsgs_upd: "pmsgs (snd (upd_outbox P f d)) = pmsgs d"
  by (simp add: upd_outbox_def)

lemma source_upd:
  assumes "source_ok dump d" "\<And>r. content (f r) = content r"
  shows "source_ok dump (snd (upd_outbox P f d))"
proof -
  have "\<forall>c \<in> content ` set (outbox d). \<exists>m \<in> set (pmsgs d). c = (''im.messages'', convKey (m_from m) (m_peer m),
     dump (kafkaPayload (m_msg_id m) (m_from m) (m_peer m) (m_content m) (m_timestamp m)))"
    using assms(1) unfolding source_ok_def by blast
  then show ?thesis unfolding source_ok_def pmsgs_upd using content_upd [OF assms(2), of P d] by blast
qed

lemma source_persist:
  assumes "source_ok dump d"
  shows "source_ok dump (snd (persistOutbox dump ok i a b c ts d))"
proof -
  obtain r d' where e: "persistOutbox dump ok i a b c ts d = (r, d')" by fastforce
  show ?thesis
  proof (cases r)
    case True
    with persistOutbox_spec [OF e] have d': "d' = snd (ins_outbox ts ''im.messages'' (convKey a b)
      (dump (kafkaPayload i a b c ts)) (d\<lparr>pmsgs := pmsgs d @ [new_msg i a b c ts None]\<rparr>))" by simp
    show ?thesis using assms unfolding e d' by (auto simp: source_ok_def ins_outbox_def content_def new_msg_def)
  next
    case False
    with persistOutbox_spec [OF e] have "unchanged d d'" by simp
    then show ?thesis using assms unfolding e by (simp add: source_ok_def unchanged_fields)
  qed
qed

lemma step_source:
  assumes "bus_step dump strict s s'" "source_ok dump (store s)"
  shows "source_ok dump (store s')"
  using assms(1)
proof cases
  case (Claim i row rows ok n cs d')
  then have "d' = store s \<or> d' = snd (claim_row (o_id row) (store s))"
    by (auto simp: claim_one_def prepared_def split: prod.splits if_splits)
  then show ?thesis using assms(2) Claim by (auto simp: claim_row_def content_def intro: source_upd)
next
  case (Produce i row rows dok queued fl d')
  then show ?thesis using produce_oneD [OF Produce(4)] assms(2)
    by (auto simp: onDelivery_def prepared_def content_def intro!: source_upd)
qed (use assms(2) in \<open>auto simp: source_persist onDelivery_def reclaimStuckSending_def prepared_def content_def
    intro!: source_upd\<close>)

definition bus_ok :: "(json \<Rightarrow> string) \<Rightarrow> bus \<Rightarrow> bool" where
  "bus_ok dump s \<longleftrightarrow> outbox_ok (store s) \<and> copies_ok s \<and> sent_ok s \<and> source_ok dump (store s)"

lemma bus_ok_init: "bus_ok dump init_bus" "exclusive init_bus"
  by (simp_all add: bus_ok_def init_bus_def empty_db_def outbox_ok_def copies_ok_def sent_ok_def source_ok_def
      exclusive_def row_of_def)

lemma reach_bus_ok: "bus_reach dump strict s \<Longrightarrow> bus_ok dump s"
proof (induction rule: bus_reach.induct)
  case Init
  show ?case by (rule bus_ok_init)
next
  case (Step s s')
  then show ?case unfolding bus_ok_def
    using step_base step_copies step_sent step_source by blast
qed

lemma reach_exclusive: "bus_reach dump True s \<Longrightarrow> exclusive s"
proof (induction rule: bus_reach.induct)
  case Init
  show ?case by (rule bus_ok_init)
next
  case (Step s s')
  then show ?case using step_exclusive reach_bus_ok bus_ok_def by blast
qed

lemma row_of_set: "outbox_ok d \<Longrightarrow> row_of d i = Some r \<longleftrightarrow> r \<in> set (outbox d) \<and> o_id r = i"
  using row_of_id row_of_in by blast

section \<open>Properties\<close>

definition sample_bus :: bus where
  "sample_bus = init_bus\<lparr>store := snd (persistOutbox (\<lambda>_. ''p'') (\<lambda>_. True) ''7'' 1 2 ''hi'' 5 empty_db)\<rparr>"

lemma sample_bus_reach: "bus_reach (\<lambda>_. ''p'') True sample_bus"
proof -
  have "bus_reach (\<lambda>_. ''p'') True
      (init_bus\<lparr>store := snd (persistOutbox (\<lambda>_. ''p'') (\<lambda>_. True) ''7'' 1 2 ''hi'' 5 (store init_bus))\<rparr>)"
    by (rule bus_reach.Step [OF bus_reach.Init bus_step.Write])
  then show ?thesis by (simp add: sample_bus_def init_bus_def)
qed

lemma sample_bus_rows: "map o_id (outbox (store sample_bus)) = [1]"
  by (simp add: sample_bus_def persistOutbox_def savePrivateMessageTx_def insertOutbox_def prepared_def ins_msg_def
      ins_outbox_def tx_def table_def set_table_def empty_db_def)

text \<open>One row travels from the table to the topic.\<close>

lemma relayed_bus_reach: "\<exists>s. bus_reach (\<lambda>_. ''p'') True s \<and> topic s \<noteq> []"
proof -
  let ?ok = "\<lambda>_. True"
  obtain row where row: "outbox (store sample_bus) = [row]" "o_status row = Pending" "o_id row = 1"
    "relays sample_bus = (\<lambda>_. idle False)" "o_created row = 5"
    by (simp add: sample_bus_def init_bus_def persistOutbox_def savePrivateMessageTx_def insertOutbox_def prepared_def
        ins_msg_def ins_outbox_def tx_def table_def set_table_def empty_db_def)
  define s1 where "s1 = (set_relay 0 (idle True) sample_bus)\<lparr>store := reclaimStuckSending ?ok 0 60 (store sample_bus)\<rparr>"
  have r1: "bus_reach (\<lambda>_. ''p'') True s1" unfolding s1_def
    by (rule bus_reach.Step [OF sample_bus_reach bus_step.Start]) (simp_all add: row idle_def)
  have o1: "outbox (store s1) = [row]" "relays s1 0 = idle True"
    using row by (simp_all add: s1_def reclaimStuckSending_def prepared_def upd_outbox_def)
  define s2 where "s2 = set_relay 0 ((relays s1 0)\<lparr>todo := selectPending 100 (store s1)\<rparr>) s1"
  have r2: "bus_reach (\<lambda>_. ''p'') True s2" unfolding s2_def
    by (rule bus_reach.Step [OF r1 bus_step.Select]) (simp_all add: o1 idle_def)
  have o2: "outbox (store s2) = [row]" "todo (relays s2 0) = [row]" "claimed (relays s2 0) = []" "inflight (relays s2 0) = []"
    using row o1 by (simp_all add: s2_def selectPending_def)
  obtain cs d3 where c: "claim_one ?ok 1 row (claimed (relays s2 0), store s2) = (cs, d3)" by fastforce
  define s3 where "s3 = (set_relay 0 ((relays s2 0)\<lparr>todo := [], claimed := cs\<rparr>) s2)\<lparr>store := d3\<rparr>"
  have r3: "bus_reach (\<lambda>_. ''p'') True s3" unfolding s3_def by (rule bus_reach.Step [OF r2 bus_step.Claim [OF o2(2) c]])
  have "row\<lparr>o_status := Sending\<rparr> \<noteq> row"
    using row(2) by (metis outbox_row.select_convs(5) outbox_row.surjective outbox_row.update_convs(5) outbox_status.distinct(1))
  then have o3: "todo (relays s3 0) = []" "claimed (relays s3 0) = [row]" "inflight (relays s3 0) = []"
    using c row o2 by (auto simp: s3_def claim_one_def prepared_def claim_row_def upd_outbox_def)
  obtain fl d4 where p: "produce_one (\<lambda>_. ?ok) ?ok row (inflight (relays s3 0), store s3) = (fl, d4)" by fastforce
  define s4 where "s4 = (set_relay 0 ((relays s3 0)\<lparr>claimed := [], inflight := fl\<rparr>) s3)\<lparr>store := d4\<rparr>"
  have r4: "bus_reach (\<lambda>_. ''p'') True s4" unfolding s4_def by (rule bus_reach.Step [OF r3 bus_step.Produce [OF o3(1,2) p]])
  have "row \<in> set (inflight (relays s4 0))" using p by (auto simp: s4_def produce_one_def)
  define s5 where "s5 = (set_relay 0 ((relays s4 0)\<lparr>inflight := remove1 row (inflight (relays s4 0))\<rparr>) s4)
      \<lparr>store := onDelivery ?ok (o_id row) True [] (store s4), topic := (if True then topic s4 @ [row] else topic s4)\<rparr>"
  have "bus_reach (\<lambda>_. ''p'') True s5" unfolding s5_def
    by (rule bus_reach.Step [OF r4 bus_step.Report [OF \<open>row \<in> _\<close>]]) simp
  moreover have "topic s5 \<noteq> []" by (simp add: s5_def)
  ultimately show ?thesis by blast
qed

text \<open>
  C4. Over every interleaving of senders, relays, delivery reports, crashes and restarts: what
  reaches the topic is the payload of a stored message, a row is marked as sent only if it
  is on the topic, and no step ever drops a row or alters what it will publish.
\<close>

theorem outbox_exactly_committed:
  assumes "bus_reach dump strict s"
  shows "(\<forall>q \<in> set (topic s). \<exists>m \<in> set (pmsgs (store s)). content q = (''im.messages'', convKey (m_from m) (m_peer m),
      dump (kafkaPayload (m_msg_id m) (m_from m) (m_peer m) (m_content m) (m_timestamp m)))) \<and>
    (\<forall>r \<in> set (outbox (store s)). o_status r = Sent \<longrightarrow> (\<exists>q \<in> set (topic s). o_id q = o_id r \<and> content q = content r)) \<and>
    (\<forall>s'. bus_step dump strict s s' \<longrightarrow>
      (\<forall>r \<in> set (outbox (store s)). \<exists>r' \<in> set (outbox (store s')). o_id r' = o_id r \<and> content r' = content r))"
proof (intro conjI)
  have ok: "outbox_ok (store s)" "copies_ok s" "sent_ok s" "source_ok dump (store s)"
    using reach_bus_ok [OF assms] by (auto simp: bus_ok_def)
  have known: "\<exists>r \<in> set (outbox (store s)). o_id r = o_id q \<and> content r = content q" if "q \<in> set (topic s)" for q
    using ok(2) that row_of_id unfolding copies_ok_def known_def by blast
  show "\<forall>q \<in> set (topic s). \<exists>m \<in> set (pmsgs (store s)). content q = (''im.messages'', convKey (m_from m) (m_peer m),
      dump (kafkaPayload (m_msg_id m) (m_from m) (m_peer m) (m_content m) (m_timestamp m)))"
    using known ok(4) unfolding source_ok_def by metis
  show "\<forall>r \<in> set (outbox (store s)). o_status r = Sent \<longrightarrow> (\<exists>q \<in> set (topic s). o_id q = o_id r \<and> content q = content r)"
  proof (intro ballI impI)
    fix r assume r: "r \<in> set (outbox (store s))" "o_status r = Sent"
    then obtain q where q: "q \<in> set (topic s)" "o_id q = o_id r"
      using ok(3) row_of_in [OF ok(1)] unfolding sent_ok_def by fastforce
    from known [OF q(1)] q r row_of_in [OF ok(1)] show "\<exists>q \<in> set (topic s). o_id q = o_id r \<and> content q = content r"
      by (metis option.inject)
  qed
  show "\<forall>s'. bus_step dump strict s s' \<longrightarrow>
      (\<forall>r \<in> set (outbox (store s)). \<exists>r' \<in> set (outbox (store s')). o_id r' = o_id r \<and> content r' = content r)"
    using step_base [OF _ ok(1)] row_of_in [OF ok(1)] row_of_id unfolding evolves_def by metis
qed

theorem outbox_exactly_committed_witness:
  "\<exists>s q m. bus_reach (\<lambda>_. ''p'') True s \<and> q \<in> set (topic s) \<and> m \<in> set (pmsgs (store s)) \<and>
    content q = (''im.messages'', convKey (m_from m) (m_peer m), ''p'')"
proof -
  obtain s where s: "bus_reach (\<lambda>_. ''p'') True s" "topic s \<noteq> []" using relayed_bus_reach by blast
  then obtain q where "q \<in> set (topic s)" by (cases "topic s") auto
  with outbox_exactly_committed [OF s(1)] s(1) show ?thesis by blast
qed



end
