(* ===== verification/RelayLoop.thy ===== *)
theory RelayLoop
  imports Outbox
begin

text \<open>
  The thread of the outbox relay and the condition variable it sleeps on (\<^verbatim>\<open>start\<close>, \<^verbatim>\<open>wake\<close>,
  \<^verbatim>\<open>stop\<close> and \<^verbatim>\<open>relayLoop\<close> of \<^verbatim>\<open>server/OutboxService.h\<close>). \<open>Outbox\<close> shows what the drains do to the
  table; here are the moments at which they happen. The other threads commit rows, call \<^verbatim>\<open>wake\<close>
  and \<^verbatim>\<open>stop\<close> between any two steps of the relay.
\<close>

section \<open>The thread\<close>

text \<open>
  \<open>Blocked\<close> is inside \<^verbatim>\<open>wait_for\<close> with the mutex released; its argument says whether a notification
  has arrived, after which the predicate is looked at again. Entering \<^verbatim>\<open>wait_for\<close>, \<open>AtWait\<close>, looks at it
  first and blocks in the same critical section.
\<close>

datatype relay_pc = LoopTop | Draining | Drained nat | AtWait | Blocked bool | Ended

record relay_thread =
  rt_running :: bool
  wakeFlag :: bool
  relay_pc :: relay_pc
  rt_db :: db

definition start :: "outcome \<Rightarrow> ms \<Rightarrow> db \<Rightarrow> relay_thread" where
  "start ok now d = \<lparr>rt_running = True, wakeFlag = False, relay_pc = LoopTop, rt_db = reclaimStuckSending ok now 60 d\<rparr>"

definition wake :: "relay_thread \<Rightarrow> relay_thread" where
  "wake s = s\<lparr>wakeFlag := True, relay_pc := (case relay_pc s of Blocked n \<Rightarrow> Blocked True | pc \<Rightarrow> pc)\<rparr>"

definition past_wait :: "relay_thread \<Rightarrow> relay_thread" where
  "past_wait s = s\<lparr>wakeFlag := False, relay_pc := LoopTop\<rparr>"

definition wait_over :: "relay_thread \<Rightarrow> bool" where
  "wait_over s \<longleftrightarrow> wakeFlag s \<or> \<not> rt_running s"

text \<open>One step of \<^verbatim>\<open>relayLoop\<close>; the arguments are what \<^verbatim>\<open>drainOnce\<close> meets when this step is one.\<close>

definition relayLoop :: "outcome \<Rightarrow> (int \<Rightarrow> outcome) \<Rightarrow> (int \<Rightarrow> bool) \<Rightarrow> nat \<Rightarrow> relay_thread \<Rightarrow> relay_thread" where
  "relayLoop ok dok queued batch s =
     (case relay_pc s of
        LoopTop \<Rightarrow> s\<lparr>relay_pc := (if rt_running s then Draining else Ended)\<rparr>
      | Draining \<Rightarrow> (let (n, _, d) = drainOnce ok dok queued batch (rt_db s) in s\<lparr>relay_pc := Drained n, rt_db := d\<rparr>)
      | Drained n \<Rightarrow> s\<lparr>relay_pc := (if n = 0 then AtWait else LoopTop)\<rparr>
      | AtWait \<Rightarrow> (if wait_over s then past_wait s else s\<lparr>relay_pc := Blocked False\<rparr>)
      | Blocked True \<Rightarrow> (if wait_over s then past_wait s else s\<lparr>relay_pc := Blocked False\<rparr>)
      | Blocked False \<Rightarrow> s
      | Ended \<Rightarrow> s)"

text \<open>
  \<open>StopFlag\<close> and \<open>Wake\<close> are the two halves of \<^verbatim>\<open>stop\<close>; \<open>Timeout\<close> is the end of the interval, \<open>Change\<close>
  whatever another thread commits.
\<close>

datatype relay_event = Turn outcome "int \<Rightarrow> outcome" "int \<Rightarrow> bool" | Wake | StopFlag | Timeout | Change "db \<Rightarrow> db"

definition relay_step :: "nat \<Rightarrow> relay_thread \<Rightarrow> relay_event \<Rightarrow> relay_thread" where
  "relay_step batch s e =
     (case e of
        Turn ok dok queued \<Rightarrow> relayLoop ok dok queued batch s
      | Wake \<Rightarrow> wake s
      | StopFlag \<Rightarrow> s\<lparr>rt_running := False\<rparr>
      | Timeout \<Rightarrow> (case relay_pc s of Blocked n \<Rightarrow> past_wait s | _ \<Rightarrow> s)
      | Change f \<Rightarrow> s\<lparr>rt_db := f (rt_db s)\<rparr>)"

definition stop :: "nat \<Rightarrow> relay_thread \<Rightarrow> relay_thread" where
  "stop batch s = (if rt_running s then foldl (relay_step batch) s [StopFlag, Wake] else s)"

lemmas relay_defs = relay_step_def relayLoop_def wake_def past_wait_def wait_over_def

definition is_turn :: "relay_event \<Rightarrow> bool" where
  "is_turn e = (case e of Turn _ _ _ \<Rightarrow> True | _ \<Rightarrow> False)"

definition turns :: "relay_event list \<Rightarrow> nat" where
  "turns es = length (filter is_turn es)"

lemma turns_simps [simp]:
  "turns [] = 0" "turns (e # es) = (if is_turn e then 1 else 0) + turns es"
  "is_turn (Turn ok dok q)" "\<not> is_turn Wake" "\<not> is_turn StopFlag" "\<not> is_turn Timeout" "\<not> is_turn (Change f)"
  by (simp_all add: turns_def is_turn_def)

section \<open>Progress\<close>

text \<open>
  A wake-up is owed as long as the relay has not come back to the top of its loop: the flag is up, and
  who is blocked has been notified. The number of turns until the next drain begins is then bounded.
\<close>

fun turns_to_drain :: "relay_pc \<Rightarrow> nat" where
  "turns_to_drain Draining = 0"
| "turns_to_drain LoopTop = 1"
| "turns_to_drain (Blocked n) = 2"
| "turns_to_drain AtWait = 2"
| "turns_to_drain (Drained n) = 3"
| "turns_to_drain Ended = 0"

definition owed :: "relay_thread \<Rightarrow> bool" where
  "owed s \<longleftrightarrow> rt_running s \<and> relay_pc s \<noteq> Ended \<and> (relay_pc s \<noteq> LoopTop \<longrightarrow> wakeFlag s) \<and> relay_pc s \<noteq> Blocked False"

definition alive :: "relay_thread \<Rightarrow> bool" where
  "alive s \<longleftrightarrow> (rt_running s \<longrightarrow> relay_pc s \<noteq> Ended)"

lemma owed_wake: "rt_running s \<Longrightarrow> alive s \<Longrightarrow> owed (wake s) \<and> relay_pc (wake s) \<noteq> Ended"
  by (auto simp: owed_def wake_def alive_def split: relay_pc.splits)

lemma alive_step: "alive s \<Longrightarrow> alive (relay_step batch s e)"
  by (auto simp: alive_def relay_defs Let_def split: relay_event.splits relay_pc.splits bool.splits prod.splits)

interpretation relay_life: inv_machine "start ok now d" "relay_step batch" alive
  by unfold_locales (simp add: alive_def start_def, rule alive_step)

lemma owed_turn:
  assumes "owed s" "relay_pc s \<noteq> Draining"
  shows "owed (relayLoop ok dok q batch s) \<or> relay_pc (relayLoop ok dok q batch s) = Draining"
    and "turns_to_drain (relay_pc (relayLoop ok dok q batch s)) < turns_to_drain (relay_pc s)"
    and "rt_running (relayLoop ok dok q batch s)"
  using assms by (auto simp: owed_def relay_defs split: relay_pc.splits bool.splits)

lemma owed_other:
  assumes "owed s" "\<not> is_turn e" "e \<noteq> StopFlag"
  shows "owed (relay_step batch s e)" "turns_to_drain (relay_pc (relay_step batch s e)) \<le> turns_to_drain (relay_pc s)"
  using assms by (auto simp: owed_def relay_defs is_turn_def split: relay_event.splits relay_pc.splits bool.splits)

lemma drain_comes:
  assumes "owed s \<or> relay_pc s = Draining" "StopFlag \<notin> set es" "turns_to_drain (relay_pc s) < turns es"
  shows "\<exists>es1 ok dok q es2. es = es1 @ Turn ok dok q # es2 \<and> turns es1 \<le> turns_to_drain (relay_pc s) \<and>
    relay_pc (foldl (relay_step batch) s es1) = Draining"
  using assms
proof (induction es arbitrary: s)
  case (Cons e es)
  have go: ?case if "owed s' \<or> relay_pc s' = Draining" "turns_to_drain (relay_pc s') + (if is_turn e then 1 else 0) \<le> turns_to_drain (relay_pc s)"
      "s' = relay_step batch s e" for s'
  proof -
    have "StopFlag \<notin> set es" "turns_to_drain (relay_pc s') < turns es" using Cons.prems(2,3) that(2) by (simp_all split: if_splits)
    from Cons.IH [OF that(1) this] obtain es1 ok dok q es2 where "es = es1 @ Turn ok dok q # es2"
        "turns es1 \<le> turns_to_drain (relay_pc s')" "relay_pc (foldl (relay_step batch) s' es1) = Draining"
      by blast
    with that show ?thesis by (intro exI [of _ "e # es1"] exI [of _ ok] exI [of _ dok] exI [of _ q] exI [of _ es2]) auto
  qed
  show ?case
  proof (cases "is_turn e")
    case True
    then obtain ok dok q where e: "e = Turn ok dok q" by (auto simp: is_turn_def split: relay_event.splits)
    show ?thesis
    proof (cases "relay_pc s = Draining")
      case True
      with e show ?thesis by (intro exI [of _ "[]"] exI [of _ ok] exI [of _ dok] exI [of _ q] exI [of _ es]) simp
    next
      case False
      with Cons.prems(1) owed_turn [of s ok dok q batch] e show ?thesis by (intro go) (auto simp: relay_step_def)
    qed
  next
    case False
    have "relay_pc (relay_step batch s e) = Draining" if "relay_pc s = Draining"
      using that False by (auto simp: relay_defs is_turn_def split: relay_event.splits)
    with False Cons.prems(1,2) owed_other [of s e batch] show ?thesis by (intro go) auto
  qed
qed simp

text \<open>
  C22. No wake-up is lost: once a row is committed and \<^verbatim>\<open>wake\<close> called, wherever the relay is in its loop, and
  whatever commits and further calls come between, a drain begins within three of its turns without
  waiting for the interval to end. The step of a drain is the moment at which it reads the table, so this
  drain reads it after the call and sees every row committed before.
\<close>

theorem wake_reaches_drain:
  assumes "s = foldl (relay_step batch) (start ok now d) es0" "rt_running s"
    and "StopFlag \<notin> set es" "4 \<le> turns es"
  shows "\<exists>es1 ok' dok q es2. es = es1 @ Turn ok' dok q # es2 \<and> turns es1 \<le> 3 \<and>
    relay_pc (foldl (relay_step batch) (relay_step batch s Wake) es1) = Draining"
proof -
  have "alive s" unfolding assms(1) by (rule relay_life.run_inv)
  then have owed: "owed (wake s)" using owed_wake [OF assms(2)] by simp
  have b: "turns_to_drain pc \<le> 3" for pc by (cases pc) simp_all
  with assms(4) have "turns_to_drain (relay_pc (wake s)) < turns es" by (meson le_less_trans less_le_trans numeral_less_iff semiring_norm)
  from drain_comes [OF disjI1 [OF owed] assms(3) this, of batch] obtain es1 ok' dok q es2
    where "es = es1 @ Turn ok' dok q # es2" "turns es1 \<le> turns_to_drain (relay_pc (wake s))"
      "relay_pc (foldl (relay_step batch) (wake s) es1) = Draining" by blast
  moreover have "relay_step batch s Wake = wake s" by (simp add: relay_step_def)
  ultimately show ?thesis using b [of "relay_pc (wake s)"] by (metis order_trans)
qed

theorem wake_reaches_drain_witness:
  "let ok = (\<lambda>c. True); t = Turn ok (\<lambda>i. ok) (\<lambda>i. True); s = foldl (relay_step 100) (start ok 0 empty_db) [t, t, t, t] in
   relay_pc s = Blocked False \<and>
   (\<exists>es1 ok' dok q es2. [t, t, t, t] = es1 @ Turn ok' dok q # es2 \<and> turns es1 \<le> 3 \<and>
     relay_pc (foldl (relay_step 100) (relay_step 100 s Wake) es1) = Draining)"
proof -
  let ?ok = "\<lambda>c. True"
  let ?t = "Turn ?ok (\<lambda>i. ?ok) (\<lambda>i. True)"
  have none: "drainOnce ?ok (\<lambda>i. ?ok) (\<lambda>i. True) 100 (reclaimStuckSending ?ok 0 60 empty_db) = (0, [], reclaimStuckSending ?ok 0 60 empty_db)"
    by code_simp
  have s: "foldl (relay_step 100) (start ?ok 0 empty_db) [?t, ?t, ?t, ?t] =
      \<lparr>rt_running = True, wakeFlag = False, relay_pc = Blocked False, rt_db = reclaimStuckSending ?ok 0 60 empty_db\<rparr>"
    by (simp add: start_def relay_defs none)
  show ?thesis unfolding Let_def s using wake_reaches_drain [OF s [symmetric], of "[?t, ?t, ?t, ?t]"] by simp
qed

section \<open>Stopping\<close>

fun turns_to_end :: "relay_pc \<Rightarrow> nat" where
  "turns_to_end Ended = 0"
| "turns_to_end LoopTop = 1"
| "turns_to_end (Blocked n) = 2"
| "turns_to_end AtWait = 2"
| "turns_to_end (Drained n) = 3"
| "turns_to_end Draining = 4"

definition stopping :: "relay_thread \<Rightarrow> bool" where
  "stopping s \<longleftrightarrow> \<not> rt_running s \<and> relay_pc s \<noteq> Blocked False"

lemma stopping_step:
  assumes "stopping s"
  shows "stopping (relay_step batch s e)"
    and "turns_to_end (relay_pc (relay_step batch s e)) \<le> turns_to_end (relay_pc s) - (if is_turn e then 1 else 0)"
  using assms
  by (auto simp: stopping_def relay_defs is_turn_def Let_def split: relay_event.splits relay_pc.splits bool.splits prod.splits)

lemma stopping_run:
  "stopping s \<Longrightarrow> turns_to_end (relay_pc s) \<le> turns es \<Longrightarrow> relay_pc (foldl (relay_step batch) s es) = Ended"
proof (induction es arbitrary: s)
  case Nil
  then show ?case by (cases "relay_pc s") simp_all
next
  case (Cons e es)
  have "turns_to_end (relay_pc (relay_step batch s e)) \<le> turns es"
    using stopping_step(2) [OF Cons.prems(1), of batch e] Cons.prems(2) by (simp split: if_splits)
  with Cons.IH [OF stopping_step(1) [OF Cons.prems(1)]] show ?case by simp
qed

text \<open>
  \<^verbatim>\<open>stop\<close> can join the thread: after at most four more turns of the relay it has ended, wherever it
  was, and it need not wait for the interval.
\<close>

theorem stop_ends_relay:
  assumes "rt_running s" "4 \<le> turns es"
  shows "relay_pc (foldl (relay_step batch) (stop batch s) es) = Ended"
proof (rule stopping_run)
  show "stopping (stop batch s)" using assms(1) by (simp add: stop_def stopping_def relay_defs split: relay_pc.splits)
  have "turns_to_end pc \<le> 4" for pc by (cases pc) simp_all
  then show "turns_to_end (relay_pc (stop batch s)) \<le> turns es" using assms(2) by (meson order_trans)
qed

end
