(* ===== verification/Shutdown.thy ===== *)
theory Shutdown
  imports Outbox
begin

text \<open>
  \<^verbatim>\<open>ChatServer::shutdown\<close> of \<^verbatim>\<open>server/ChatServer.h\<close>: the order in which the parts of the server are stopped and
  destroyed, against the delivery reports that the Kafka client still brings. A report is a call of a
  method of the outbox service, so that the service has to live until the last one.
\<close>

section \<open>The order\<close>

datatype closing_step = FlushQueue | HttpDown | WsDown | WorkersDown | ConsumerStop | RelayStop | ProducerStop
  | ConsumerReset | ProducerReset | OutboxReset | LoopQuit

definition shutdown_order :: "closing_step list" where
  "shutdown_order = [FlushQueue, HttpDown, WsDown, WorkersDown, ConsumerStop, RelayStop, ProducerStop, ConsumerReset, ProducerReset,
     OutboxReset, LoopQuit]"

record closing =
  todo :: "closing_step list"
  relay_on :: bool
  in_flight :: "int list"
  outbox_alive :: bool
  cl_db :: db
  used_dead :: bool

definition open_server :: "db \<Rightarrow> int list \<Rightarrow> closing" where
  "open_server d ids = \<lparr>todo = shutdown_order, relay_on = True, in_flight = ids, outbox_alive = True, cl_db = d, used_dead = False\<rparr>"

text \<open>What a report says: the calls it makes to the database, whether the message was delivered, and the error.\<close>

type_synonym report = "outcome \<times> bool \<times> string"

definition deliver_report :: "int \<Rightarrow> report \<Rightarrow> closing \<Rightarrow> closing" where
  "deliver_report i r s =
     (if outbox_alive s then (case r of (ok, good, err) \<Rightarrow> s\<lparr>cl_db := onDelivery ok i good err (cl_db s)\<rparr>) else s\<lparr>used_dead := True\<rparr>)
       \<lparr>in_flight := remove1 i (in_flight s)\<rparr>"

text \<open>
  One step of \<^verbatim>\<open>shutdown\<close>. Stopping the producer waits for the reports, for a limited time: \<open>late\<close> are
  the rows whose report does not come before it gives up. The relay produces nothing any more
  once it is stopped; resetting the outbox service destroys it.
\<close>

definition shutdown_turn :: "(int \<Rightarrow> bool) \<Rightarrow> (int \<Rightarrow> report) \<Rightarrow> closing \<Rightarrow> closing" where
  "shutdown_turn late rep s =
     (case todo s of [] \<Rightarrow> s
      | x # xs \<Rightarrow>
        (let s1 = (case x of
             RelayStop \<Rightarrow> s\<lparr>relay_on := False\<rparr>
           | ProducerStop \<Rightarrow> foldl (\<lambda>s i. deliver_report i (rep i) s) s (filter (\<lambda>i. \<not> late i) (in_flight s))
           | OutboxReset \<Rightarrow> s\<lparr>outbox_alive := False\<rparr>
           | _ \<Rightarrow> s)
         in s1\<lparr>todo := xs\<rparr>))"

datatype closing_event = Turn "int \<Rightarrow> bool" "int \<Rightarrow> report" | Produced int | Report int report

definition closing_run :: "closing \<Rightarrow> closing_event \<Rightarrow> closing" where
  "closing_run s e =
     (case e of
        Turn late rep \<Rightarrow> shutdown_turn late rep s
      | Produced i \<Rightarrow> (if relay_on s then s\<lparr>in_flight := in_flight s @ [i]\<rparr> else s)
      | Report i r \<Rightarrow> (if i \<in> set (in_flight s) then deliver_report i r s else s))"

section \<open>No report comes too late\<close>

definition in_time :: "closing_event \<Rightarrow> bool" where
  "in_time e = (case e of Turn late rep \<Rightarrow> late = (\<lambda>i. False) | _ \<Rightarrow> True)"

definition closing_ok :: "closing \<Rightarrow> bool" where
  "closing_ok s \<longleftrightarrow> \<not> used_dead s \<and> todo s \<in> set (map (\<lambda>n. drop n shutdown_order) [0..<12]) \<and>
     (OutboxReset \<in> set (todo s) \<longrightarrow> outbox_alive s) \<and> (RelayStop \<notin> set (todo s) \<longrightarrow> \<not> relay_on s) \<and>
     (ProducerStop \<notin> set (todo s) \<longrightarrow> in_flight s = [])"

lemma deliver_report_fields [simp]:
  "todo (deliver_report i r s) = todo s" "relay_on (deliver_report i r s) = relay_on s" "outbox_alive (deliver_report i r s) = outbox_alive s"
  "in_flight (deliver_report i r s) = remove1 i (in_flight s)" "used_dead (deliver_report i r s) = (used_dead s \<or> \<not> outbox_alive s)"
  by (cases r; simp add: deliver_report_def)+

lemma flush_fields:
  "todo (foldl (\<lambda>s i. deliver_report i (rep i) s) s is) = todo s"
  "relay_on (foldl (\<lambda>s i. deliver_report i (rep i) s) s is) = relay_on s"
  "outbox_alive (foldl (\<lambda>s i. deliver_report i (rep i) s) s is) = outbox_alive s"
  "in_flight (foldl (\<lambda>s i. deliver_report i (rep i) s) s is) = foldl (\<lambda>xs i. remove1 i xs) (in_flight s) is"
  "outbox_alive s \<Longrightarrow> used_dead (foldl (\<lambda>s i. deliver_report i (rep i) s) s is) = used_dead s"
  by (induction "is" arbitrary: s) simp_all

lemma remove_all: "foldl (\<lambda>xs i. remove1 i xs) is is = []"
  by (induction "is") simp_all

lemma closing_ok_step:
  assumes "in_time e" "closing_ok s"
  shows "closing_ok (closing_run s e)"
proof (cases e)
  case (Turn late rep)
  have t: "todo s \<in> set (map (\<lambda>n. drop n shutdown_order) [0..<12])" using assms(2) by (simp add: closing_ok_def)
  then show ?thesis using assms Turn
    by (auto simp: upt_rec shutdown_order_def closing_run_def shutdown_turn_def in_time_def closing_ok_def flush_fields remove_all)
next
  case (Produced i)
  then show ?thesis using assms by (auto simp: closing_run_def closing_ok_def upt_rec shutdown_order_def)
next
  case (Report i r)
  then show ?thesis using assms by (auto simp: closing_run_def closing_ok_def upt_rec shutdown_order_def)
qed

lemma closing_ok_open: "closing_ok (open_server d ids)"
  by (simp add: closing_ok_def open_server_def shutdown_order_def upt_rec)

interpretation closing: guarded_machine "open_server d ids" closing_run in_time closing_ok
  by unfold_locales (rule closing_ok_open, rule closing_ok_step)

text \<open>
  Whatever the relay still produces and whenever the reports arrive, no report reaches a destroyed outbox
  service, and when the service is destroyed no report is outstanding, provided the Kafka client brings
  the outstanding reports while it is being stopped.
\<close>

theorem shutdown_outlives_reports:
  assumes "list_all in_time es"
  shows "let s = foldl closing_run (open_server d ids) es in \<not> used_dead s \<and> (\<not> outbox_alive s \<longrightarrow> in_flight s = [])"
proof -
  have "closing_ok (foldl closing_run (open_server d ids) es)" by (rule closing.run_inv [OF assms])
  then show ?thesis by (auto simp: closing_ok_def shutdown_order_def upt_rec Let_def)
qed

theorem shutdown_outlives_reports_witness:
  "let t = Turn (\<lambda>i. False) (\<lambda>i. (\<lambda>c. True, True, [])); s = foldl closing_run (open_server empty_db [4]) (Produced 5 # replicate 11 t)
   in todo s = [] \<and> \<not> outbox_alive s \<and> \<not> used_dead s \<and> in_flight s = []"
proof -
  let ?t = "Turn (\<lambda>i. False) (\<lambda>i. (\<lambda>c. True, True, []))"
  let ?es = "Produced 5 # replicate 11 ?t"
  have "list_all in_time ?es" by (simp add: in_time_def list_all_iff)
  moreover have "todo (foldl closing_run (open_server empty_db [4]) ?es) = [] \<and> \<not> outbox_alive (foldl closing_run (open_server empty_db [4]) ?es)"
    by code_simp
  ultimately show ?thesis using shutdown_outlives_reports [of ?es empty_db "[4]"] unfolding Let_def by blast
qed

text \<open>
  The proviso is needed: a report that comes after the producer has given up waiting and the server has
  shut down is a call on the destroyed service.
\<close>

theorem late_report_uses_destroyed_service:
  assumes "i \<in> set ids" "late i"
  shows "used_dead (closing_run (foldl closing_run (open_server d ids) (replicate 11 (Turn late rep))) (Report i r))"
proof -
  have rem: "i \<in> set (foldl (\<lambda>xs j. remove1 j xs) xs js)" if "i \<in> set xs" "i \<notin> set js" for xs js
    using that by (induction js arbitrary: xs) auto
  have "i \<in> set (foldl (\<lambda>xs j. remove1 j xs) ids (filter (\<lambda>i. \<not> late i) ids))" using assms by (intro rem) auto
  then show ?thesis
    by (simp add: numeral_eq_Suc closing_run_def shutdown_turn_def open_server_def shutdown_order_def flush_fields)
qed

theorem late_report_uses_destroyed_service_witness:
  "used_dead (closing_run (foldl closing_run (open_server empty_db [4]) (replicate 11 (Turn (\<lambda>i. True) (\<lambda>i. (\<lambda>c. True, True, [])))))
     (Report 4 (\<lambda>c. True, True, [])))"
  by (rule late_report_uses_destroyed_service) simp_all

end
