(* ===== verification/Redis.thy ===== *)
theory Redis
  imports Json
begin

text \<open>
  The Redis commands the server sends, on a store of strings with optional expiry, lists and
  a log of published messages: \<^verbatim>\<open>SET\<close> with a lifetime, \<^verbatim>\<open>GET\<close>, \<^verbatim>\<open>DEL\<close>, \<^verbatim>\<open>EXISTS\<close>, \<^verbatim>\<open>EXPIRE\<close>, \<^verbatim>\<open>INCR\<close>,
  \<^verbatim>\<open>LPUSH\<close>, \<^verbatim>\<open>LRANGE\<close>, \<^verbatim>\<open>LTRIM\<close>, \<^verbatim>\<open>KEYS\<close> with a pattern that ends in a star, \<^verbatim>\<open>PUBLISH\<close>. It is
  an instance of the interface at the end, which is all the components rely on. Time is
  in milliseconds, lifetimes in seconds. A connection that cannot be had is the \<open>Acquire\<close>
  outcome of the operation that asks for it.
\<close>

record redis =
  kv :: "(string \<times> string \<times> ms option) list"
  queues :: "(string \<times> string list) list"
  published :: "(string \<times> string) list"

definition empty_redis :: redis where
  "empty_redis = \<lparr>kv = [], queues = [], published = []\<rparr>"

definition alive :: "ms \<Rightarrow> ms option \<Rightarrow> bool" where
  "alive now e \<longleftrightarrow> (case e of None \<Rightarrow> True | Some t \<Rightarrow> now < t)"

definition r_lookup :: "ms \<Rightarrow> string \<Rightarrow> redis \<Rightarrow> string option" where
  "r_lookup now k r = (case map_of (kv r) k of None \<Rightarrow> None
     | Some (v, e) \<Rightarrow> if alive now e then Some v else None)"

definition r_get :: "ms \<Rightarrow> string \<Rightarrow> redis \<Rightarrow> string" where
  "r_get now k r = (case r_lookup now k r of None \<Rightarrow> [] | Some v \<Rightarrow> v)"

definition r_exists :: "ms \<Rightarrow> string \<Rightarrow> redis \<Rightarrow> bool" where
  "r_exists now k r \<longleftrightarrow> r_lookup now k r \<noteq> None"

text \<open>A lifetime that is not positive is refused.\<close>

definition r_setex :: "ms \<Rightarrow> string \<Rightarrow> string \<Rightarrow> int \<Rightarrow> redis \<Rightarrow> redis" where
  "r_setex now k v ttl r = (if ttl \<le> 0 then r else r\<lparr>kv := put k (v, Some (now + 1000 * ttl)) (kv r)\<rparr>)"

definition r_set :: "string \<Rightarrow> string \<Rightarrow> redis \<Rightarrow> redis" where
  "r_set k v r = r\<lparr>kv := put k (v, None) (kv r)\<rparr>"

definition r_del :: "string \<Rightarrow> redis \<Rightarrow> redis" where
  "r_del k r = r\<lparr>kv := erase k (kv r)\<rparr>"

definition r_expire :: "ms \<Rightarrow> string \<Rightarrow> int \<Rightarrow> redis \<Rightarrow> redis" where
  "r_expire now k ttl r = (case r_lookup now k r of None \<Rightarrow> r
     | Some v \<Rightarrow> r\<lparr>kv := put k (v, Some (now + 1000 * ttl)) (kv r)\<rparr>)"

text \<open>\<^verbatim>\<open>INCR\<close>: a missing key counts as 0, a value that is no number is refused, the expiry stays.\<close>

definition r_incr :: "ms \<Rightarrow> string \<Rightarrow> redis \<Rightarrow> redis" where
  "r_incr now k r =
     (case r_lookup now k r of
        None \<Rightarrow> r\<lparr>kv := put k (''1'', None) (kv r)\<rparr>
      | Some v \<Rightarrow>
        (case stoll v of
           Some n \<Rightarrow> if to_string n = v
             then r\<lparr>kv := put k (to_string (n + 1), snd (the (map_of (kv r) k))) (kv r)\<rparr> else r
         | None \<Rightarrow> r))"

definition r_list :: "string \<Rightarrow> redis \<Rightarrow> string list" where
  "r_list k r = (case map_of (queues r) k of None \<Rightarrow> [] | Some xs \<Rightarrow> xs)"

definition r_lpush :: "string \<Rightarrow> string \<Rightarrow> redis \<Rightarrow> redis" where
  "r_lpush k v r = r\<lparr>queues := put k (v # r_list k r) (queues r)\<rparr>"

definition r_lrange :: "string \<Rightarrow> nat \<Rightarrow> redis \<Rightarrow> string list" where
  "r_lrange k n r = take n (r_list k r)"

definition r_ltrim :: "string \<Rightarrow> nat \<Rightarrow> redis \<Rightarrow> redis" where
  "r_ltrim k n r = r\<lparr>queues := put k (drop n (r_list k r)) (queues r)\<rparr>"

definition r_keys :: "ms \<Rightarrow> string \<Rightarrow> redis \<Rightarrow> string list" where
  "r_keys now pre r = remdups (filter (\<lambda>k. starts_with pre k \<and> r_lookup now k r \<noteq> None) (map fst (kv r)))"

definition r_publish :: "string \<Rightarrow> string \<Rightarrow> redis \<Rightarrow> redis" where
  "r_publish channel payload r = r\<lparr>published := published r @ [(channel, payload)]\<rparr>"

lemma empty_redis_lookup [simp]: "r_lookup t k empty_redis = None" "r_list k empty_redis = []"
  by (simp_all add: r_lookup_def r_list_def empty_redis_def)

lemma r_lookup_setex [simp]:
  "0 < ttl \<Longrightarrow> r_lookup t k' (r_setex now k v ttl r) =
    (if k' = k then (if t < now + 1000 * ttl then Some v else None) else r_lookup t k' r)"
  by (simp add: r_lookup_def r_setex_def alive_def)

lemma r_lookup_set [simp]: "r_lookup t k' (r_set k v r) = (if k' = k then Some v else r_lookup t k' r)"
  by (simp add: r_lookup_def r_set_def alive_def)

lemma r_lookup_del [simp]: "r_lookup t k' (r_del k r) = (if k' = k then None else r_lookup t k' r)"
  by (simp add: r_lookup_def r_del_def)

lemma r_lookup_expire [simp]: "k' \<noteq> k \<Longrightarrow> r_lookup t k' (r_expire now k ttl r) = r_lookup t k' r"
  by (auto simp: r_lookup_def r_expire_def split: option.splits)

lemma r_lookup_incr [simp]: "k' \<noteq> k \<Longrightarrow> r_lookup t k' (r_incr now k r) = r_lookup t k' r"
  by (auto simp: r_lookup_def r_incr_def split: option.splits)

lemma r_lookup_lists [simp]:
  "r_lookup t k' (r_lpush k v r) = r_lookup t k' r" "r_lookup t k' (r_ltrim k n r) = r_lookup t k' r"
  "r_lookup t k' (r_publish c p r) = r_lookup t k' r"
  by (simp_all add: r_lookup_def r_lpush_def r_ltrim_def r_publish_def)

lemma r_list_push [simp]:
  "r_list k' (r_lpush k v r) = (if k' = k then v # r_list k r else r_list k' r)"
  "r_list k' (r_ltrim k n r) = (if k' = k then drop n (r_list k r) else r_list k' r)"
  by (simp_all add: r_list_def r_lpush_def r_ltrim_def)

lemma r_lookup_expire_same:
  "r_lookup t k (r_expire now k ttl r) =
    (case r_lookup now k r of None \<Rightarrow> r_lookup t k r
     | Some v \<Rightarrow> if t < now + 1000 * ttl then Some v else None)"
  by (auto simp: r_lookup_def r_expire_def alive_def split: option.splits)

lemma set_r_keys: "k \<in> set (r_keys now pre r) \<longleftrightarrow> starts_with pre k \<and> r_lookup now k r \<noteq> None"
proof -
  have "r_lookup now k r \<noteq> None \<Longrightarrow> k \<in> fst ` set (kv r)"
    by (auto simp: r_lookup_def split: option.splits if_splits dest: map_of_SomeD intro: rev_image_eqI)
  then show ?thesis by (auto simp: r_keys_def)
qed

section \<open>Interface\<close>

text \<open>
  The server reaches Redis through a client library outside the repository. The operations of
  the components take the commands as an argument, and what they rely on is the documented
  behaviour of the commands, the laws of the locale below: an entry written with a lifetime is
  there for exactly that long, a command changes no other key, a list is a list.
\<close>

record 'r redis_ops =
  look :: "ms \<Rightarrow> string \<Rightarrow> 'r \<Rightarrow> string option"
  setex :: "ms \<Rightarrow> string \<Rightarrow> string \<Rightarrow> int \<Rightarrow> 'r \<Rightarrow> 'r"
  setkey :: "string \<Rightarrow> string \<Rightarrow> 'r \<Rightarrow> 'r"
  del :: "string \<Rightarrow> 'r \<Rightarrow> 'r"
  expire :: "ms \<Rightarrow> string \<Rightarrow> int \<Rightarrow> 'r \<Rightarrow> 'r"
  incr :: "ms \<Rightarrow> string \<Rightarrow> 'r \<Rightarrow> 'r"
  keys :: "ms \<Rightarrow> string \<Rightarrow> 'r \<Rightarrow> string list"
  publish :: "string \<Rightarrow> string \<Rightarrow> 'r \<Rightarrow> 'r"
  items :: "string \<Rightarrow> 'r \<Rightarrow> string list"
  lpush :: "string \<Rightarrow> string \<Rightarrow> 'r \<Rightarrow> 'r"
  lrange :: "string \<Rightarrow> nat \<Rightarrow> 'r \<Rightarrow> string list"
  ltrim :: "string \<Rightarrow> nat \<Rightarrow> 'r \<Rightarrow> 'r"

definition exists :: "'r redis_ops \<Rightarrow> ms \<Rightarrow> string \<Rightarrow> 'r \<Rightarrow> bool" where
  "exists R now k r \<longleftrightarrow> look R now k r \<noteq> None"

locale expiring_store =
  fixes R :: "'r redis_ops"
  assumes look_setex: "0 < ttl \<Longrightarrow> look R t k' (setex R now k v ttl s) =
      (if k' = k then (if t < now + 1000 * ttl then Some v else None) else look R t k' s)"
    and look_setkey: "look R t k' (setkey R k v s) = (if k' = k then Some v else look R t k' s)"
    and look_del: "look R t k' (del R k s) = (if k' = k then None else look R t k' s)"
    and look_expire: "look R t k' (expire R now k ttl s) =
      (if k' = k then (case look R now k s of None \<Rightarrow> look R t k s
         | Some v \<Rightarrow> if t < now + 1000 * ttl then Some v else None)
       else look R t k' s)"
    and look_incr: "k' \<noteq> k \<Longrightarrow> look R t k' (incr R now k s) = look R t k' s"
    and look_publish: "look R t k' (publish R c p s) = look R t k' s"
    and set_keys: "k \<in> set (keys R now pre s) \<longleftrightarrow> starts_with pre k \<and> look R now k s \<noteq> None"

locale list_store =
  fixes R :: "'r redis_ops"
  assumes items_lpush: "items R k' (lpush R k v s) = (if k' = k then v # items R k s else items R k' s)"
    and lrange_items: "lrange R k n s = take n (items R k s)"
    and items_ltrim: "items R k' (ltrim R k n s) = (if k' = k then drop n (items R k s) else items R k' s)"
    and items_incr: "items R k' (incr R now k s) = items R k' s"
    and items_publish: "items R k' (publish R c p s) = items R k' s"

datatype redis_cmd = SetEx ms string string int | SetKey string string | Del string | Expire ms string int
  | Incr ms string | Publish string string

primrec cmd_key :: "redis_cmd \<Rightarrow> string" where
  "cmd_key (SetEx n k v t) = k" | "cmd_key (SetKey k v) = k" | "cmd_key (Del k) = k" | "cmd_key (Expire n k t) = k"
| "cmd_key (Incr n k) = k" | "cmd_key (Publish c p) = c"

primrec run_cmd :: "'r redis_ops \<Rightarrow> redis_cmd \<Rightarrow> 'r \<Rightarrow> 'r" where
  "run_cmd R (SetEx n k v t) = (if 0 < t then setex R n k v t else id)"
| "run_cmd R (SetKey k v) = setkey R k v" | "run_cmd R (Del k) = del R k"
| "run_cmd R (Expire n k t) = expire R n k t" | "run_cmd R (Incr n k) = incr R n k"
| "run_cmd R (Publish c p) = publish R c p"

context expiring_store
begin

lemma look_other: "cmd_key c \<noteq> k \<Longrightarrow> look R t k (run_cmd R c s) = look R t k s"
  by (cases c) (auto simp: look_setex look_setkey look_del look_expire look_incr look_publish)

lemma look_others: "k \<notin> cmd_key ` set cs \<Longrightarrow> look R t k (fold (run_cmd R) cs s) = look R t k s"
  by (induction cs arbitrary: s) (auto simp: look_other)

lemma kept_for_its_lifetime:
  assumes "0 < ttl" "k \<notin> cmd_key ` set cs"
  shows "look R t k (fold (run_cmd R) cs (setex R now k v ttl s)) = (if t < now + 1000 * ttl then Some v else None)"
  using assms by (simp add: look_others look_setex)

lemma renewed:
  assumes "look R now k s = Some v" "t < now + 1000 * ttl"
  shows "look R t k (expire R now k ttl s) = Some v"
  using assms by (simp add: look_expire)

lemma del_all: "look R t k (fold (del R) ks s) = (if k \<in> set ks then None else look R t k s)"
  by (induction ks arbitrary: s) (auto simp: look_del)

end

definition redis_ops :: "redis redis_ops" where
  "redis_ops = \<lparr>look = r_lookup, setex = r_setex, setkey = r_set, del = r_del, expire = r_expire, incr = r_incr,
     keys = r_keys, publish = r_publish, items = r_list, lpush = r_lpush, lrange = r_lrange, ltrim = r_ltrim\<rparr>"

lemma redis_ops_sel [simp]:
  "look redis_ops = r_lookup" "setex redis_ops = r_setex" "setkey redis_ops = r_set" "del redis_ops = r_del" "expire redis_ops = r_expire"
  "incr redis_ops = r_incr" "keys redis_ops = r_keys" "publish redis_ops = r_publish" "items redis_ops = r_list"
  "lpush redis_ops = r_lpush" "lrange redis_ops = r_lrange" "ltrim redis_ops = r_ltrim"
  by (simp_all add: redis_ops_def)

interpretation rs: expiring_store redis_ops
  by unfold_locales (auto simp: r_lookup_expire_same set_r_keys split: option.split)

lemma r_list_keys [simp]: "r_list k' (r_incr now k r) = r_list k' r" "r_list k' (r_publish c p r) = r_list k' r"
  by (auto simp: r_list_def r_incr_def r_publish_def split: option.split)

interpretation rl: list_store redis_ops
  by unfold_locales (auto simp: r_lrange_def)

end
