(* ===== verification/Online.thy ===== *)
theory Online
  imports Redis Protocol Jwt
begin

text \<open>
  \<^verbatim>\<open>server/OnlineManager.h\<close>: the table of WebSocket sessions by user and device, and the presence
  keys it keeps in Redis for the other instances; \<^verbatim>\<open>server/InstanceRouter.h\<close>: the search for those
  keys and the publication of a message to the instances that hold them. A session is a
  handle (\<open>None\<close> the null pointer), whether it is open is asked of the WebSocket library, and
  what is written to sessions is returned as a list of frames.
\<close>

section \<open>State and operations\<close>

type_synonym wsid = nat
type_synonym devices = "(string \<times> wsid option) list"

datatype frame = Text wsid string | CloseSession wsid int

record online =
  has_redis :: bool
  instanceId :: string
  sessions :: "(uid \<times> devices) list"

definition new_online :: "bool \<Rightarrow> string \<Rightarrow> online" where
  "new_online redis inst = \<lparr>has_redis = redis, instanceId = inst, sessions = []\<rparr>"

definition kOnlineTtlSec :: int where "kOnlineTtlSec = 30"

definition kOnlineRefreshSec :: int where "kOnlineRefreshSec = 5"

definition kDefaultDevice :: string where "kDefaultDevice = ''default''"

definition keyOnlineUid :: "uid \<Rightarrow> string" where
  "keyOnlineUid userId = ''online:{'' @ to_string userId @ ''}''"

definition keyOnline :: "uid \<Rightarrow> string \<Rightarrow> string" where
  "keyOnline userId dev = ''online:{'' @ to_string userId @ ''}:'' @ dev"

definition device_name :: "string \<Rightarrow> string" where
  "device_name deviceId = (if deviceId = [] then kDefaultDevice else deviceId)"

definition devices_of :: "uid \<Rightarrow> online \<Rightarrow> devices" where
  "devices_of userId om = (case map_of (sessions om) userId of None \<Rightarrow> [] | Some ds \<Rightarrow> ds)"

text \<open>The part of an operation that runs on a Redis connection, when there is a pool and it has one.\<close>

definition with_redis :: "outcome \<Rightarrow> online \<Rightarrow> ('r \<Rightarrow> 'r) \<Rightarrow> 'r \<Rightarrow> 'r" where
  "with_redis ok om f r = (if has_redis om \<and> ok Acquire then f r else r)"

definition addDevice :: "'r redis_ops \<Rightarrow> outcome \<Rightarrow> ms \<Rightarrow> uid \<Rightarrow> string \<Rightarrow> wsid option \<Rightarrow> online \<times> 'r \<Rightarrow> online \<times> 'r" where
  "addDevice R ok now userId deviceId session st =
     (let (om, r) = st; dev = device_name deviceId;
          om' = om\<lparr>sessions := put userId (put dev session (devices_of userId om)) (sessions om)\<rparr>
      in (om', with_redis ok om (setex R now (keyOnline userId dev) (instanceId om) kOnlineTtlSec) r))"

definition addUser :: "'r redis_ops \<Rightarrow> outcome \<Rightarrow> ms \<Rightarrow> uid \<Rightarrow> wsid option \<Rightarrow> online \<times> 'r \<Rightarrow> online \<times> 'r" where
  "addUser R ok now userId session st = addDevice R ok now userId kDefaultDevice session st"

text \<open>Erasing a device and, when it was the last one, the user's entry; says whether it was the last.\<close>

definition drop_device :: "uid \<Rightarrow> string \<Rightarrow> online \<Rightarrow> bool \<times> online" where
  "drop_device userId dev om =
     (case map_of (sessions om) userId of
        None \<Rightarrow> (False, om)
      | Some ds \<Rightarrow>
        (let ds' = erase dev ds
         in if ds' = [] then (True, om\<lparr>sessions := erase userId (sessions om)\<rparr>)
            else (False, om\<lparr>sessions := put userId ds' (sessions om)\<rparr>)))"

definition removeDevice :: "'r redis_ops \<Rightarrow> outcome \<Rightarrow> uid \<Rightarrow> string \<Rightarrow> online \<times> 'r \<Rightarrow> online \<times> 'r" where
  "removeDevice R ok userId deviceId st =
     (let (om, r) = st; dev = device_name deviceId; (lastOne, om') = drop_device userId dev om
      in (om', with_redis ok om (\<lambda>r. let r1 = del R (keyOnline userId dev) r
                                     in if lastOne then del R (keyOnlineUid userId) r1 else r1) r))"

definition removeUser :: "'r redis_ops \<Rightarrow> outcome \<Rightarrow> uid \<Rightarrow> online \<times> 'r \<Rightarrow> online \<times> 'r" where
  "removeUser R ok userId st =
     (let (om, r) = st; devs = map fst (devices_of userId om)
      in (om\<lparr>sessions := erase userId (sessions om)\<rparr>,
          with_redis ok om (\<lambda>r. del R (keyOnlineUid userId) (fold (\<lambda>d. del R (keyOnline userId d)) devs r)) r))"

definition refreshOnline :: "'r redis_ops \<Rightarrow> outcome \<Rightarrow> ms \<Rightarrow> uid \<Rightarrow> online \<times> 'r \<Rightarrow> online \<times> 'r" where
  "refreshOnline R ok now userId st =
     (let (om, r) = st; devs = map fst (devices_of userId om)
      in if devs = [] then st
         else (om, with_redis ok om (fold (\<lambda>d. expire R now (keyOnline userId d) kOnlineTtlSec) devs) r))"

definition usable :: "(wsid \<Rightarrow> bool) \<Rightarrow> wsid option \<Rightarrow> bool" where
  "usable opn s = (case s of None \<Rightarrow> False | Some w \<Rightarrow> opn w)"

definition getSessions :: "(wsid \<Rightarrow> bool) \<Rightarrow> uid \<Rightarrow> online \<Rightarrow> wsid list" where
  "getSessions opn userId om = map (\<lambda>p. the (snd p)) (filter (\<lambda>p. usable opn (snd p)) (devices_of userId om))"

definition getSession :: "(wsid \<Rightarrow> bool) \<Rightarrow> uid \<Rightarrow> online \<Rightarrow> wsid option" where
  "getSession opn userId om =
     (case find (\<lambda>p. usable opn (snd p)) (devices_of userId om) of Some p \<Rightarrow> snd p | None \<Rightarrow> None)"

definition getOtherSessions :: "(wsid \<Rightarrow> bool) \<Rightarrow> uid \<Rightarrow> string \<Rightarrow> online \<Rightarrow> wsid list" where
  "getOtherSessions opn userId excludeDevice om =
     (let excl = device_name excludeDevice
      in map (\<lambda>p. the (snd p)) (filter (\<lambda>p. fst p \<noteq> excl \<and> usable opn (snd p)) (devices_of userId om)))"

definition isOnline :: "'r redis_ops \<Rightarrow> (wsid \<Rightarrow> bool) \<Rightarrow> outcome \<Rightarrow> ms \<Rightarrow> uid \<Rightarrow> online \<times> 'r \<Rightarrow> bool" where
  "isOnline R opn ok now userId st =
     (let (om, r) = st
      in if list_ex (\<lambda>p. usable opn (snd p)) (devices_of userId om) then True
         else if has_redis om \<and> ok Acquire then exists R now (keyOnlineUid userId) r
         else False)"

definition getOnlineUsers :: "(wsid \<Rightarrow> bool) \<Rightarrow> online \<Rightarrow> uid list" where
  "getOnlineUsers opn om =
     map fst (filter (\<lambda>p. list_ex (\<lambda>q. usable opn (snd q)) (snd p)) (sessions om))"

fun findByDeviceSession :: "wsid option \<Rightarrow> (uid \<times> devices) list \<Rightarrow> uid \<times> string" where
  "findByDeviceSession s [] = (-1, [])"
| "findByDeviceSession s ((u, ds) # rest) =
     (case find (\<lambda>p. snd p = s) ds of Some p \<Rightarrow> (u, fst p) | None \<Rightarrow> findByDeviceSession s rest)"

definition getUserId :: "wsid option \<Rightarrow> online \<Rightarrow> uid" where
  "getUserId s om = fst (findByDeviceSession s (sessions om))"

definition kick_json :: "string \<Rightarrow> json" where
  "kick_json deviceId = obj [(''type'', JStr ''device_kicked''),
     (''reason'', JStr ''kicked_by_admin_or_other_device''), (''deviceId'', JStr deviceId)]"

definition kickDevice :: "jlib \<Rightarrow> 'r redis_ops \<Rightarrow> outcome \<Rightarrow> uid \<Rightarrow> string \<Rightarrow> online \<times> 'r
    \<Rightarrow> (bool \<times> frame list) \<times> online \<times> 'r" where
  "kickDevice L R ok userId deviceId st =
     (let (om, r) = st
      in case map_of (devices_of userId om) deviceId of
           None \<Rightarrow> ((False, []), st)
         | Some s \<Rightarrow>
             ((True, case s of None \<Rightarrow> [] | Some w \<Rightarrow> [Text w (lib_dump L (kick_json deviceId)), CloseSession w 1000]),
              snd (drop_device userId deviceId om), with_redis ok om (del R (keyOnline userId deviceId)) r))"

definition closeAll :: "(wsid \<Rightarrow> bool) \<Rightarrow> online \<Rightarrow> frame list \<times> online" where
  "closeAll opn om =
     (concat (map (\<lambda>p. map (\<lambda>q. CloseSession (the (snd q)) 1000) (filter (\<lambda>q. usable opn (snd q)) (snd p)))
                  (sessions om)),
      om\<lparr>sessions := []\<rparr>)"

definition broadcastToUser :: "(wsid \<Rightarrow> bool) \<Rightarrow> uid \<Rightarrow> string \<Rightarrow> online \<Rightarrow> int \<times> frame list" where
  "broadcastToUser opn userId message om =
     (let ss = getSessions opn userId om in (int (length ss), map (\<lambda>w. Text w message) ss))"

text \<open>The timer of \<^verbatim>\<open>ChatServer::start\<close> that renews the keys of everybody online.\<close>

definition refresh_round :: "'r redis_ops \<Rightarrow> (wsid \<Rightarrow> bool) \<Rightarrow> (uid \<Rightarrow> outcome) \<Rightarrow> ms \<Rightarrow> online \<times> 'r \<Rightarrow> online \<times> 'r" where
  "refresh_round R opn oks now st =
     fold (\<lambda>u. refreshOnline R (oks u) now u) (getOnlineUsers opn (fst st)) st"

section \<open>The search for other instances\<close>

text \<open>
  \<^verbatim>\<open>InstanceRouter::publishToUser\<close>: \<open>ok Acquire\<close> is the publishing connection, \<open>ok (Query 1)\<close> the
  reply to \<^verbatim>\<open>KEYS\<close>, \<open>got k\<close> the reply to \<^verbatim>\<open>GET\<close> of the key \<open>k\<close> and \<open>pub i\<close> that of \<^verbatim>\<open>PUBLISH\<close> to the
  instance \<open>i\<close>. The targets are a \<^verbatim>\<open>std::set\<close>.
\<close>

definition presence_pattern :: "uid \<Rightarrow> string" where
  "presence_pattern userId = ''online:'' @ to_string userId @ '':''"

definition router_targets :: "'r redis_ops \<Rightarrow> ms \<Rightarrow> (string \<Rightarrow> bool) \<Rightarrow> uid \<Rightarrow> 'r \<Rightarrow> string list" where
  "router_targets R now got userId r =
     sorted_list_of_set (set (List.map_filter (\<lambda>k. if got k then look R now k r else None)
                                (keys R now (presence_pattern userId) r)))"

definition publishToUser :: "'r redis_ops \<Rightarrow> outcome \<Rightarrow> (string \<Rightarrow> bool) \<Rightarrow> (string \<Rightarrow> bool) \<Rightarrow> ms \<Rightarrow> string \<Rightarrow> uid \<Rightarrow> string
    \<Rightarrow> 'r \<Rightarrow> int \<times> 'r" where
  "publishToUser R ok got pub now inst userId payload r =
     (if \<not> ok Acquire \<or> \<not> ok (Query 1) then (0, r)
      else foldl (\<lambda>(n, r) target.
             if target = inst \<or> \<not> pub target then (n, r)
             else (n + 1, publish R (''msg:instance:'' @ target) payload r))
             (0, r) (router_targets R now got userId r))"

text \<open>A reply read from the subscription, as far as \<^verbatim>\<open>handleSubReply\<close> looks at it.\<close>

datatype sub_reply = NoArray | Elements "string option list"

definition handleSubReply :: "sub_reply \<Rightarrow> (int \<times> string \<times> string) option" where
  "handleSubReply reply =
     (case reply of
        Elements (e0 # e1 # e2 # _) \<Rightarrow>
          (case (e0, e2) of
             (Some kind, Some payload) \<Rightarrow> if kind \<noteq> ''message'' then None else Some (0, [], payload)
           | _ \<Rightarrow> None)
      | _ \<Rightarrow> None)"

text \<open>The callback \<^verbatim>\<open>ChatServer::enableInstanceRouter\<close> installs; an exception ends it.\<close>

definition deliver :: "jlib \<Rightarrow> (wsid \<Rightarrow> bool) \<Rightarrow> string \<Rightarrow> online \<Rightarrow> frame list" where
  "deliver L opn payload om =
     (case lib_parse L payload of None \<Rightarrow> []
      | Some j \<Rightarrow>
        (case value_str j ''to'' [] of None \<Rightarrow> []
         | Some t0 \<Rightarrow>
           (case (if t0 = [] then value_str j ''targetUid'' [] else Some t0) of None \<Rightarrow> []
            | Some t \<Rightarrow>
              if t = [] then []
              else (case stoll t of None \<Rightarrow> []
                    | Some target \<Rightarrow> snd (broadcastToUser opn target payload om)))))"

section \<open>The session table\<close>

definition table :: "online \<Rightarrow> uid \<times> string \<Rightarrow> wsid option option" where
  "table om = (\<lambda>(u, d). map_of (devices_of u om) d)"

definition om_ok :: "online \<Rightarrow> bool" where
  "om_ok om \<longleftrightarrow> uniq_keys (sessions om) \<and> list_all (\<lambda>p. uniq_keys (snd p) \<and> snd p \<noteq> []) (sessions om)"

lemma om_ok_devices: "om_ok om \<Longrightarrow> uniq_keys (devices_of u om)"
  by (auto simp: om_ok_def devices_of_def list_all_iff split: option.splits dest!: map_of_SomeD)

lemma list_all_put: "list_all P xs \<Longrightarrow> P (k, v) \<Longrightarrow> list_all P (put k v xs)"
  by (induction k v xs rule: put.induct) auto

lemma list_all_erase: "list_all P xs \<Longrightarrow> list_all P (erase k xs)"
  by (auto simp: list_all_iff erase_def)

lemma put_ne [simp]: "put k v xs \<noteq> []"
  by (induction k v xs rule: put.induct) auto

lemma devices_of_put [simp]:
  "devices_of u (om\<lparr>sessions := put v ds (sessions om)\<rparr>) = (if u = v then ds else devices_of u om)"
  by (simp add: devices_of_def)

lemma devices_of_erase [simp]:
  "devices_of u (om\<lparr>sessions := erase v (sessions om)\<rparr>) = (if u = v then [] else devices_of u om)"
  by (simp add: devices_of_def)

lemma drop_device_ok: "om_ok om \<Longrightarrow> om_ok (snd (drop_device u d om))"
  by (auto simp: drop_device_def om_ok_def Let_def split: option.splits
      intro!: list_all_put list_all_erase) (auto simp: list_all_iff dest!: map_of_SomeD)

lemma devices_of_drop: "devices_of v (snd (drop_device u d om)) = (if v = u then erase d (devices_of u om) else devices_of v om)"
proof (cases "map_of (sessions om) u")
  case None
  then show ?thesis by (simp add: drop_device_def devices_of_def erase_def)
next
  case (Some ds)
  then have "devices_of u om = ds" by (simp add: devices_of_def)
  with Some show ?thesis by (simp add: drop_device_def Let_def)
qed

lemma table_drop_device: "table (snd (drop_device u d om)) = (table om)((u, d) := None)"
  by (rule ext) (auto simp: table_def devices_of_drop split: if_splits)

text \<open>Histories of one manager: sessions come and go, keys are renewed, devices are kicked.\<close>

datatype om_event = Opened uid string "wsid option" | Closed uid string | UserOut uid | Renewed uid
  | Kicked uid string

fun om_step :: "jlib \<Rightarrow> 'r redis_ops \<Rightarrow> online \<times> 'r \<Rightarrow> (ms \<times> outcome) \<times> om_event \<Rightarrow> online \<times> 'r" where
  "om_step L R st ((now, ok), Opened u d s) = addDevice R ok now u d s st"
| "om_step L R st ((now, ok), Closed u d) = removeDevice R ok u d st"
| "om_step L R st ((now, ok), UserOut u) = removeUser R ok u st"
| "om_step L R st ((now, ok), Renewed u) = refreshOnline R ok now u st"
| "om_step L R st ((now, ok), Kicked u d) = snd (kickDevice L R ok u d st)"

text \<open>What a history means for the devices of the users.\<close>

fun spec_step :: "(uid \<times> string \<Rightarrow> wsid option option) \<Rightarrow> (ms \<times> outcome) \<times> om_event \<Rightarrow> (uid \<times> string \<Rightarrow> wsid option option)" where
  "spec_step m (c, Opened u d s) = m((u, device_name d) \<mapsto> s)"
| "spec_step m (c, Closed u d) = m((u, device_name d) := None)"
| "spec_step m (c, UserOut u) = (\<lambda>(v, d). if v = u then None else m (v, d))"
| "spec_step m (c, Renewed u) = m"
| "spec_step m (c, Kicked u d) = m((u, d) := None)"

lemma table_addDevice: "table (fst (addDevice R ok now u d s st)) = (table (fst st))((u, device_name d) \<mapsto> s)"
  by (auto simp: addDevice_def table_def Let_def fun_eq_iff split: prod.split)

lemma fst_removeDevice: "fst (removeDevice R ok u d st) = snd (drop_device u (device_name d) (fst st))"
  by (simp add: removeDevice_def Let_def split: prod.split)

lemma fst_removeUser: "fst (removeUser R ok u st) = (fst st)\<lparr>sessions := erase u (sessions (fst st))\<rparr>"
  by (simp add: removeUser_def Let_def split: prod.split)

lemma fst_refreshOnline [simp]: "fst (refreshOnline R ok now u st) = fst st"
  by (simp add: refreshOnline_def Let_def split: prod.split)

lemma fst_kickDevice: "fst (snd (kickDevice L R ok u d st)) =
    (if table (fst st) (u, d) = None then fst st else snd (drop_device u d (fst st)))"
  by (auto simp: kickDevice_def table_def Let_def split: prod.split option.split)

lemma om_step_ok: "om_ok (fst st) \<Longrightarrow> om_ok (fst (om_step L R st e))"
proof (induction L R st e rule: om_step.induct)
  case (1 L R st now ok u d s)
  then show ?case
    by (auto simp: addDevice_def Let_def om_ok_def om_ok_devices intro!: list_all_put split: prod.split)
next
  case (3 L R st now ok u)
  then show ?case by (simp add: fst_removeUser om_ok_def list_all_erase)
qed (simp_all add: fst_removeDevice fst_kickDevice drop_device_ok)

lemma om_step_table: "table (fst (om_step L R st e)) = spec_step (table (fst st)) e"
proof (induction L R st e rule: om_step.induct)
  case (3 L R st now ok u)
  then show ?case by (auto simp: fst_removeUser table_def fun_eq_iff)
next
  case (5 L R st now ok u d)
  then show ?case by (auto simp: fst_kickDevice table_drop_device fun_upd_idem)
qed (simp_all add: table_addDevice fst_removeDevice table_drop_device)

interpretation om: refining_machine "(new_online h i, r)" "om_step L R" "\<lambda>st. om_ok (fst st)"
    Map.empty spec_step "\<lambda>st. table (fst st)" for h i r L R
proof unfold_locales
  show "om_ok (fst (new_online h i, r))" by (simp add: new_online_def om_ok_def)
  show "table (fst (new_online h i, r)) = Map.empty"
    by (simp add: new_online_def table_def devices_of_def fun_eq_iff)
qed (simp_all add: om_step_ok om_step_table)

lemma getSessions_table:
  assumes "om_ok om"
  shows "w \<in> set (getSessions opn u om) \<longleftrightarrow> opn w \<and> (\<exists>d. table om (u, d) = Some (Some w))"
  using uniq_keys_mem [OF om_ok_devices [OF assms]]
  by (auto simp: getSessions_def table_def usable_def image_iff split: option.splits)

lemma getOtherSessions_table:
  assumes "om_ok om"
  shows "w \<in> set (getOtherSessions opn u x om) \<longleftrightarrow>
    opn w \<and> (\<exists>d. d \<noteq> device_name x \<and> table om (u, d) = Some (Some w))"
  using uniq_keys_mem [OF om_ok_devices [OF assms]]
  by (auto simp: getOtherSessions_def table_def usable_def image_iff Let_def split: option.splits)

lemma list_ex_usable: "list_ex (\<lambda>q. usable opn (snd q)) (devices_of u om) \<longleftrightarrow> getSessions opn u om \<noteq> []"
  by (simp add: getSessions_def filter_empty_conv list_ex_iff)

lemma getOnlineUsers_iff:
  assumes "om_ok om"
  shows "u \<in> set (getOnlineUsers opn om) \<longleftrightarrow> getSessions opn u om \<noteq> []"
proof -
  have "u \<in> set (getOnlineUsers opn om) \<longleftrightarrow>
    (\<exists>ds. (u, ds) \<in> set (sessions om) \<and> list_ex (\<lambda>q. usable opn (snd q)) ds)"
    by (auto simp: getOnlineUsers_def image_iff)
  also have "\<dots> \<longleftrightarrow> list_ex (\<lambda>q. usable opn (snd q)) (devices_of u om)"
    using assms uniq_keys_mem [of "sessions om" u]
    by (auto simp: om_ok_def devices_of_def split: option.splits)
  finally show ?thesis by (simp add: list_ex_usable)
qed

text \<open>
  C14. After every history of connects, disconnects, renewals and kicks, with Redis failing at
  will, the table holds for each user and device the session registered last and not taken out
  since; a broadcast to a user reaches exactly the open sessions of the table, the one to a
  user's other devices exactly the open sessions of the other devices, and the users listed as
  online are exactly those with an open session.
\<close>

theorem session_table_exact:
  "let om = fst (foldl (om_step L R) (new_online h i, r) es); m = foldl spec_step Map.empty es
   in table om = m
    \<and> set (getSessions opn u om) = {w. opn w \<and> (\<exists>d. m (u, d) = Some (Some w))}
    \<and> set (getOtherSessions opn u x om) = {w. opn w \<and> (\<exists>d. d \<noteq> device_name x \<and> m (u, d) = Some (Some w))}
    \<and> set (getOnlineUsers opn om) = {v. \<exists>d w. m (v, d) = Some (Some w) \<and> opn w}"
proof -
  define om where "om = fst (foldl (om_step L R) (new_online h i, r) es)"
  define m where "m = foldl spec_step Map.empty es"
  have ok: "om_ok om" unfolding om_def by (rule om.run_inv)
  have t: "table om = m" unfolding om_def m_def by (rule om.run_refines)
  have s: "set (getSessions opn v om) = {w. opn w \<and> (\<exists>d. m (v, d) = Some (Some w))}" for v
    by (auto simp: getSessions_table [OF ok] t)
  have "set (getOnlineUsers opn om) = {v. \<exists>d w. m (v, d) = Some (Some w) \<and> opn w}"
    unfolding set_eq_iff getOnlineUsers_iff [OF ok] set_empty [symmetric] s by blast
  moreover have "set (getOtherSessions opn u x om) =
      {w. opn w \<and> (\<exists>d. d \<noteq> device_name x \<and> m (u, d) = Some (Some w))}"
    by (auto simp: getOtherSessions_table [OF ok] t)
  ultimately show ?thesis unfolding Let_def om_def [symmetric] m_def [symmetric] by (simp add: t s)
qed

section \<open>Presence keys\<close>

lemma keyOnline_inj [simp]: "keyOnline u d = keyOnline u' d' \<longleftrightarrow> u = u' \<and> d = d'"
  using append_sep_inj [of "CHR ''}''" "to_string u" "to_string u'" "CHR '':'' # d" "CHR '':'' # d'"]
  by (auto simp: keyOnline_def to_string_no_brace)

lemma keyOnline_not_uid [simp]: "keyOnlineUid u \<noteq> keyOnline u' d"
  using append_sep_inj [of "CHR ''}''" "to_string u" "to_string u'" "[]" "CHR '':'' # d"]
  by (auto simp: keyOnline_def keyOnlineUid_def to_string_no_brace)

lemma kOnlineTtl_pos [simp]: "0 < kOnlineTtlSec"
  by (simp add: kOnlineTtlSec_def)

lemma with_redis_sel [simp]: "has_redis om \<Longrightarrow> ok Acquire \<Longrightarrow> with_redis ok om f r = f r"
  by (simp add: with_redis_def)

text \<open>Renewing a list of keys: a key of the list that is there gets a new lifetime, others are untouched.\<close>

lemma look_expire_all:
  assumes "expiring_store R" "0 < ttl"
  shows "look R t k (fold (\<lambda>d. expire R now (f d) ttl) ds s) =
    (if k \<in> f ` set ds \<and> look R now k s \<noteq> None
     then (if t < now + 1000 * ttl then look R now k s else None) else look R t k s)"
proof -
  note ex = expiring_store.look_expire [OF assms(1)]
  show ?thesis
    by (induction ds arbitrary: s) (use assms(2) in \<open>auto simp: ex split: option.splits\<close>)
qed

lemma refreshOnline_key:
  assumes "expiring_store R" "has_redis om" "ok Acquire" "t < now + 1000 * kOnlineTtlSec"
    and "look R now (keyOnline u d) r = Some v" "look R t (keyOnline u d) r = Some v"
  shows "look R t (keyOnline u d) (snd (refreshOnline R ok now u' (om, r))) = Some v"
  using assms by (simp add: refreshOnline_def look_expire_all)

lemma refreshOnline_renews:
  assumes "expiring_store R" "has_redis om" "ok Acquire" "t < now + 1000 * kOnlineTtlSec"
    and "look R now (keyOnline u d) r = Some v" "d \<in> fst ` set (devices_of u om)"
  shows "look R t (keyOnline u d) (snd (refreshOnline R ok now u (om, r))) = Some v"
  using assms by (force simp: refreshOnline_def look_expire_all)

lemma refreshOnline_fst_eq: "refreshOnline R ok now u (om, r) = (om, snd (refreshOnline R ok now u (om, r)))"
  by (metis fst_refreshOnline fst_conv prod.collapse)

lemma refresh_all_key:
  assumes "expiring_store R" "has_redis om" "\<And>u. oks u Acquire" "now \<le> t" "t < now + 1000 * kOnlineTtlSec"
    and "d \<in> fst ` set (devices_of u om)" "look R now (keyOnline u d) r = Some v"
    and "u \<in> set us \<or> look R t (keyOnline u d) r = Some v"
  shows "look R t (keyOnline u d) (snd (fold (\<lambda>u. refreshOnline R (oks u) now u) us (om, r))) = Some v"
  using assms(7,8)
proof (induction us arbitrary: r)
  case Nil
  then show ?case by simp
next
  case (Cons x us)
  let ?r = "snd (refreshOnline R (oks x) now x (om, r))"
  note prem = assms(1,2) assms(3) [of x]
  have "look R now (keyOnline u d) ?r = Some v"
    by (rule refreshOnline_key) (use prem Cons.prems(1) in simp_all)
  moreover have "u \<in> set us \<or> look R t (keyOnline u d) ?r = Some v"
  proof (cases "u = x")
    case True
    show ?thesis unfolding True
      by (rule disjI2, rule refreshOnline_renews) (use prem assms(5,6) Cons.prems(1) True in simp_all)
  next
    case False
    with Cons.prems(2) have "u \<in> set us \<or> look R t (keyOnline u d) r = Some v" by simp
    then show ?thesis
      using refreshOnline_key [where ok = "oks x", OF prem assms(5) Cons.prems(1)] by blast
  qed
  ultimately have "look R t (keyOnline u d) (snd (fold (\<lambda>u. refreshOnline R (oks u) now u) us (om, ?r))) = Some v"
    by (rule Cons.IH)
  then show ?case by (simp add: refreshOnline_fst_eq [symmetric])
qed

lemma fst_refresh_all [simp]: "fst (fold (\<lambda>u. refreshOnline R (oks u) now u) us st) = fst st"
  by (induction us arbitrary: st) simp_all

lemma refresh_round_key:
  assumes "expiring_store R" "om_ok om" "has_redis om" "\<And>u. oks u Acquire" "now \<le> t" "t < now + 1000 * kOnlineTtlSec"
    and "table om (u, d) = Some (Some w)" "opn w" "look R now (keyOnline u d) r = Some v"
  shows "look R t (keyOnline u d) (snd (refresh_round R opn oks now (om, r))) = Some v"
proof -
  have "d \<in> fst ` set (devices_of u om)"
    using assms(7) by (force simp: table_def dest: map_of_SomeD)
  moreover have "u \<in> set (getOnlineUsers opn om)"
    using assms(2,7,8) getSessions_table [of om w opn u] by (auto simp: getOnlineUsers_iff)
  ultimately show ?thesis
    unfolding refresh_round_def fst_conv using assms by (intro refresh_all_key) simp_all
qed

lemma refresh_rounds_key:
  assumes "expiring_store R" "om_ok om" "has_redis om" "\<And>t u. oks t u Acquire"
    and "table om (u, d) = Some (Some w)" "opn w"
    and "\<And>s. now \<le> s \<Longrightarrow> s < now + 1000 * kOnlineTtlSec \<Longrightarrow> look R s (keyOnline u d) r = Some v"
    and "successively (\<lambda>a b. a \<le> b \<and> b < a + 1000 * kOnlineTtlSec) (now # ts)"
    and "last (now # ts) \<le> t" "t < last (now # ts) + 1000 * kOnlineTtlSec"
  shows "look R t (keyOnline u d) (snd (fold (\<lambda>s. refresh_round R opn (oks s) s) ts (om, r))) = Some v"
  using assms(7-10)
proof (induction ts arbitrary: now r)
  case Nil
  then show ?case by simp
next
  case (Cons x ts)
  let ?r = "snd (refresh_round R opn (oks x) x (om, r))"
  have now: "look R x (keyOnline u d) r = Some v"
    using Cons.prems(1) [of x] Cons.prems(2) by simp
  have "look R s (keyOnline u d) ?r = Some v" if "x \<le> s" "s < x + 1000 * kOnlineTtlSec" for s
    by (rule refresh_round_key) (use assms(1-6) that now in simp_all)
  then have "look R t (keyOnline u d) (snd (fold (\<lambda>s. refresh_round R opn (oks s) s) ts (om, ?r))) = Some v"
    by (rule Cons.IH) (use Cons.prems(2-4) in simp_all)
  moreover have "refresh_round R opn (oks x) x (om, r) = (om, ?r)"
    by (simp add: refresh_round_def prod_eq_iff)
  ultimately show ?case by simp
qed

lemma has_redis_addDevice [simp]: "has_redis (fst (addDevice R ok now u d s st)) = has_redis (fst st)"
  by (simp add: addDevice_def Let_def split: prod.split)

lemma snd_addDevice: "has_redis om \<Longrightarrow> ok Acquire \<Longrightarrow>
    snd (addDevice R ok now u d s (om, r)) = setex R now (keyOnline u (device_name d)) (instanceId om) kOnlineTtlSec r"
  by (simp add: addDevice_def Let_def)



section \<open>Instances and their view of each other\<close>

text \<open>Several instances on one Redis: \<open>oms i\<close> is the manager of the instance \<open>i\<close>.\<close>

definition cl_step :: "jlib \<Rightarrow> 'r redis_ops \<Rightarrow> (nat \<Rightarrow> online) \<times> 'r \<Rightarrow> nat \<times> (ms \<times> outcome) \<times> om_event \<Rightarrow> (nat \<Rightarrow> online) \<times> 'r" where
  "cl_step L R st x = (let (i, e) = x; (om, r) = om_step L R (fst st i, snd st) e in ((fst st)(i := om), r))"

text \<open>The presence keys under \<open>online:\<close> are all of the form \<open>keyOnline\<close> writes.\<close>

definition only_device_keys :: "'r redis_ops \<Rightarrow> 'r \<Rightarrow> bool" where
  "only_device_keys R r \<longleftrightarrow>
     (\<forall>t k. look R t k r \<noteq> None \<longrightarrow> starts_with ''online:'' k \<longrightarrow> (\<exists>u d. k = keyOnline u d))"

lemma om_step_other_key:
  assumes "expiring_store R" "\<And>u d. k \<noteq> keyOnline u d" "look R t k r = None"
  shows "look R t k (snd (om_step L R (om, r) e)) = None"
proof -
  note laws = expiring_store.look_setex [OF assms(1)] expiring_store.look_del [OF assms(1)]
  have dels: "look R t k (fold (\<lambda>d. del R (keyOnline u d)) ds r) = None"
    if "look R t k r = None" for u ds r
    using that by (induction ds arbitrary: r) (simp_all add: laws assms(2))
  obtain now ok ev where e: "e = ((now, ok), ev)" by (metis surj_pair)
  show ?thesis unfolding e
    by (cases ev)
       (use assms(2,3) in \<open>auto simp: addDevice_def removeDevice_def removeUser_def refreshOnline_def kickDevice_def
          with_redis_def Let_def laws dels look_expire_all [OF assms(1)] split: prod.splits option.splits\<close>)
qed

lemma cl_step_keys:
  assumes "expiring_store R" "only_device_keys R (snd st)"
  shows "only_device_keys R (snd (cl_step L R st x))"
proof -
  obtain i e where x: "x = (i, e)" by (cases x)
  have "snd (cl_step L R st x) = snd (om_step L R (fst st i, snd st) e)"
    by (simp add: cl_step_def x split: prod.split)
  then show ?thesis
    using om_step_other_key [OF assms(1)] assms(2) unfolding only_device_keys_def by metis
qed

lemma cl_run_keys:
  "expiring_store R \<Longrightarrow> only_device_keys R (snd st) \<Longrightarrow> only_device_keys R (snd (foldl (cl_step L R) st es))"
  by (induction es arbitrary: st) (simp_all add: cl_step_keys)

lemma to_string_not_brace_first: "to_string u @ xs \<noteq> CHR ''{'' # ys"
proof -
  have "\<not> is_digit (CHR ''{'')" by (simp add: is_digit_def)
  then have "CHR ''{'' \<notin> set (to_string u)"
    using nat_digits_is_digit by (auto simp: to_string_def)
  then show ?thesis by (cases "to_string u") auto
qed

lemma pattern_misses: "\<not> starts_with (presence_pattern u) (keyOnline u' d)"
  using to_string_not_brace_first [of u, symmetric]
  by (auto simp: presence_pattern_def keyOnline_def starts_with_iff)

lemma no_targets:
  assumes "expiring_store R" "only_device_keys R r"
  shows "router_targets R now got u r = []"
proof -
  have "starts_with ''online:'' k" if "starts_with (presence_pattern u) k" for k
    using that by (auto simp: presence_pattern_def starts_with_iff)
  with assms(2) have "k \<notin> set (keys R now (presence_pattern u) r)" for k
    unfolding only_device_keys_def expiring_store.set_keys [OF assms(1)] using pattern_misses by blast
  then have "keys R now (presence_pattern u) r = []" by (metis all_not_in_conv set_empty)
  then show ?thesis by (simp add: router_targets_def List.map_filter_simps)
qed

text \<open>
  The instances never find each other's users. The keys are written as \<^verbatim>\<open>online:{uid}:device\<close>,
  the router searches \<^verbatim>\<open>online:uid:*\<close> and the fall-back of \<^verbatim>\<open>isOnline\<close> asks for \<^verbatim>\<open>online:{uid}\<close>: whatever
  the instances did, a message published for a user goes to nobody, and an instance takes a
  user for online only when it holds an open session of the user itself.
\<close>

theorem other_instances_never_found:
  assumes "expiring_store R" "\<And>t k. starts_with ''online:'' k \<Longrightarrow> look R t k r0 = None"
    and "foldl (cl_step L R) (\<lambda>i. new_online True (inst i), r0) es = (oms, r)"
  shows "publishToUser R ok got pub now me u payload r = (0, r)
    \<and> isOnline R opn ok now u (oms i, r) = (getSessions opn u (oms i) \<noteq> [])"
proof -
  have "only_device_keys R r0" using assms(2) by (auto simp: only_device_keys_def)
  then have keys: "only_device_keys R r"
    using cl_run_keys [OF assms(1), of "(\<lambda>i. new_online True (inst i), r0)" L es] assms(3) by simp
  have "starts_with ''online:'' (keyOnlineUid u)" by (simp add: keyOnlineUid_def)
  with keys have "look R now (keyOnlineUid u) r = None"
    unfolding only_device_keys_def by (metis keyOnline_not_uid)
  then show ?thesis
    by (simp add: publishToUser_def no_targets [OF assms(1) keys] isOnline_def exists_def list_ex_usable)
qed

theorem other_instances_never_found_witness:
  "let (oms, r) = foldl (cl_step demo_lib redis_ops) (\<lambda>i. new_online True (to_string (int i)), empty_redis)
         [(0, (0, \<lambda>c. True), Opened 7 ''phone'' (Some 3))]
   in r_lookup 1000 (keyOnline 7 ''phone'') r = Some ''0''
     \<and> publishToUser redis_ops (\<lambda>c. True) (\<lambda>k. True) (\<lambda>i. True) 1000 ''1'' 7 ''hello'' r = (0, r)
     \<and> \<not> isOnline redis_ops (\<lambda>w. True) (\<lambda>c. True) 1000 7 (oms 1, r)"
proof -
  let ?st = "foldl (cl_step demo_lib redis_ops) (\<lambda>i. new_online True (to_string (int i)), empty_redis)
         [(0, (0, \<lambda>c. True), Opened 7 ''phone'' (Some 3))]"
  have none: "look redis_ops t k empty_redis = None" for t k by (simp add: r_lookup_def empty_redis_def)
  have z: "to_string 0 = ''0''" by code_simp
  have "r_lookup 1000 (keyOnline 7 ''phone'') (snd ?st) = Some ''0''" "getSessions (\<lambda>w. True) 7 (fst ?st 1) = []"
    by (simp_all add: cl_step_def addDevice_def new_online_def with_redis_def device_name_def kOnlineTtlSec_def
        getSessions_def devices_of_def z Let_def)
  then show ?thesis
    using other_instances_never_found [OF rs.expiring_store_axioms none, of demo_lib "\<lambda>i. to_string (int i)"
       "[(0, (0, \<lambda>c. True), Opened 7 ''phone'' (Some 3))]" "fst ?st" "snd ?st" "\<lambda>c. True" "\<lambda>k. True" "\<lambda>i. True"
       1000 "''1''" 7 "''hello''" "\<lambda>w. True" 1]
    by (simp add: case_prod_beta)
qed

end
