(* ===== verification/SubscribeLoop.thy ===== *)
theory SubscribeLoop
  imports Online
begin

text \<open>
  The two connections of \<^verbatim>\<open>server/InstanceRouter.h\<close>: the one for publishing, and the thread that reads
  what other instances publish (\<^verbatim>\<open>ensurePubCtx\<close>, \<^verbatim>\<open>start\<close>, \<^verbatim>\<open>subscribeLoop\<close>, \<^verbatim>\<open>stop\<close>). The Redis client library is
  outside the repository. Of its contexts the model keeps which of them have been allocated and not
  yet freed: what the code relies on is that a context is used only in between. The thread of the
  loop and the one that calls \<^verbatim>\<open>stop\<close> share the pointer \<^verbatim>\<open>subCtx_\<close> without a lock, so that each
  access is a step of its own.
\<close>

section \<open>Publishing\<close>

text \<open>A context is \<open>None\<close> for the null pointer, otherwise its error flag; so is the answer of a connection attempt.\<close>

definition ensurePubCtx :: "bool option \<Rightarrow> bool option \<Rightarrow> bool option" where
  "ensurePubCtx conn pub = (if pub = Some False then pub else if conn = Some True then None else conn)"

definition publish_via :: "'r redis_ops \<Rightarrow> bool option \<Rightarrow> outcome \<Rightarrow> (string \<Rightarrow> bool) \<Rightarrow> (string \<Rightarrow> bool) \<Rightarrow> ms \<Rightarrow> string \<Rightarrow> uid \<Rightarrow> string
    \<Rightarrow> bool option \<times> 'r \<Rightarrow> int \<times> bool option \<times> 'r" where
  "publish_via R conn ok got pub now inst userId payload st =
     (let ctx = ensurePubCtx conn (fst st);
          (n, r) = publishToUser R (\<lambda>c. if c = Acquire then ctx \<noteq> None else ok c) got pub now inst userId payload (snd st)
      in (n, ctx, r))"

text \<open>The publishing connection is a good one or none at all, and a good one is kept.\<close>

lemma ensurePubCtx_good: "ensurePubCtx conn pub \<noteq> Some True" "ensurePubCtx conn (Some False) = Some False"
  by (auto simp: ensurePubCtx_def)

section \<open>The thread that reads\<close>

text \<open>
  \<open>Reading c\<close> is inside \<^verbatim>\<open>redisGetReply\<close> on the context \<open>c\<close>; \<open>FreeTest\<close>, \<open>FreeIt\<close> and \<open>ClearIt\<close> are the three
  accesses of \<^verbatim>\<open>if (subCtx_) { redisFree(subCtx_); subCtx_ = nullptr; }\<close>.
\<close>

datatype loop_pc = LoopHead | Connecting | CheckCtx | Subscribing | ReadCond | ReadCall | Reading nat
  | FreeTest | FreeIt | ClearIt | Sleeping | LoopEnded

datatype stop_pc = NotCalled | StopTest | StopFree | StopClear | Joining | Stopped

record router =
  ir_running :: bool
  subCtx :: "nat option"
  live :: "nat set"
  failed_ctx :: "nat set"
  fresh :: nat
  loop_pc :: loop_pc
  stop_pc :: stop_pc
  fault :: bool
  delivered :: "(int \<times> string \<times> string) list"

definition router_start :: router where
  "router_start = \<lparr>ir_running = True, subCtx = None, live = {}, failed_ctx = {}, fresh = 0, loop_pc = LoopHead, stop_pc = NotCalled,
     fault = False, delivered = []\<rparr>"

text \<open>Any use of a context that is not live is undefined behaviour, and so is any use of the null pointer.\<close>

definition use_ctx :: "nat option \<Rightarrow> router \<Rightarrow> router" where
  "use_ctx c s = (case c of Some c \<Rightarrow> if c \<in> live s then s else s\<lparr>fault := True\<rparr> | None \<Rightarrow> s\<lparr>fault := True\<rparr>)"

text \<open>\<^verbatim>\<open>redisFree\<close> of the null pointer does nothing.\<close>

definition redisFree :: "nat option \<Rightarrow> router \<Rightarrow> router" where
  "redisFree c s = (case c of None \<Rightarrow> s | Some c \<Rightarrow> (use_ctx (Some c) s)\<lparr>live := live s - {c}\<rparr>)"

text \<open>\<^verbatim>\<open>redisConnectWithTimeout\<close>: a null pointer, or a new context with its error flag.\<close>

definition connect :: "bool option \<Rightarrow> router \<Rightarrow> router" where
  "connect conn s =
     (case conn of None \<Rightarrow> s\<lparr>subCtx := None\<rparr>
      | Some e \<Rightarrow> s\<lparr>subCtx := Some (fresh s), live := insert (fresh s) (live s), fresh := Suc (fresh s),
          failed_ctx := (if e then insert (fresh s) (failed_ctx s) else failed_ctx s - {fresh s})\<rparr>)"

text \<open>
  One access of \<^verbatim>\<open>subscribeLoop\<close>: \<open>conn\<close> is the answer to a connection attempt and \<open>reply\<close> what
  \<^verbatim>\<open>redisGetReply\<close> brings, \<open>None\<close> when it fails or brings nothing; \<open>broken\<close> says whether the call
  leaves the context in error.
\<close>

definition subscribeLoop :: "bool option \<Rightarrow> sub_reply option \<Rightarrow> bool \<Rightarrow> router \<Rightarrow> router" where
  "subscribeLoop conn reply broken s =
     (case loop_pc s of
        LoopHead \<Rightarrow> s\<lparr>loop_pc := (if ir_running s then Connecting else LoopEnded)\<rparr>
      | Connecting \<Rightarrow> (connect conn s)\<lparr>loop_pc := CheckCtx\<rparr>
      | CheckCtx \<Rightarrow> (case subCtx s of None \<Rightarrow> s\<lparr>loop_pc := FreeTest\<rparr>
          | Some c \<Rightarrow> (use_ctx (Some c) s)\<lparr>loop_pc := (if c \<in> failed_ctx s then FreeTest else Subscribing)\<rparr>)
      | Subscribing \<Rightarrow> (use_ctx (subCtx s) s)\<lparr>loop_pc := ReadCond, failed_ctx := failed_ctx s \<union> (if broken then set_option (subCtx s) else {})\<rparr>
      | ReadCond \<Rightarrow>
          (if \<not> ir_running s then s\<lparr>loop_pc := FreeTest\<rparr>
           else case subCtx s of None \<Rightarrow> s\<lparr>loop_pc := FreeTest\<rparr>
                | Some c \<Rightarrow> (use_ctx (Some c) s)\<lparr>loop_pc := (if c \<in> failed_ctx s then FreeTest else ReadCall)\<rparr>)
      | ReadCall \<Rightarrow> (case subCtx s of None \<Rightarrow> s\<lparr>fault := True\<rparr> | Some c \<Rightarrow> s\<lparr>loop_pc := Reading c\<rparr>)
      | Reading c \<Rightarrow>
          (let s1 = (use_ctx (Some c) s)\<lparr>failed_ctx := failed_ctx s \<union> (if broken then {c} else {})\<rparr>
           in case reply of None \<Rightarrow> s1\<lparr>loop_pc := FreeTest\<rparr>
              | Some r \<Rightarrow> s1\<lparr>loop_pc := ReadCond, delivered := delivered s @ (case handleSubReply r of None \<Rightarrow> [] | Some d \<Rightarrow> [d])\<rparr>)
      | FreeTest \<Rightarrow> s\<lparr>loop_pc := (if subCtx s = None then Sleeping else FreeIt)\<rparr>
      | FreeIt \<Rightarrow> (redisFree (subCtx s) s)\<lparr>loop_pc := ClearIt\<rparr>
      | ClearIt \<Rightarrow> s\<lparr>subCtx := None, loop_pc := Sleeping\<rparr>
      | Sleeping \<Rightarrow> s\<lparr>loop_pc := LoopHead\<rparr>
      | LoopEnded \<Rightarrow> s)"

text \<open>One access of \<^verbatim>\<open>stop\<close>.\<close>

definition stop_turn :: "router \<Rightarrow> router" where
  "stop_turn s =
     (case stop_pc s of
        NotCalled \<Rightarrow> (if ir_running s then s\<lparr>ir_running := False, stop_pc := StopTest\<rparr> else s\<lparr>stop_pc := Stopped\<rparr>)
      | StopTest \<Rightarrow> s\<lparr>stop_pc := (if subCtx s = None then Joining else StopFree)\<rparr>
      | StopFree \<Rightarrow> (redisFree (subCtx s) s)\<lparr>stop_pc := StopClear\<rparr>
      | StopClear \<Rightarrow> s\<lparr>subCtx := None, stop_pc := Joining\<rparr>
      | Joining \<Rightarrow> (if loop_pc s = LoopEnded then s\<lparr>stop_pc := Stopped\<rparr> else s)
      | Stopped \<Rightarrow> s)"

datatype router_event = LoopTurn "bool option" "sub_reply option" bool | StopTurn

definition router_step :: "router \<Rightarrow> router_event \<Rightarrow> router" where
  "router_step s e = (case e of LoopTurn conn reply broken \<Rightarrow> subscribeLoop conn reply broken s | StopTurn \<Rightarrow> stop_turn s)"

lemmas router_defs = router_step_def subscribeLoop_def stop_turn_def use_ctx_def redisFree_def connect_def

section \<open>While nobody stops it\<close>

definition holds_ctx :: "router \<Rightarrow> bool" where
  "holds_ctx s = (case loop_pc s of
     LoopHead \<Rightarrow> subCtx s = None | Connecting \<Rightarrow> subCtx s = None | Sleeping \<Rightarrow> subCtx s = None | LoopEnded \<Rightarrow> False
   | Subscribing \<Rightarrow> subCtx s \<noteq> None | ReadCond \<Rightarrow> subCtx s \<noteq> None | ReadCall \<Rightarrow> subCtx s \<noteq> None
   | Reading c \<Rightarrow> subCtx s = Some c | FreeIt \<Rightarrow> subCtx s \<noteq> None | _ \<Rightarrow> True)"

definition unstopped :: "router \<Rightarrow> bool" where
  "unstopped s \<longleftrightarrow> ir_running s \<and> stop_pc s = NotCalled \<and> \<not> fault s \<and> holds_ctx s \<and>
     live s = (if loop_pc s = ClearIt then {} else set_option (subCtx s))"

definition is_loop_turn :: "router_event \<Rightarrow> bool" where
  "is_loop_turn e = (case e of LoopTurn _ _ _ \<Rightarrow> True | StopTurn \<Rightarrow> False)"

lemma unstopped_step: "is_loop_turn e \<Longrightarrow> unstopped s \<Longrightarrow> unstopped (router_step s e)"
  by (cases e; cases "loop_pc s") (auto simp: is_loop_turn_def unstopped_def holds_ctx_def router_defs Let_def split: option.splits)

interpretation reader: guarded_machine router_start router_step is_loop_turn unstopped
  by unfold_locales (simp add: unstopped_def holds_ctx_def router_start_def, rule unstopped_step)

text \<open>
  As long as \<^verbatim>\<open>stop\<close> is not called the loop manages its contexts: at every moment at most the one the
  pointer names is allocated, none is used after it was freed or freed twice, and none is left behind,
  whatever connection attempts and reads fail.
\<close>

theorem reader_frees_once:
  assumes "list_all is_loop_turn es"
  shows "let s = foldl router_step router_start es in \<not> fault s \<and> live s \<subseteq> set_option (subCtx s) \<and>
    (loop_pc s = LoopHead \<longrightarrow> live s = {})"
  using reader.run_inv [OF assms] by (auto simp: unstopped_def holds_ctx_def Let_def)

theorem reader_frees_once_witness:
  "let s = foldl router_step router_start [LoopTurn (Some True) None False, LoopTurn (Some True) None False, LoopTurn None None False] in
   loop_pc s = FreeTest \<and> live s = {0} \<and> \<not> fault s"
  using reader_frees_once [of "[LoopTurn (Some True) None False, LoopTurn (Some True) None False, LoopTurn None None False]"]
  by (simp add: is_loop_turn_def router_start_def router_defs Let_def)

section \<open>Stopping\<close>

text \<open>
  \<^verbatim>\<open>stop\<close> frees the context under the thread that reads from it: when the loop waits for a reply, as it does
  most of the time, and \<^verbatim>\<open>stop\<close> has set the flag, tested the pointer and freed the context, then
  whatever the read brings, its return works on freed memory.
\<close>

theorem stop_frees_context_in_use:
  assumes "list_all is_loop_turn es" "loop_pc (foldl router_step router_start es) = Reading c"
  shows "fault (foldl router_step router_start (es @ [StopTurn, StopTurn, StopTurn, LoopTurn conn reply broken]))"
proof -
  have "unstopped (foldl router_step router_start es)" by (rule reader.run_inv [OF assms(1)])
  with assms(2) show ?thesis
    by (simp add: unstopped_def holds_ctx_def router_defs Let_def split: option.splits)
qed

theorem stop_frees_context_in_use_witness:
  "let turn = LoopTurn (Some False) None False; es = [turn, turn, turn, turn, turn, turn] in
   loop_pc (foldl router_step router_start es) = Reading 0 \<and>
   fault (foldl router_step router_start (es @ [StopTurn, StopTurn, StopTurn, LoopTurn None (Some NoArray) False]))"
proof -
  let ?t = "LoopTurn (Some False) None False"
  have r: "loop_pc (foldl router_step router_start [?t, ?t, ?t, ?t, ?t, ?t]) = Reading 0" by code_simp
  have "list_all is_loop_turn [?t, ?t, ?t, ?t, ?t, ?t]" by (simp add: is_loop_turn_def)
  from stop_frees_context_in_use [OF this r, of None "Some NoArray" False] r show ?thesis unfolding Let_def by blast
qed

end
