(* ===== verification/AhoCorasick.thy ===== *)
theory AhoCorasick
  imports Prelude
begin

text \<open>
  \<^verbatim>\<open>src/src/moderation/AhoCorasick.h\<close>: the automaton that finds all listed words of a text in one
  pass. A node is an entry of the vector \<^verbatim>\<open>nodes_\<close> and a pointer an index into it. The order in
  which an \<^verbatim>\<open>unordered_map\<close> is walked is an argument \<open>ord\<close>, of which only is used that it visits
  every entry once. The two pointer-chasing loops carry fuel; running out of it is \<open>None\<close>.
\<close>

record node =
  children :: "(char \<times> nat) list"
  fail :: nat
  words :: "(string \<times> string) list"

definition new_node :: node where
  "new_node = \<lparr>children = [], fail = 0, words = []\<rparr>"

definition new_automaton :: "node list" where
  "new_automaton = [new_node]"

fun add_path :: "node list \<Rightarrow> nat \<Rightarrow> string \<Rightarrow> node list \<times> nat" where
  "add_path ns cur [] = (ns, cur)"
| "add_path ns cur (c # w) =
     (case map_of (children (ns ! cur)) c of
        None \<Rightarrow>
          (let nxt = length ns; ns1 = ns @ [new_node];
               ns2 = ns1[cur := (ns1 ! cur)\<lparr>children := children (ns1 ! cur) @ [(c, nxt)]\<rparr>]
           in add_path ns2 nxt w)
      | Some nxt \<Rightarrow> add_path ns nxt w)"

definition addWord :: "node list \<Rightarrow> string \<Rightarrow> string \<Rightarrow> node list" where
  "addWord ns word category =
     (if word = [] then ns
      else
        (let (ns', cur) = add_path ns 0 word
         in ns'[cur := (ns' ! cur)\<lparr>words := words (ns' ! cur) @ [(word, category)]\<rparr>]))"

text \<open>The loop that follows failure links until a node has an edge for the character.\<close>

fun fail_walk :: "nat \<Rightarrow> node list \<Rightarrow> char \<Rightarrow> nat \<Rightarrow> nat option" where
  "fail_walk 0 ns c f = None"
| "fail_walk (Suc n) ns c f =
     (if f \<noteq> 0 \<and> map_of (children (ns ! f)) c = None then fail_walk n ns c (fail (ns ! f)) else Some f)"

definition link_child :: "node list \<Rightarrow> nat \<Rightarrow> char \<Rightarrow> nat \<Rightarrow> node list option" where
  "link_child ns cur c child =
     (case fail_walk (length ns) ns c (fail (ns ! cur)) of
        None \<Rightarrow> None
      | Some f \<Rightarrow>
        (let target = (case map_of (children (ns ! f)) c of
                         Some t \<Rightarrow> if t \<noteq> child then t else 0
                       | None \<Rightarrow> 0);
             ns1 = ns[child := (ns ! child)\<lparr>fail := target\<rparr>]
         in Some (if target \<noteq> 0
                  then ns1[child := (ns1 ! child)\<lparr>words := words (ns1 ! child) @ words (ns1 ! target)\<rparr>]
                  else ns1)))"

fun link_children :: "node list \<Rightarrow> nat \<Rightarrow> (char \<times> nat) list \<Rightarrow> nat list \<Rightarrow> (node list \<times> nat list) option" where
  "link_children ns cur [] q = Some (ns, q)"
| "link_children ns cur ((c, child) # cs) q =
     (case link_child ns cur c child of
        None \<Rightarrow> None
      | Some ns' \<Rightarrow> link_children ns' cur cs (q @ [child]))"

type_synonym walk_order = "(char \<times> nat) list \<Rightarrow> (char \<times> nat) list"

fun bfs :: "nat \<Rightarrow> walk_order \<Rightarrow> node list \<Rightarrow> nat list \<Rightarrow> node list option" where
  "bfs fuel ord ns [] = Some ns"
| "bfs 0 ord ns (cur # q) = None"
| "bfs (Suc fuel) ord ns (cur # q) =
     (case link_children ns cur (ord (children (ns ! cur))) q of
        None \<Rightarrow> None
      | Some (ns', q') \<Rightarrow> bfs fuel ord ns' q')"

definition clear_fail :: "node list \<Rightarrow> nat \<Rightarrow> node list" where
  "clear_fail ns i = ns[i := (ns ! i)\<lparr>fail := 0\<rparr>]"

definition build :: "walk_order \<Rightarrow> node list \<Rightarrow> node list option" where
  "build ord ns =
     (let ns0 = clear_fail ns 0;
          first = map snd (ord (children (ns0 ! 0)))
      in bfs (length ns) ord (foldl clear_fail ns0 first) first)"

record ac_match =
  mt_start :: nat
  mt_length :: nat
  mt_word :: string
  mt_category :: string

definition mk_match :: "nat \<Rightarrow> string \<times> string \<Rightarrow> ac_match" where
  "mk_match i e = \<lparr>mt_start = i + 1 - length (fst e), mt_length = length (fst e), mt_word = fst e, mt_category = snd e\<rparr>"

fun search_loop :: "node list \<Rightarrow> nat \<Rightarrow> nat \<Rightarrow> string \<Rightarrow> ac_match list option" where
  "search_loop ns i cur [] = Some []"
| "search_loop ns i cur (c # text) =
     (case fail_walk (length ns) ns c cur of
        None \<Rightarrow> None
      | Some f \<Rightarrow>
        (let cur' = (case map_of (children (ns ! f)) c of Some t \<Rightarrow> t | None \<Rightarrow> f)
         in map_option (\<lambda>ms. map (mk_match i) (words (ns ! cur')) @ ms) (search_loop ns (Suc i) cur' text)))"

definition search :: "node list \<Rightarrow> string \<Rightarrow> ac_match list option" where
  "search ns text = search_loop ns 0 0 text"

section \<open>Longest suffixes\<close>

fun best :: "string set \<Rightarrow> string \<Rightarrow> string" where
  "best P [] = []"
| "best P (x # xs) = (if x # xs \<in> P then x # xs else best P xs)"

definition prefix_closed :: "string set \<Rightarrow> bool" where
  "prefix_closed P \<longleftrightarrow> [] \<in> P \<and> (\<forall>p c. p @ [c] \<in> P \<longrightarrow> p \<in> P)"

lemma best_in: "prefix_closed P \<Longrightarrow> best P t \<in> P"
  by (induction t) (auto simp: prefix_closed_def)

lemma best_length: "length (best P t) \<le> length t"
  by (induction t) auto

lemma best_id [simp]: "t \<in> P \<Longrightarrow> best P t = t"
  by (cases t) auto

lemma best_snoc:
  assumes "prefix_closed P"
  shows "best P (t @ [c]) = best P (best P t @ [c])"
proof (induction t)
  case Nil
  then show ?case by simp
next
  case (Cons x xs)
  show ?case
  proof (cases "x # xs \<in> P")
    case False
    then have "x # xs @ [c] \<notin> P" using assms unfolding prefix_closed_def by (metis append_Cons)
    with False Cons show ?thesis by simp
  qed simp
qed

text \<open>One failure step: where the edge is missing, only the proper suffixes matter.\<close>

lemma best_fail:
  assumes "prefix_closed P" "p @ [c] \<notin> P" "p \<noteq> []"
  shows "best P (p @ [c]) = best P (best P (tl p) @ [c])"
  using assms best_snoc [OF assms(1), of "tl p" c] by (cases p) auto

section \<open>The trie\<close>

text \<open>\<open>ps\<close> lists the string that leads to each node.\<close>

definition trie :: "node list \<Rightarrow> string list \<Rightarrow> bool" where
  "trie ns ps \<longleftrightarrow> length ps = length ns \<and> ns \<noteq> [] \<and> ps ! 0 = [] \<and> distinct ps \<and>
     (\<forall>i < length ns. distinct (map fst (children (ns ! i))) \<and>
        (\<forall>c n. (c, n) \<in> set (children (ns ! i)) \<longleftrightarrow> n < length ns \<and> ps ! n = ps ! i @ [c])) \<and>
     (\<forall>p c. p @ [c] \<in> set ps \<longrightarrow> p \<in> set ps)"

lemma trieD:
  assumes "trie ns ps"
  shows "length ps = length ns" "0 < length ns" "ps ! 0 = []" "distinct ps" "prefix_closed (set ps)"
    "i < length ns \<Longrightarrow> distinct (map fst (children (ns ! i)))"
    "i < length ns \<Longrightarrow> (c, n) \<in> set (children (ns ! i)) \<longleftrightarrow> n < length ns \<and> ps ! n = ps ! i @ [c]"
proof -
  show *: "length ps = length ns" "0 < length ns" "ps ! 0 = []" "distinct ps" using assms by (auto simp: trie_def)
  then have "[] \<in> set ps" by (metis nth_mem)
  then show "prefix_closed (set ps)" using assms by (auto simp: trie_def prefix_closed_def)
qed (use assms in \<open>auto simp: trie_def\<close>)

lemma trie_edge:
  assumes "trie ns ps" "i < length ns"
  shows "map_of (children (ns ! i)) c = Some n \<longleftrightarrow> n < length ns \<and> ps ! n = ps ! i @ [c]"
  using trieD(6,7) [OF assms] by (simp add: map_of_eq_Some_iff)

lemma trie_no_edge:
  assumes "trie ns ps" "i < length ns"
  shows "map_of (children (ns ! i)) c = None \<longleftrightarrow> ps ! i @ [c] \<notin> set ps"
  using trie_edge [OF assms, of c] trieD(1) [OF assms(1)] by (auto simp: in_set_conv_nth not_Some_eq [symmetric] simp del: not_Some_eq)

lemma trie_index_eq: "trie ns ps \<Longrightarrow> i < length ns \<Longrightarrow> j < length ns \<Longrightarrow> ps ! i = ps ! j \<longleftrightarrow> i = j"
  using trieD(1,4) nth_eq_iff_index_eq by metis

text \<open>A new edge keeps the trie; \<open>grow\<close> is what \<open>add_path\<close> does where the edge is missing.\<close>

definition grow :: "node list \<Rightarrow> nat \<Rightarrow> char \<Rightarrow> node list" where
  "grow ns cur c = (ns @ [new_node])[cur := (ns ! cur)\<lparr>children := children (ns ! cur) @ [(c, length ns)]\<rparr>]"

lemma grow_nth:
  assumes "cur < length ns"
  shows "length (grow ns cur c) = Suc (length ns)"
    "i < length ns \<Longrightarrow> children (grow ns cur c ! i) = (if i = cur then children (ns ! i) @ [(c, length ns)] else children (ns ! i))"
    "i < length ns \<Longrightarrow> words (grow ns cur c ! i) = words (ns ! i)"
    "children (grow ns cur c ! length ns) = []" "words (grow ns cur c ! length ns) = []"
  using assms by (auto simp: grow_def nth_list_update nth_append new_node_def)

lemma grow_trie:
  assumes "trie ns ps" "cur < length ns" "map_of (children (ns ! cur)) c = None"
  shows "trie (grow ns cur c) (ps @ [ps ! cur @ [c]])"
proof -
  note t = trieD [OF assms(1)]
  have new: "ps ! cur @ [c] \<notin> set ps" using assms trie_no_edge by blast
  have cur: "ps ! cur \<in> set ps" using assms(2) t(1) by simp
  let ?ns = "grow ns cur c" and ?ps = "ps @ [ps ! cur @ [c]]"
  have old: "?ps ! i = ps ! i" if "i < length ns" for i using that t(1) by (simp add: nth_append)
  have last: "?ps ! length ns = ps ! cur @ [c]" using t(1) by (simp add: nth_append)
  have edges: "distinct (map fst (children (?ns ! i))) \<and>
      (\<forall>d n. (d, n) \<in> set (children (?ns ! i)) \<longleftrightarrow> n < length ?ns \<and> ?ps ! n = ?ps ! i @ [d])"
    if i: "i < length ?ns" for i
  proof (cases "i < length ns")
    case True
    have "c \<notin> fst ` set (children (ns ! cur))" using assms(3) by (simp add: map_of_eq_None_iff)
    then have "distinct (map fst (children (?ns ! i)))" using True t(6) grow_nth(2) [OF assms(2) True] by simp
    moreover have "(d, n) \<in> set (children (?ns ! i)) \<longleftrightarrow> n < length ?ns \<and> ?ps ! n = ?ps ! i @ [d]" for d n
    proof (cases "n = length ns")
      case n: True
      have "(d, n) \<notin> set (children (ns ! i))" using t(7) [OF True] n by simp
      moreover have "i = cur" if "ps ! i = ps ! cur" using that trie_index_eq [OF assms(1) True assms(2)] by simp
      ultimately show ?thesis using n True last old grow_nth(1,2) [OF assms(2)] by auto
    next
      case False
      then have "n < length ?ns \<longleftrightarrow> n < length ns" using grow_nth(1) [OF assms(2)] by auto
      then show ?thesis using False True t(7) [OF True, of d n] old grow_nth(2) [OF assms(2) True] by auto
    qed
    ultimately show ?thesis by blast
  next
    case False
    then have i: "i = length ns" using i grow_nth(1) [OF assms(2)] by simp
    have "?ps ! n \<noteq> ps ! cur @ [c] @ [d]" if n: "n < length ?ns" for n d
    proof
      assume a: "?ps ! n = ps ! cur @ [c] @ [d]"
      then have "n < length ns" using n last grow_nth(1) [OF assms(2)] by (cases "n = length ns") auto
      then have "(ps ! cur @ [c]) @ [d] \<in> set ps" using a old t(1) by (metis append_assoc nth_mem)
      then show False using new t(5) unfolding prefix_closed_def by blast
    qed
    then show ?thesis using i last grow_nth(4) [OF assms(2)] by simp
  qed
  have "p \<in> set ?ps" if "p @ [d] \<in> set ?ps" for p d
    using that cur t(5) unfolding prefix_closed_def by auto
  moreover have len: "length ?ps = length ?ns" using t(1) grow_nth(1) [OF assms(2)] by simp
  moreover have "?ns \<noteq> []" using len by (metis length_0_conv length_append_singleton nat.distinct(1))
  moreover have "?ps ! 0 = []" "distinct ?ps" using t(2-4) new old [of 0] by simp_all
  ultimately show ?thesis using edges unfolding trie_def by blast
qed

lemma add_path_grow:
  "map_of (children (ns ! cur)) c = None \<Longrightarrow> cur < length ns \<Longrightarrow>
   add_path ns cur (c # w) = add_path (grow ns cur c) (length ns) w"
  by (simp add: grow_def nth_append Let_def)

lemma add_path_trie:
  assumes "trie ns ps" "cur < length ns" "add_path ns cur w = (ns', cur')"
  shows "\<exists>qs. trie ns' (ps @ qs) \<and> length ns \<le> length ns' \<and> cur' < length ns' \<and> (ps @ qs) ! cur' = ps ! cur @ w \<and>
    (\<forall>i < length ns'. words (ns' ! i) = (if i < length ns then words (ns ! i) else []))"
  using assms
proof (induction w arbitrary: ns ps cur)
  case Nil
  then show ?case by (intro exI [of _ "[]"]) simp
next
  case (Cons c w)
  show ?case
  proof (cases "map_of (children (ns ! cur)) c")
    case None
    note g = grow_nth [OF Cons.prems(2)]
    have e: "add_path (grow ns cur c) (length ns) w = (ns', cur')"
      using Cons.prems(3) add_path_grow [OF None Cons.prems(2)] by simp
    have l: "length ns < length (grow ns cur c)" using g(1) by simp
    have "(ps @ [ps ! cur @ [c]]) ! length ns = ps ! cur @ [c]"
      using trieD(1) [OF Cons.prems(1)] by (simp add: nth_append)
    from Cons.IH [OF grow_trie [OF Cons.prems(1,2) None] l e, unfolded this] obtain qs where
      qs: "trie ns' ((ps @ [ps ! cur @ [c]]) @ qs)" "Suc (length ns) \<le> length ns'" "cur' < length ns'"
      "((ps @ [ps ! cur @ [c]]) @ qs) ! cur' = (ps ! cur @ [c]) @ w"
      "\<forall>i < length ns'. words (ns' ! i) = (if i < Suc (length ns) then words (grow ns cur c ! i) else [])"
      unfolding g(1) by blast
    moreover have "words (grow ns cur c ! i) = (if i < length ns then words (ns ! i) else [])" if "i < Suc (length ns)" for i
      using that g(3,5) by (cases "i = length ns") simp_all
    ultimately show ?thesis by (intro exI [of _ "[ps ! cur @ [c]] @ qs"]) auto
  next
    case (Some nxt)
    then have n: "nxt < length ns" "ps ! nxt = ps ! cur @ [c]" using trie_edge [OF Cons.prems(1,2)] by auto
    from Cons.prems(3) Some have "add_path ns nxt w = (ns', cur')" by simp
    from Cons.IH [OF Cons.prems(1) n(1) this] n(2) show ?thesis by simp
  qed
qed

section \<open>Collected words\<close>

definition owords :: "(string \<times> string) list \<Rightarrow> string \<Rightarrow> (string \<times> string) list" where
  "owords ws p = filter (\<lambda>e. fst e = p) ws"

text \<open>All entries that are a suffix of \<open>p\<close>, longest first.\<close>

fun full :: "(string \<times> string) list \<Rightarrow> string \<Rightarrow> (string \<times> string) list" where
  "full ws [] = []"
| "full ws (x # xs) = owords ws (x # xs) @ full ws xs"

definition wordtrie :: "(string \<times> string) list \<Rightarrow> node list \<Rightarrow> string list \<Rightarrow> bool" where
  "wordtrie ws ns ps \<longleftrightarrow> trie ns ps \<and> (\<forall>i < length ns. words (ns ! i) = owords ws (ps ! i)) \<and>
     (\<forall>e \<in> set ws. fst e \<in> set ps)"

lemma full_ne: "p \<noteq> [] \<Longrightarrow> full ws p = owords ws p @ full ws (tl p)"
  by (cases p) auto

lemma full_best:
  assumes "\<forall>e \<in> set ws. fst e \<in> P"
  shows "full ws (best P t) = full ws t"
proof (induction t)
  case (Cons x xs)
  show ?case
  proof (cases "x # xs \<in> P")
    case False
    then have "owords ws (x # xs) = []" using assms by (auto simp: owords_def filter_empty_conv)
    with False Cons show ?thesis by simp
  qed simp
qed simp

lemma owords_upd: "owords (ws @ [(w, cat)]) p = owords ws p @ (if p = w then [(w, cat)] else [])"
  by (auto simp: owords_def)

lemma trie_words_upd: "trie (ns[i := (ns ! i)\<lparr>words := x\<rparr>]) ps = trie ns ps"
proof -
  have "children (ns[i := (ns ! i)\<lparr>words := x\<rparr>] ! j) = children (ns ! j)" for j
    by (cases "j = i"; cases "i < length ns") (auto simp: list_update_beyond)
  then show ?thesis by (simp add: trie_def)
qed

lemma addWord_wordtrie:
  assumes "wordtrie ws ns ps"
  shows "\<exists>ps'. wordtrie (ws @ filter (\<lambda>e. fst e \<noteq> []) [(w, cat)]) (addWord ns w cat) ps'"
proof (cases "w = []")
  case True
  with assms show ?thesis by (auto simp: addWord_def)
next
  case False
  obtain ns' cur where a: "add_path ns 0 w = (ns', cur)" by fastforce
  have t: "trie ns ps" "ps ! 0 = []" "length ps = length ns" "0 < length ns" using assms trieD unfolding wordtrie_def by blast+
  from add_path_trie [OF t(1,4) a] t(2) obtain qs where
    q: "trie ns' (ps @ qs)" "cur < length ns'" "(ps @ qs) ! cur = w"
      "\<forall>i < length ns'. words (ns' ! i) = (if i < length ns then words (ns ! i) else [])" by auto
  let ?n = "ns'[cur := (ns' ! cur)\<lparr>words := words (ns' ! cur) @ [(w, cat)]\<rparr>]"
  have new: "owords ws ((ps @ qs) ! i) = []" if "i < length ns'" "\<not> i < length ns" for i
  proof -
    have "(ps @ qs) ! i \<in> set qs" using that t(3) trieD(1) [OF q(1)] by (simp add: nth_append)
    then have "(ps @ qs) ! i \<notin> set ps" using trieD(4) [OF q(1)] by auto
    then show ?thesis using assms by (auto simp: wordtrie_def owords_def filter_empty_conv)
  qed
  have old: "words (ns' ! i) = owords ws ((ps @ qs) ! i)" if "i < length ns'" for i
    using that q(4) new assms t(3) by (cases "i < length ns") (auto simp: wordtrie_def nth_append)
  have "words (?n ! i) = owords (ws @ [(w, cat)]) ((ps @ qs) ! i)" if "i < length ns'" for i
    using that old q(2,3) trie_index_eq [OF q(1), of i cur] by (cases "i = cur") (auto simp: owords_upd)
  moreover have "w \<in> set (ps @ qs)" using q(2,3) trieD(1) [OF q(1)] by (metis nth_mem)
  ultimately have "wordtrie (ws @ [(w, cat)]) ?n (ps @ qs)"
    using q(1) assms by (auto simp: wordtrie_def trie_words_upd)
  then show ?thesis using False a by (auto simp: addWord_def)
qed

lemma addWords_wordtrie:
  "\<exists>ps. wordtrie (filter (\<lambda>e. fst e \<noteq> []) ws) (foldl (\<lambda>ns e. addWord ns (fst e) (snd e)) new_automaton ws) ps"
proof (induction ws rule: rev_induct)
  case Nil
  have "wordtrie [] new_automaton [[]]"
    by (auto simp: wordtrie_def trie_def new_automaton_def new_node_def owords_def)
  then show ?case by auto
next
  case (snoc e ws)
  then obtain ps where "wordtrie (filter (\<lambda>e. fst e \<noteq> []) ws) (foldl (\<lambda>ns e. addWord ns (fst e) (snd e)) new_automaton ws) ps" by blast
  from addWord_wordtrie [OF this, of "fst e" "snd e"] show ?case by simp
qed

section \<open>Failure links\<close>

lemma prefix_closed_take: "prefix_closed P \<Longrightarrow> p \<in> P \<Longrightarrow> take k p \<in> P"
proof (induction p rule: rev_induct)
  case (snoc c p)
  then show ?case by (cases "k \<le> length p") (auto simp: prefix_closed_def)
qed simp

lemma path_length:
  assumes "trie ns ps" "i < length ns"
  shows "length (ps ! i) < length ns"
proof -
  let ?p = "ps ! i"
  have "inj_on (\<lambda>k. take k ?p) {0..length ?p}"
    by (rule inj_onI) (metis atLeastAtMost_iff length_take min.absorb2)
  then have "card ((\<lambda>k. take k ?p) ` {0..length ?p}) = Suc (length ?p)" by (simp add: card_image)
  moreover have "(\<lambda>k. take k ?p) ` {0..length ?p} \<subseteq> set ps"
    using prefix_closed_take [OF trieD(5) [OF assms(1)]] assms trieD(1) [OF assms(1)] by auto
  then have "card ((\<lambda>k. take k ?p) ` {0..length ?p}) \<le> length ps"
    by (metis List.finite_set card_length card_mono le_trans)
  ultimately show ?thesis using trieD(1) [OF assms(1)] by simp
qed

definition linked :: "node list \<Rightarrow> string list \<Rightarrow> nat \<Rightarrow> bool" where
  "linked ns ps i \<longleftrightarrow> fail (ns ! i) < length ns \<and> ps ! fail (ns ! i) = best (set ps) (tl (ps ! i))"

text \<open>The walk ends, at a node from which the next character leads where the longest suffix is.\<close>

lemma fail_walk_spec:
  assumes "trie ns ps" "f < length ns" "length (ps ! f) < fuel"
    "\<And>i. i < length ns \<Longrightarrow> length (ps ! i) \<le> length (ps ! f) \<Longrightarrow> linked ns ps i"
  shows "\<exists>g. fail_walk fuel ns c f = Some g \<and> g < length ns \<and> (g = 0 \<or> ps ! g @ [c] \<in> set ps) \<and>
    best (set ps) (ps ! g @ [c]) = best (set ps) (ps ! f @ [c])"
  using assms(2-4)
proof (induction fuel arbitrary: f)
  case (Suc n)
  show ?case
  proof (cases "f \<noteq> 0 \<and> map_of (children (ns ! f)) c = None")
    case False
    then show ?thesis using Suc.prems(1) trie_no_edge [OF assms(1) Suc.prems(1)] by (intro exI [of _ f]) auto
  next
    case True
    let ?g = "fail (ns ! f)"
    have l: "?g < length ns" "ps ! ?g = best (set ps) (tl (ps ! f))"
      using Suc.prems(3) [OF Suc.prems(1)] by (auto simp: linked_def)
    have ne: "ps ! f \<noteq> []" using True trie_index_eq [OF assms(1) Suc.prems(1), of 0] trieD(2,3) [OF assms(1)] by auto
    have lt: "length (ps ! ?g) < length (ps ! f)" using l(2) ne best_length [of "set ps" "tl (ps ! f)"] by (cases "ps ! f") auto
    have "\<exists>h. fail_walk n ns c ?g = Some h \<and> h < length ns \<and> (h = 0 \<or> ps ! h @ [c] \<in> set ps) \<and>
        best (set ps) (ps ! h @ [c]) = best (set ps) (ps ! ?g @ [c])"
      using Suc.IH [OF l(1)] lt Suc.prems(2,3) by fastforce
    moreover have "ps ! f @ [c] \<notin> set ps" using True trie_no_edge [OF assms(1) Suc.prems(1)] by simp
    then have "best (set ps) (ps ! f @ [c]) = best (set ps) (ps ! ?g @ [c])"
      using best_fail [OF trieD(5) [OF assms(1)] _ ne] l(2) by simp
    ultimately show ?thesis using True by auto
  qed
qed simp

lemma goto_spec:
  assumes "trie ns ps" "g < length ns" "g = 0 \<or> ps ! g @ [c] \<in> set ps"
  shows "case map_of (children (ns ! g)) c of
      Some t \<Rightarrow> t < length ns \<and> ps ! t = best (set ps) (ps ! g @ [c])
    | None \<Rightarrow> g = 0 \<and> best (set ps) (ps ! g @ [c]) = []"
proof (cases "map_of (children (ns ! g)) c")
  case None
  then have "ps ! g @ [c] \<notin> set ps" using trie_no_edge [OF assms(1,2)] by simp
  with assms None trieD(3) [OF assms(1)] show ?thesis by simp
next
  case (Some t)
  then have "t < length ns" "ps ! t = ps ! g @ [c]" using trie_edge [OF assms(1,2)] by auto
  moreover then have "ps ! g @ [c] \<in> set ps" using trieD(1) [OF assms(1)] by (metis nth_mem)
  ultimately show ?thesis using Some by simp
qed

section \<open>Breadth-first construction\<close>

definition ready :: "(string \<times> string) list \<Rightarrow> node list \<Rightarrow> string list \<Rightarrow> nat \<Rightarrow> bool" where
  "ready ws ns ps i \<longleftrightarrow> linked ns ps i \<and> words (ns ! i) = full ws (ps ! i)"

text \<open>\<open>D\<close> is the set of nodes whose link and words are final.\<close>

definition built :: "(string \<times> string) list \<Rightarrow> string list \<Rightarrow> nat set \<Rightarrow> node list \<Rightarrow> bool" where
  "built ws ps D ns \<longleftrightarrow> trie ns ps \<and> (\<forall>e \<in> set ws. fst e \<in> set ps) \<and> 0 \<in> D \<and> D \<subseteq> {..<length ns} \<and>
     (\<forall>i \<in> D. ready ws ns ps i) \<and> (\<forall>i < length ns. i \<notin> D \<longrightarrow> words (ns ! i) = owords ws (ps ! i))"

lemma builtD:
  assumes "built ws ps D ns"
  shows "trie ns ps" "\<forall>e \<in> set ws. fst e \<in> set ps" "0 \<in> D" "i \<in> D \<Longrightarrow> i < length ns" "i \<in> D \<Longrightarrow> ready ws ns ps i"
    "i < length ns \<Longrightarrow> i \<notin> D \<Longrightarrow> words (ns ! i) = owords ws (ps ! i)"
  using assms by (auto simp: built_def)

lemma trie_same_children:
  assumes "trie ns ps" "length ns' = length ns" "\<And>i. children (ns' ! i) = children (ns ! i)"
  shows "trie ns' ps"
  using assms by (auto simp: trie_def)

lemma same_children_upd:
  "children (ns[i := (ns ! i)\<lparr>fail := x, words := y\<rparr>] ! j) = children (ns ! j)"
  "children (ns[i := (ns ! i)\<lparr>fail := x\<rparr>] ! j) = children (ns ! j)"
  by (cases "j = i"; cases "i < length ns"; simp add: list_update_beyond)+

lemma link_child_spec:
  assumes b: "built ws ps D ns" and cur: "cur \<in> D" "cur \<noteq> 0" and child: "(c, child) \<in> set (children (ns ! cur))" "child \<notin> D"
    and shallow: "\<And>i. i < length ns \<Longrightarrow> length (ps ! i) \<le> length (ps ! cur) \<Longrightarrow> i \<in> D"
  shows "\<exists>ns'. link_child ns cur c child = Some ns' \<and> length ns' = length ns \<and>
    (\<forall>i. children (ns' ! i) = children (ns ! i)) \<and> built ws ps (insert child D) ns'"
proof -
  note t = builtD(1) [OF b]
  have cl: "cur < length ns" using builtD(4) [OF b cur(1)] .
  have ch: "child < length ns" "ps ! child = ps ! cur @ [c]" using trieD(7) [OF t cl] child(1) by auto
  have ne: "ps ! cur \<noteq> []" using cur(2) trie_index_eq [OF t cl, of 0] trieD(2,3) [OF t] by auto
  have f: "fail (ns ! cur) < length ns" "ps ! fail (ns ! cur) = best (set ps) (tl (ps ! cur))"
    using builtD(5) [OF b cur(1)] by (auto simp: ready_def linked_def)
  have fl: "length (ps ! fail (ns ! cur)) \<le> length (ps ! cur)"
    using f(2) best_length [of "set ps" "tl (ps ! cur)"] by simp
  have tlc: "tl (ps ! child) = tl (ps ! cur) @ [c]" using ch(2) ne by simp
  have goal_path: "best (set ps) (tl (ps ! child)) = best (set ps) (ps ! fail (ns ! cur) @ [c])"
    using best_snoc [OF trieD(5) [OF t], of "tl (ps ! cur)" c] f(2) tlc by simp
  obtain g where g: "fail_walk (length ns) ns c (fail (ns ! cur)) = Some g" "g < length ns" "g = 0 \<or> ps ! g @ [c] \<in> set ps"
      "best (set ps) (ps ! g @ [c]) = best (set ps) (tl (ps ! child))"
    using fail_walk_spec [OF t f(1) path_length [OF t f(1)], of c] builtD(5) [OF b] shallow fl goal_path
    by (force simp: ready_def)
  define target where "target = (case map_of (children (ns ! g)) c of Some t \<Rightarrow> if t \<noteq> child then t else 0 | None \<Rightarrow> 0)"
  have c0: "0 < child" using child(2) builtD(3) [OF b] by (cases "child = 0") simp_all
  have short: "length (best (set ps) (tl (ps ! child))) < length (ps ! child)"
    using best_length [of "set ps" "tl (ps ! child)"] ch(2) tlc ne by (cases "ps ! cur") auto
  have tg: "target < length ns" "ps ! target = best (set ps) (tl (ps ! child))" "target \<noteq> child"
    using goto_spec [OF t g(2,3)] g(4) short trieD(2,3) [OF t] c0
    by (auto simp: target_def split: option.splits)
  have td: "target \<in> D" using shallow [OF tg(1)] tg(2) short ch(2) by simp
  let ?ws = "if target \<noteq> 0 then words (ns ! child) @ words (ns ! target) else words (ns ! child)"
  let ?ns = "ns[child := (ns ! child)\<lparr>fail := target, words := ?ws\<rparr>]"
  have res: "link_child ns cur c child = Some ?ns"
    using g(1) ch(1) tg(3) by (simp add: link_child_def target_def [symmetric] Let_def)
  have "?ws = full ws (ps ! child)"
  proof -
    have "full ws (tl (ps ! child)) = full ws (ps ! target)" using full_best [OF builtD(2) [OF b]] tg(2) by metis
    moreover have "words (ns ! target) = full ws (ps ! target)" using builtD(5) [OF b td] by (simp add: ready_def)
    moreover have "full ws (ps ! child) = owords ws (ps ! child) @ full ws (tl (ps ! child))" using ch(2) by (intro full_ne) simp
    moreover have "full ws (ps ! 0) = []" using trieD(3) [OF t] by simp
    ultimately show ?thesis using builtD(6) [OF b ch(1) child(2)] by (cases "target = 0") auto
  qed
  then have "ready ws ?ns ps child" using ch(1) tg by (simp add: ready_def linked_def)
  moreover have "ready ws ?ns ps i" if "i \<in> D" for i using builtD(5) [OF b that] that child(2)
    by (cases "i = child") (simp_all add: ready_def linked_def)
  moreover have "trie ?ns ps" by (rule trie_same_children [OF t]) (simp_all add: same_children_upd)
  ultimately have "built ws ps (insert child D) ?ns" using b ch(1) by (auto simp: built_def)
  then show ?thesis using res by (simp add: same_children_upd)
qed

lemma link_children_spec:
  assumes "built ws ps D ns" "cur \<in> D" "cur \<noteq> 0" "set cs \<subseteq> set (children (ns ! cur))" "distinct (map snd cs)"
    "snd ` set cs \<inter> D = {}" "\<And>i. i < length ns \<Longrightarrow> length (ps ! i) \<le> length (ps ! cur) \<Longrightarrow> i \<in> D"
  shows "\<exists>ns'. link_children ns cur cs q = Some (ns', q @ map snd cs) \<and> length ns' = length ns \<and>
    (\<forall>i. children (ns' ! i) = children (ns ! i)) \<and> built ws ps (D \<union> snd ` set cs) ns'"
  using assms
proof (induction cs arbitrary: ns D q)
  case (Cons e cs)
  obtain c child where e: "e = (c, child)" by fastforce
  obtain ns1 where n1: "link_child ns cur c child = Some ns1" "length ns1 = length ns"
      "\<forall>i. children (ns1 ! i) = children (ns ! i)" "built ws ps (insert child D) ns1"
    using link_child_spec [of ws ps D ns cur c child] Cons.prems e by auto
  have "\<exists>ns'. link_children ns1 cur cs (q @ [child]) = Some (ns', (q @ [child]) @ map snd cs) \<and> length ns' = length ns1 \<and>
      (\<forall>i. children (ns' ! i) = children (ns1 ! i)) \<and> built ws ps (insert child D \<union> snd ` set cs) ns'"
  proof (rule Cons.IH [OF n1(4)])
    show "snd ` set cs \<inter> insert child D = {}" using Cons.prems(5,6) e by auto
  qed (use Cons.prems e n1 in auto)
  with n1 show ?case unfolding e by (auto simp: Un_insert_left insert_commute)
qed simp

text \<open>The queue is in order of depth, and everything unfinished is below it.\<close>

definition frontier :: "string list \<Rightarrow> nat set \<Rightarrow> node list \<Rightarrow> nat list \<Rightarrow> bool" where
  "frontier ps D ns q \<longleftrightarrow> set q \<subseteq> D - {0} \<and> distinct q \<and> sorted (map (\<lambda>i. length (ps ! i)) q) \<and>
     (\<forall>x \<in> set q. length (ps ! x) \<le> Suc (length (ps ! hd q))) \<and>
     (\<forall>i < length ns. i \<notin> D \<longrightarrow> (\<exists>j \<in> set q. \<exists>u. u \<noteq> [] \<and> ps ! i = ps ! j @ u)) \<and>
     (\<forall>j \<in> set q. snd ` set (children (ns ! j)) \<inter> D = {}) \<and>
     (\<forall>n \<in> D. \<forall>m < length ns. \<forall>d. ps ! n = ps ! m @ [d] \<longrightarrow> m \<in> D)"

lemma frontierD:
  assumes "frontier ps D ns q"
  shows "set q \<subseteq> D - {0}" "distinct q" "sorted (map (\<lambda>i. length (ps ! i)) q)"
    "x \<in> set q \<Longrightarrow> length (ps ! x) \<le> Suc (length (ps ! hd q))"
    "i < length ns \<Longrightarrow> i \<notin> D \<Longrightarrow> \<exists>j \<in> set q. \<exists>u. u \<noteq> [] \<and> ps ! i = ps ! j @ u"
    "j \<in> set q \<Longrightarrow> snd ` set (children (ns ! j)) \<inter> D = {}"
    "n \<in> D \<Longrightarrow> m < length ns \<Longrightarrow> ps ! n = ps ! m @ [d] \<Longrightarrow> m \<in> D"
proof -
  note c = assms [unfolded frontier_def]
  show "set q \<subseteq> D - {0}" "distinct q" "sorted (map (\<lambda>i. length (ps ! i)) q)" using c by simp_all
  show "x \<in> set q \<Longrightarrow> length (ps ! x) \<le> Suc (length (ps ! hd q))" using c by simp
  show "i < length ns \<Longrightarrow> i \<notin> D \<Longrightarrow> \<exists>j \<in> set q. \<exists>u. u \<noteq> [] \<and> ps ! i = ps ! j @ u" using c by meson
  show "j \<in> set q \<Longrightarrow> snd ` set (children (ns ! j)) \<inter> D = {}" using c by simp
  show "n \<in> D \<Longrightarrow> m < length ns \<Longrightarrow> ps ! n = ps ! m @ [d] \<Longrightarrow> m \<in> D" using c by meson
qed

lemma child_paths:
  assumes "trie ns ps" "i < length ns" "n \<in> snd ` set (children (ns ! i))"
  shows "\<exists>c. n < length ns \<and> ps ! n = ps ! i @ [c]"
  using assms trieD(7) [OF assms(1,2)] by force

lemma child_exists:
  assumes "trie ns ps" "i < length ns" "ps ! i @ [c] \<in> set ps"
  shows "\<exists>n \<in> snd ` set (children (ns ! i)). ps ! n = ps ! i @ [c]"
proof -
  obtain n where n: "n < length ns" "ps ! n = ps ! i @ [c]" using assms trieD(1) [OF assms(1)] by (auto simp: in_set_conv_nth)
  then have "(c, n) \<in> set (children (ns ! i))" using trieD(7) [OF assms(1,2)] by simp
  then show ?thesis using n(2) by force
qed

lemma sorted_const: "(\<And>x. x \<in> set xs \<Longrightarrow> f x = (k :: nat)) \<Longrightarrow> sorted (map f xs)"
  by (induction xs) auto

lemma frontier_next:
  assumes b: "built ws ps D ns" and f: "frontier ps D ns (cur # q)"
    and cs: "distinct new" "set new = snd ` set (children (ns ! cur))"
  shows "frontier ps (D \<union> set new) ns (q @ new)"
proof -
  note t = builtD(1) [OF b] and f = frontierD [OF f]
  have cl: "cur < length ns" "cur \<in> D" "cur \<noteq> 0" using f(1) builtD(4) [OF b] by auto
  have new: "\<exists>c. n < length ns \<and> ps ! n = ps ! cur @ [c]" if "n \<in> set new" for n
    using child_paths [OF t cl(1)] that cs(2) by simp
  have len: "length (ps ! n) = Suc (length (ps ! cur))" if "n \<in> set new" for n using new [OF that] by auto
  have fresh: "set new \<inter> D = {}" using f(6) [of cur] cs(2) by simp
  have qd: "length (ps ! cur) \<le> length (ps ! x)" "length (ps ! x) \<le> Suc (length (ps ! cur))" if "x \<in> set q" for x
    using f(3) f(4) [of x] that by auto
  have hd: "length (ps ! cur) \<le> length (ps ! hd (q @ new))" if "q @ new \<noteq> []"
    using that qd(1) len by (cases q) (auto simp: hd_append dest: hd_in_set)
  have sub: "set (q @ new) \<subseteq> D \<union> set new - {0}" using f(1) fresh builtD(3) [OF b] by auto
  have dist: "distinct (q @ new)" using f(1,2) fresh cs(1) by auto
  have sorted: "sorted (map (\<lambda>i. length (ps ! i)) (q @ new))"
  proof -
    have "sorted (map (\<lambda>i. length (ps ! i)) new)" using len by (intro sorted_const) blast
    then show ?thesis using f(3) qd(2) len by (auto simp: sorted_append)
  qed
  have near: "length (ps ! x) \<le> Suc (length (ps ! hd (q @ new)))" if "x \<in> set (q @ new)" for x
  proof -
    have "length (ps ! x) \<le> Suc (length (ps ! cur))" using that qd(2) len by fastforce
    moreover have "q @ new \<noteq> []" using that by auto
    ultimately show ?thesis using hd by simp
  qed
  have below: "\<exists>j \<in> set (q @ new). \<exists>u. u \<noteq> [] \<and> ps ! i = ps ! j @ u" if i: "i < length ns" "i \<notin> D \<union> set new" for i
  proof -
    obtain j u where j: "j \<in> set (cur # q)" "u \<noteq> []" "ps ! i = ps ! j @ u" using f(5) [OF i(1)] i(2) by blast
    show ?thesis
    proof (cases "j = cur")
      case True
      obtain c v where u: "u = c # v" using j(2) by (cases u) auto
      have pi: "ps ! i \<in> set ps" using i(1) trieD(1) [OF t] by simp
      have "take (length (ps ! cur) + 1) (ps ! i) = ps ! cur @ [c]" using j(3) True u by simp
      then have "ps ! cur @ [c] \<in> set ps" using prefix_closed_take [OF trieD(5) [OF t] pi] by metis
      then obtain n where n: "n \<in> set new" "ps ! n = ps ! cur @ [c]" using child_exists [OF t cl(1)] cs(2) by blast
      have "v \<noteq> []"
      proof
        assume "v = []"
        then have "ps ! i = ps ! n" using n(2) j(3) True u by simp
        then have "i = n" using trie_index_eq [OF t i(1)] new [OF n(1)] by blast
        then show False using n(1) i(2) by blast
      qed
      then show ?thesis using n j(3) True u by (intro bexI [of _ n] exI [of _ v]) auto
    qed (use j in auto)
  qed
  have apart: "snd ` set (children (ns ! j)) \<inter> (D \<union> set new) = {}" if j: "j \<in> set (q @ new)" for j
  proof -
    have jl: "j < length ns" "j \<noteq> cur" using j f(1,2) builtD(4) [OF b] new fresh cl(2) by auto
    have "n \<notin> set new" if "n \<in> snd ` set (children (ns ! j))" for n
    proof
      assume "n \<in> set new"
      then have "ps ! cur = ps ! j" using new child_paths [OF t jl(1) that] by force
      then show False using trie_index_eq [OF t cl(1) jl(1)] jl(2) by blast
    qed
    moreover have "n \<notin> D" if n: "n \<in> snd ` set (children (ns ! j))" for n
    proof (cases "j \<in> set q")
      case True
      then show ?thesis using f(6) [of j] n by auto
    next
      case False
      then have "j \<notin> D" using j fresh by auto
      then show ?thesis using f(7) [OF _ jl(1)] child_paths [OF t jl(1) n] by blast
    qed
    ultimately show ?thesis by blast
  qed
  have parents: "m \<in> D \<union> set new" if n: "n \<in> D \<union> set new" "m < length ns" "ps ! n = ps ! m @ [d]" for n m d
  proof (cases "n \<in> D")
    case False
    then have "ps ! cur = ps ! m" using new [of n] n(1,3) by force
    then show ?thesis using trie_index_eq [OF t cl(1) n(2)] cl(2) by blast
  qed (use f(7) n in blast)
  show ?thesis unfolding frontier_def using sub dist sorted near below apart parents by blast
qed

definition visits_once :: "walk_order \<Rightarrow> bool" where
  "visits_once ord \<longleftrightarrow> (\<forall>xs. distinct xs \<longrightarrow> distinct (ord xs) \<and> set (ord xs) = set xs)"

lemma children_targets:
  assumes "trie ns ps" "i < length ns" "visits_once ord"
  shows "set (ord (children (ns ! i))) = set (children (ns ! i))" "distinct (map snd (ord (children (ns ! i))))"
proof -
  have "distinct (children (ns ! i))" using trieD(6) [OF assms(1,2)] distinct_map by blast
  then have o: "distinct (ord (children (ns ! i)))" "set (ord (children (ns ! i))) = set (children (ns ! i))"
    using assms(3) by (auto simp: visits_once_def)
  have "inj_on snd (set (children (ns ! i)))"
  proof (rule inj_onI)
    fix x y assume "x \<in> set (children (ns ! i))" "y \<in> set (children (ns ! i))" "snd x = snd y"
    moreover obtain a n where x: "x = (a, n)" by fastforce
    moreover obtain b m where y: "y = (b, m)" by fastforce
    ultimately show "x = y" using trieD(7) [OF assms(1,2)] by auto
  qed
  with o show "set (ord (children (ns ! i))) = set (children (ns ! i))" "distinct (map snd (ord (children (ns ! i))))"
    by (simp_all add: distinct_map)
qed

lemma frontier_same_children:
  "frontier ps D ns q \<Longrightarrow> length ns' = length ns \<Longrightarrow> (\<And>i. children (ns' ! i) = children (ns ! i)) \<Longrightarrow> frontier ps D ns' q"
  by (simp add: frontier_def)

lemma bfs_spec:
  assumes "built ws ps D ns" "frontier ps D ns q" "visits_once ord" "length q + card ({..<length ns} - D) \<le> fuel"
  shows "\<exists>ns'. bfs fuel ord ns q = Some ns' \<and> built ws ps {..<length ns'} ns'"
  using assms(1,2,4)
proof (induction fuel arbitrary: D ns q)
  case (0 D ns q)
  then have "D = {..<length ns}" "q = []" using builtD(4) [OF 0(1)] by auto
  then show ?case using 0(1) by auto
next
  case (Suc fuel D ns q)
  show ?case
  proof (cases q)
    case Nil
    then have "D = {..<length ns}" using Suc.prems(2) builtD(4) [OF Suc.prems(1)] by (auto simp: frontier_def)
    then show ?thesis using Nil Suc.prems(1) by auto
  next
    case (Cons cur rest)
    note t = builtD(1) [OF Suc.prems(1)] and f = frontierD [OF Suc.prems(2)]
    have cl: "cur < length ns" "cur \<in> D" "cur \<noteq> 0" using f(1) Cons builtD(4) [OF Suc.prems(1)] by auto
    let ?cs = "ord (children (ns ! cur))"
    note o = children_targets [OF t cl(1) assms(3)]
    have shallow: "i \<in> D" if "i < length ns" "length (ps ! i) \<le> length (ps ! cur)" for i
    proof (rule ccontr)
      assume "i \<notin> D"
      from f(5) [OF that(1) this] obtain j u where j: "j \<in> set q" "u \<noteq> []" "ps ! i = ps ! j @ u" by blast
      then have "length (ps ! cur) \<le> length (ps ! j)" using f(3) Cons by auto
      with j(2,3) that(2) show False by (cases u) simp_all
    qed
    have fresh: "snd ` set ?cs \<inter> D = {}" using f(6) [of cur] Cons o(1) by simp
    obtain ns1 where n1: "link_children ns cur ?cs rest = Some (ns1, rest @ map snd ?cs)" "length ns1 = length ns"
        "\<forall>i. children (ns1 ! i) = children (ns ! i)" "built ws ps (D \<union> snd ` set ?cs) ns1"
      using link_children_spec [OF Suc.prems(1) cl(2,3) _ o(2) fresh shallow, of rest] o(1) by auto
    have front: "frontier ps (D \<union> snd ` set ?cs) ns1 (rest @ map snd ?cs)"
      using frontier_same_children [OF frontier_next [OF Suc.prems(1) Suc.prems(2) [unfolded Cons] o(2)] n1(2)] n1(3) o(1) by simp
    have "card ({..<length ns} - D) = card (snd ` set ?cs) + card ({..<length ns} - (D \<union> snd ` set ?cs))"
    proof -
      have "snd ` set ?cs \<subseteq> {..<length ns} - D" using fresh o(1) child_paths [OF t cl(1)] by auto
      moreover have "{..<length ns} - (D \<union> snd ` set ?cs) = ({..<length ns} - D) - snd ` set ?cs" by blast
      ultimately show ?thesis by (simp add: card_Diff_subset card_mono)
    qed
    moreover have "card (snd ` set ?cs) = length ?cs" using o(2) by (metis card_distinct distinct_card length_map set_map)
    ultimately have "length (rest @ map snd ?cs) + card ({..<length ns1} - (D \<union> snd ` set ?cs)) \<le> fuel"
      using Suc.prems(3) Cons n1(2) by simp
    from Suc.IH [OF n1(4) front this] show ?thesis using Cons n1(1) by simp
  qed
qed

lemma clear_fail_simps:
  "length (clear_fail ns i) = length ns" "children (clear_fail ns i ! j) = children (ns ! j)"
  "words (clear_fail ns i ! j) = words (ns ! j)"
  "j < length ns \<Longrightarrow> fail (clear_fail ns i ! j) = (if i = j then 0 else fail (ns ! j))"
  by (cases "j = i"; cases "i < length ns"; simp add: clear_fail_def list_update_beyond)+

lemma clear_fails:
  "length (foldl clear_fail ns is) = length ns \<and> (\<forall>j. children (foldl clear_fail ns is ! j) = children (ns ! j)) \<and>
   (\<forall>j. words (foldl clear_fail ns is ! j) = words (ns ! j)) \<and>
   (\<forall>j < length ns. fail (foldl clear_fail ns is ! j) = (if j \<in> set is then 0 else fail (ns ! j)))"
  by (induction "is" arbitrary: ns) (auto simp: clear_fail_simps)

lemma build_spec:
  assumes "wordtrie ws ns ps" "\<forall>e \<in> set ws. fst e \<noteq> []" "visits_once ord"
  shows "\<exists>ns'. build ord ns = Some ns' \<and> built ws ps {..<length ns'} ns'"
proof -
  let ?z = "clear_fail ns 0"
  let ?new = "map snd (ord (children (ns ! 0)))"
  let ?ns = "foldl clear_fail ?z ?new"
  let ?D = "insert 0 (set ?new)"
  have t: "trie ns ps" using assms(1) by (simp add: wordtrie_def)
  have same: "length ?ns = length ns" "\<And>i. children (?ns ! i) = children (ns ! i)" "\<And>i. words (?ns ! i) = words (ns ! i)"
    "\<And>i. i \<in> ?D \<Longrightarrow> i < length ns \<Longrightarrow> fail (?ns ! i) = 0"
    using clear_fails [of ?z ?new] by (auto simp: clear_fail_simps)
  have t': "trie ?ns ps" using trie_same_children [OF t] same by blast
  note root = trieD(2,3) [OF t]
  note o = children_targets [OF t root(1) assms(3)]
  have new: "\<exists>c. n < length ns \<and> ps ! n = [c]" if "n \<in> set ?new" for n
    using child_paths [OF t root(1), of n] that o(1) root(2) by simp
  have fr: "0 \<notin> set ?new" using new root(2) by force
  have D: "length (ps ! i) \<le> 1 \<and> i < length ns" if "i \<in> ?D" for i
    using that new [of i] root by (cases "i = 0") (simp, force)
  have "ready ws ?ns ps i" if i: "i \<in> ?D" for i
  proof -
    have w: "words (?ns ! i) = owords ws (ps ! i)" using assms(1) D [OF i] same(3) by (simp add: wordtrie_def)
    have "owords ws [] = []" using assms(2) by (simp add: owords_def filter_empty_conv)
    then have "owords ws (ps ! i) = full ws (ps ! i)" "tl (ps ! i) = []"
      using D [OF i] by (cases "ps ! i"; simp)+
    then show ?thesis using w same(1,4) i D [OF i] root by (simp add: ready_def linked_def)
  qed
  then have b: "built ws ps ?D ?ns" using t' assms(1) D same(1,3) by (auto simp: built_def wordtrie_def)
  have "frontier ps ?D ?ns ?new" unfolding frontier_def
  proof (intro conjI ballI allI impI)
    show "set ?new \<subseteq> ?D - {0}" using fr by auto
    show "distinct ?new" by (rule o(2))
    show "sorted (map (\<lambda>i. length (ps ! i)) ?new)" 
    proof (rule sorted_const)
      fix x assume "x \<in> set ?new"
      from new [OF this] show "length (ps ! x) = 1" by auto
    qed
    fix x assume "x \<in> set ?new"
    then have "x \<in> ?D" by simp
    from D [OF this] show "length (ps ! x) \<le> Suc (length (ps ! hd ?new))" by simp
  next
    fix i assume i: "i < length ?ns" "i \<notin> ?D"
    then have "ps ! i \<noteq> []" using trie_index_eq [OF t, of i 0] root same(1) by auto
    then obtain c u where p: "ps ! i = c # u" by (cases "ps ! i") auto
    have "ps ! i \<in> set ps" using i(1) same(1) trieD(1) [OF t] by simp
    from prefix_closed_take [OF trieD(5) [OF t] this, of 1] have "[c] \<in> set ps" using p by simp
    then obtain n where n: "n \<in> set ?new" "ps ! n = [c]" using child_exists [OF t root(1), of c] o(1) root(2) by auto
    have "u \<noteq> []" using p n i trie_index_eq [OF t, of i n] new [OF n(1)] same(1) by force
    then show "\<exists>j \<in> set ?new. \<exists>u. u \<noteq> [] \<and> ps ! i = ps ! j @ u" using n p by (intro bexI [of _ n] exI [of _ u]) auto
  next
    fix j assume j: "j \<in> set ?new"
    then obtain c where c: "j < length ns" "ps ! j = [c]" using new by blast
    have "n \<notin> ?D" if "n \<in> snd ` set (children (ns ! j))" for n
    proof
      assume "n \<in> ?D"
      from D [OF this] child_paths [OF t c(1) that] c(2) show False by auto
    qed
    then show "snd ` set (children (?ns ! j)) \<inter> ?D = {}" using same(2) by auto
  next
    fix n m d assume n: "n \<in> ?D" "m < length ?ns" "ps ! n = ps ! m @ [d]"
    then have "ps ! m = []" using D [OF n(1)] by simp
    then show "m \<in> ?D" using trie_index_eq [OF t, of m 0] root n(2) same(1) by simp
  qed
  moreover have "length ?new + card ({..<length ?ns} - ?D) \<le> length ns"
  proof -
    have "card ?D = Suc (length ?new)" using fr o(2) distinct_card [OF o(2)] by simp
    moreover have sub: "?D \<subseteq> {..<length ns}" using D by auto
    moreover have "card ?D \<le> length ns" using card_mono [OF finite_lessThan sub] by simp
    ultimately show ?thesis using same(1) by (simp add: card_Diff_subset)
  qed
  ultimately show ?thesis using bfs_spec [OF b _ assms(3)] by (simp add: build_def Let_def clear_fail_simps)
qed

section \<open>Searching\<close>

text \<open>The reference: at every end position, every listed suffix of the text read so far.\<close>

fun naive_from :: "(string \<times> string) list \<Rightarrow> string \<Rightarrow> string \<Rightarrow> ac_match list" where
  "naive_from ws seen [] = []"
| "naive_from ws seen (c # text) = map (mk_match (length seen)) (full ws (seen @ [c])) @ naive_from ws (seen @ [c]) text"

lemma search_loop_spec:
  assumes "built ws ps {..<length ns} ns" "cur < length ns" "ps ! cur = best (set ps) seen"
  shows "search_loop ns (length seen) cur str = Some (naive_from ws seen str)"
  using assms(2,3)
proof (induction str arbitrary: cur seen)
  case (Cons c str)
  note t = builtD(1) [OF assms(1)]
  have all: "ready ws ns ps i" if "i < length ns" for i using builtD(5) [OF assms(1)] that by simp
  obtain g where g: "fail_walk (length ns) ns c cur = Some g" "g < length ns" "g = 0 \<or> ps ! g @ [c] \<in> set ps"
      "best (set ps) (ps ! g @ [c]) = best (set ps) (ps ! cur @ [c])"
    using fail_walk_spec [OF t Cons.prems(1) path_length [OF t Cons.prems(1)], of c] all by (auto simp: ready_def)
  define nxt where "nxt = (case map_of (children (ns ! g)) c of Some t \<Rightarrow> t | None \<Rightarrow> g)"
  have n: "nxt < length ns" "ps ! nxt = best (set ps) (seen @ [c])"
    using goto_spec [OF t g(2,3)] g(4) Cons.prems(2) best_snoc [OF trieD(5) [OF t], of seen c] trieD(2,3) [OF t]
    by (auto simp: nxt_def split: option.splits)
  have "words (ns ! nxt) = full ws (seen @ [c])"
    using all [OF n(1)] n(2) full_best [OF builtD(2) [OF assms(1)]] by (simp add: ready_def)
  with Cons.IH [OF n] g(1) show ?case by (simp add: nxt_def [symmetric] Let_def)
qed simp

lemma full_mem: "e \<in> set (full ws p) \<longleftrightarrow> e \<in> set ws \<and> fst e \<noteq> [] \<and> (\<exists>u. p = u @ fst e)"
proof (induction p)
  case (Cons x xs)
  have "(\<exists>u. x # xs = u @ fst e) \<longleftrightarrow> fst e = x # xs \<or> (\<exists>u. xs = u @ fst e)" by (metis append_Cons append_eq_Cons_conv self_append_conv2)
  with Cons show ?case by (auto simp: owords_def)
qed simp

lemma naive_mem:
  "m \<in> set (naive_from ws seen str) \<longleftrightarrow>
    (\<exists>k < length str. \<exists>e \<in> set (full ws (seen @ take (Suc k) str)). m = mk_match (length seen + k) e)"
proof (induction str arbitrary: seen)
  case (Cons c str)
  have split: "(\<exists>k < length (c # str). P k) \<longleftrightarrow> P 0 \<or> (\<exists>k < length str. P (Suc k))" for P
    by (metis Ex_less_Suc2 length_Cons)
  show ?case unfolding split using Cons.IH [of "seen @ [c]"] by auto
qed simp

text \<open>What a scan must report: every place where a listed word stands in the text.\<close>

definition occurs :: "(string \<times> string) list \<Rightarrow> string \<Rightarrow> ac_match \<Rightarrow> bool" where
  "occurs ws t m \<longleftrightarrow> (mt_word m, mt_category m) \<in> set ws \<and> mt_word m \<noteq> [] \<and> mt_length m = length (mt_word m) \<and>
     mt_start m + mt_length m \<le> length t \<and> take (mt_length m) (drop (mt_start m) t) = mt_word m"

lemma mk_match_occurs:
  assumes "(w, cat) \<in> set ws" "w \<noteq> []" "k < length t" "take (Suc k) t = u @ w"
  shows "occurs ws t (mk_match k (w, cat))"
proof -
  have "Suc k = length u + length w" using assms(3,4) by (metis Suc_leI length_append length_take min.absorb2)
  then have l: "k + 1 - length w = length u" "length u + length w \<le> length t" using assms(3) by simp_all
  have "take (length w) (drop (length u) t) = drop (length u) (take (Suc k) t)"
    using \<open>Suc k = length u + length w\<close> by (simp add: drop_take)
  then show ?thesis using assms l by (simp add: occurs_def mk_match_def)
qed

lemma occurs_mk_match:
  assumes "occurs ws t m"
  shows "\<exists>k < length t. \<exists>e \<in> set (full ws (take (Suc k) t)). m = mk_match k e"
proof -
  let ?w = "mt_word m" and ?k = "mt_start m + mt_length m - 1"
  have o: "(?w, mt_category m) \<in> set ws" "?w \<noteq> []" "mt_length m = length ?w" "mt_start m + length ?w \<le> length t"
    "take (length ?w) (drop (mt_start m) t) = ?w" using assms by (auto simp: occurs_def)
  have pos: "0 < length ?w" using o(2) by simp
  then have k: "?k < length t" "Suc ?k = mt_start m + length ?w" using o(3,4) by linarith+
  have "take (Suc ?k) t = take (mt_start m) t @ ?w" unfolding k(2) using o(5) by (simp add: take_add)
  then have "(?w, mt_category m) \<in> set (full ws (take (Suc ?k) t))" using o(1,2) by (auto simp: full_mem)
  moreover have "m = mk_match ?k (?w, mt_category m)" using k(2) o(3) pos by (simp add: mk_match_def)
  ultimately show ?thesis using k(1) by blast
qed

lemma naive_occurs: "m \<in> set (naive_from ws [] t) \<longleftrightarrow> occurs ws t m"
proof
  assume "m \<in> set (naive_from ws [] t)"
  then obtain k e where "k < length t" "e \<in> set (full ws (take (Suc k) t))" "m = mk_match k e" by (auto simp: naive_mem)
  then show "occurs ws t m" using mk_match_occurs [of "fst e" "snd e"] by (auto simp: full_mem)
next
  assume "occurs ws t m"
  then show "m \<in> set (naive_from ws [] t)" using occurs_mk_match by (simp add: naive_mem)
qed

lemma occurs_nonempty: "occurs (filter (\<lambda>e. fst e \<noteq> []) ws) t m = occurs ws t m"
  by (auto simp: occurs_def)

definition compile :: "walk_order \<Rightarrow> (string \<times> string) list \<Rightarrow> node list option" where
  "compile ord ws = build ord (foldl (\<lambda>ns e. addWord ns (fst e) (snd e)) new_automaton ws)"

lemma compile_spec:
  assumes "visits_once ord"
  shows "\<exists>ns. compile ord ws = Some ns \<and> (\<forall>t. search ns t = Some (naive_from (filter (\<lambda>e. fst e \<noteq> []) ws) [] t))"
proof -
  let ?ws = "filter (\<lambda>e. fst e \<noteq> []) ws"
  obtain ps where w: "wordtrie ?ws (foldl (\<lambda>ns e. addWord ns (fst e) (snd e)) new_automaton ws) ps"
    using addWords_wordtrie by blast
  obtain ns where n: "compile ord ws = Some ns" "built ?ws ps {..<length ns} ns"
    using build_spec [OF w _ assms] by (auto simp: compile_def)
  have "search ns t = Some (naive_from ?ws [] t)" for t
    using search_loop_spec [OF n(2), of 0 "[]" t] trieD(2,3) [OF builtD(1) [OF n(2)]] by (simp add: search_def)
  with n(1) show ?thesis by blast
qed

section \<open>Interface\<close>

text \<open>What content moderation relies on: a compiled list finds exactly the occurrences.\<close>

locale word_matcher =
  fixes comp :: "(string \<times> string) list \<Rightarrow> 'm option"
    and scan :: "'m \<Rightarrow> string \<Rightarrow> ac_match list option"
  assumes comp_total: "\<exists>m. comp ws = Some m"
    and scan_total: "comp ws = Some m \<Longrightarrow> \<exists>ms. scan m t = Some ms"
    and scan_exact: "comp ws = Some m \<Longrightarrow> scan m t = Some ms \<Longrightarrow> x \<in> set ms \<longleftrightarrow> occurs ws t x"

locale automaton_order =
  fixes ord :: walk_order
  assumes once: "visits_once ord"

sublocale automaton_order \<subseteq> word_matcher "compile ord" search
proof
  fix ws m t ms x
  obtain ns where ns: "compile ord ws = Some ns" "\<forall>t. search ns t = Some (naive_from (filter (\<lambda>e. fst e \<noteq> []) ws) [] t)"
    using compile_spec [OF once] by blast
  show "\<exists>m. compile ord ws = Some m" using ns(1) by blast
  show "compile ord ws = Some m \<Longrightarrow> \<exists>ms. search m t = Some ms" using ns by auto
  show "compile ord ws = Some m \<Longrightarrow> search m t = Some ms \<Longrightarrow> x \<in> set ms \<longleftrightarrow> occurs ws t x"
    using ns by (auto simp: naive_occurs occurs_nonempty)
qed

context automaton_order
begin

lemma is_matcher: "word_matcher (compile ord) search"
  by (rule word_matcher_axioms)

end

interpretation forward: automaton_order "\<lambda>xs. xs"
  by unfold_locales (simp add: visits_once_def)

interpretation backward: automaton_order rev
  by unfold_locales (simp add: visits_once_def)

section \<open>Properties\<close>

text \<open>
  C9. The automaton is a correct multi-pattern matcher: for every list of words, in whatever order
  the hash maps are walked, \<^verbatim>\<open>build\<close> and \<^verbatim>\<open>search\<close> end, the matches are those of the position by
  position search, in its order, and they are exactly the places where a listed non-empty word
  stands in the text.
\<close>

theorem aho_corasick_correct:
  assumes "visits_once ord"
  shows "\<exists>ns ms. build ord (foldl (\<lambda>ns e. addWord ns (fst e) (snd e)) new_automaton ws) = Some ns \<and>
    search ns t = Some ms \<and> ms = naive_from (filter (\<lambda>e. fst e \<noteq> []) ws) [] t \<and>
    (\<forall>m. m \<in> set ms \<longleftrightarrow> (mt_word m, mt_category m) \<in> set ws \<and> mt_word m \<noteq> [] \<and>
      mt_length m = length (mt_word m) \<and> mt_start m + mt_length m \<le> length t \<and>
      take (mt_length m) (drop (mt_start m) t) = mt_word m)"
proof -
  let ?ws = "filter (\<lambda>e. fst e \<noteq> []) ws"
  obtain ns where ns: "compile ord ws = Some ns" "search ns t = Some (naive_from ?ws [] t)"
    using compile_spec [OF assms, of ws] by blast
  have "m \<in> set (naive_from ?ws [] t) \<longleftrightarrow> (mt_word m, mt_category m) \<in> set ws \<and> mt_word m \<noteq> [] \<and>
      mt_length m = length (mt_word m) \<and> mt_start m + mt_length m \<le> length t \<and>
      take (mt_length m) (drop (mt_start m) t) = mt_word m" for m
    by (simp only: naive_occurs occurs_nonempty occurs_def [of ws])
  with ns show ?thesis unfolding compile_def by (intro exI conjI) (assumption | rule refl | blast)+
qed

theorem aho_corasick_correct_witness:
  "\<exists>ns ms. build rev (foldl (\<lambda>ns e. addWord ns (fst e) (snd e)) new_automaton [(''ab'', ''ban''), (''b'', ''warn'')]) = Some ns \<and>
    search ns ''xab'' = Some ms \<and>
    ms = [\<lparr>mt_start = 1, mt_length = 2, mt_word = ''ab'', mt_category = ''ban''\<rparr>,
          \<lparr>mt_start = 2, mt_length = 1, mt_word = ''b'', mt_category = ''warn''\<rparr>]"
proof -
  have "naive_from (filter (\<lambda>e. fst e \<noteq> []) [(''ab'', ''ban''), (''b'', ''warn'')]) [] ''xab'' =
      [\<lparr>mt_start = 1, mt_length = 2, mt_word = ''ab'', mt_category = ''ban''\<rparr>,
       \<lparr>mt_start = 2, mt_length = 1, mt_word = ''b'', mt_category = ''warn''\<rparr>]"
    by (simp add: owords_def mk_match_def)
  note eq = this
  from aho_corasick_correct [OF backward.once, of "[(''ab'', ''ban''), (''b'', ''warn'')]" "''xab''"] obtain ns ms where
    r: "build rev (foldl (\<lambda>ns e. addWord ns (fst e) (snd e)) new_automaton [(''ab'', ''ban''), (''b'', ''warn'')]) = Some ns"
      "search ns ''xab'' = Some ms" "ms = naive_from (filter (\<lambda>e. fst e \<noteq> []) [(''ab'', ''ban''), (''b'', ''warn'')]) [] ''xab''"
    by blast
  show ?thesis by (rule exI [of _ ns], rule exI [of _ ms], intro conjI) (rule r(1), rule r(2), rule r(3) [unfolded eq])
qed

end
