(* ===== verification/Moderation.thy ===== *)
theory Moderation
  imports AhoCorasick Database
begin

text \<open>
  \<^verbatim>\<open>src/src/moderation/ContentModerationService.h\<close>: the word list, its compiled automaton, the
  verdict on a text, the reload on a changed list, and the moderation log. The two tables are
  not part of \<^verbatim>\<open>src/sql\<close>; their columns are those the statements name.
\<close>

datatype verdict = Pass | Review | Block

record response =
  rs_result :: verdict
  rs_reason :: string
  rs_matched :: "string list"

record wl_row =
  wl_word :: "string option"
  wl_category :: "string option"
  wl_enabled :: bool
  wl_updated :: "ms option"

record modlog_row =
  ml_uid :: uid
  ml_type :: string
  ml_sample :: string
  ml_result :: string
  ml_reason :: string
  ml_words :: string
  ml_score :: string

record moderation =
  current :: "node list option"
  lastVersion :: ms
  wordCount :: nat

definition new_moderation :: moderation where
  "new_moderation = \<lparr>current = None, lastVersion = 0, wordCount = 0\<rparr>"

text \<open>\<open>None\<close> is a scan that does not end.\<close>

definition checkText :: "moderation \<Rightarrow> string \<Rightarrow> response option" where
  "checkText s t =
     (let r = \<lparr>rs_result = Pass, rs_reason = [], rs_matched = []\<rparr>
      in if t = [] then Some r
         else
           (case current s of
              None \<Rightarrow> Some r
            | Some ac \<Rightarrow>
              (case search ac t of
                 None \<Rightarrow> None
               | Some ms \<Rightarrow>
                   if ms = [] then Some r
                   else
                     (let hasBan = list_ex (\<lambda>m. mt_category m = ''ban'') ms;
                          hasReview = list_ex (\<lambda>m. mt_category m = ''review'') ms;
                          r1 = r\<lparr>rs_matched := map mt_word ms\<rparr>
                      in Some (if hasBan then r1\<lparr>rs_result := Block, rs_reason := ''contains banned word''\<rparr>
                               else if hasReview then r1\<lparr>rs_result := Review, rs_reason := ''needs human review''\<rparr>
                               else r1)))))"

definition wl_version :: "wl_row \<Rightarrow> ms" where
  "wl_version r = (case wl_updated r of Some v \<Rightarrow> v | None \<Rightarrow> 0)"

definition usable_rows :: "wl_row list \<Rightarrow> wl_row list" where
  "usable_rows rows = filter (\<lambda>r. wl_word r \<noteq> None \<and> wl_category r \<noteq> None) (filter wl_enabled rows)"

definition entry :: "wl_row \<Rightarrow> string \<times> string" where
  "entry r = (the (wl_word r), the (wl_category r))"

text \<open>\<^verbatim>\<open>reload\<close>; \<open>None\<close> is a construction that does not end.\<close>

definition reload :: "walk_order \<Rightarrow> bool \<Rightarrow> outcome \<Rightarrow> wl_row list \<Rightarrow> moderation \<Rightarrow> moderation option" where
  "reload ord hasDb ok rows s =
     (if \<not> hasDb then Some s
      else if \<not> ok Acquire then Some s
      else if \<not> ok (Query 1) then Some s
      else
        (let res = usable_rows rows
         in case build ord (foldl (\<lambda>ns r. addWord ns (fst (entry r)) (snd (entry r))) new_automaton res) of
              None \<Rightarrow> None
            | Some ac \<Rightarrow> Some \<lparr>current = Some ac,
                lastVersion = foldl (\<lambda>v r. if wl_version r > v then wl_version r else v) 0 res,
                wordCount = length res\<rparr>))"

definition queryMaxUpdatedAt :: "bool \<Rightarrow> outcome \<Rightarrow> wl_row list \<Rightarrow> ms" where
  "queryMaxUpdatedAt hasDb ok rows =
     (if \<not> hasDb then 0
      else if \<not> ok Acquire then 0
      else if \<not> ok (Query 1) then 0
      else (case map wl_version (filter (\<lambda>r. wl_updated r \<noteq> None) (filter wl_enabled rows)) of
              [] \<Rightarrow> 0 | v # vs \<Rightarrow> foldl max v vs))"

text \<open>One turn of the reload thread.\<close>

definition reload_turn :: "walk_order \<Rightarrow> bool \<Rightarrow> outcome \<Rightarrow> outcome \<Rightarrow> wl_row list \<Rightarrow> moderation \<Rightarrow> moderation option" where
  "reload_turn ord hasDb okq okr rows s =
     (let latest = queryMaxUpdatedAt hasDb okq rows
      in if latest > 0 \<and> latest \<noteq> lastVersion s then reload ord hasDb okr rows s else Some s)"

fun comma_join :: "string list \<Rightarrow> string" where
  "comma_join [] = []"
| "comma_join [w] = w"
| "comma_join (w # ws) = w @ '','' @ comma_join ws"

definition logModeration :: "outcome \<Rightarrow> uid \<Rightarrow> string \<Rightarrow> string \<Rightarrow> verdict \<Rightarrow> string \<Rightarrow> string list \<Rightarrow> string
    \<Rightarrow> modlog_row list \<Rightarrow> modlog_row list" where
  "logModeration ok u contentType contentSample result reason matched nsfw logs =
     (if \<not> ok Acquire then logs
      else if \<not> ok (Prepare 1) then logs
      else if \<not> ok (Exec 1) then logs
      else logs @ [\<lparr>ml_uid = u, ml_type = contentType,
             ml_sample = (if length contentSample > 200 then take 200 contentSample else contentSample),
             ml_result = (case result of Block \<Rightarrow> ''block'' | Review \<Rightarrow> ''review'' | Pass \<Rightarrow> ''pass''),
             ml_reason = reason, ml_words = comma_join matched, ml_score = nsfw\<rparr>])"

section \<open>Verdicts over a matcher\<close>

definition contains_word :: "(string \<times> string) list \<Rightarrow> string \<Rightarrow> string \<Rightarrow> bool" where
  "contains_word ws cat t \<longleftrightarrow> (\<exists>w a b. (w, cat) \<in> set ws \<and> w \<noteq> [] \<and> t = a @ w @ b)"

lemma occurs_contains: "contains_word ws cat t \<longleftrightarrow> (\<exists>m. occurs ws t m \<and> mt_category m = cat)"
proof
  assume "contains_word ws cat t"
  then obtain w a b where "(w, cat) \<in> set ws" "w \<noteq> []" "t = a @ w @ b" by (auto simp: contains_word_def)
  then have "occurs ws t \<lparr>mt_start = length a, mt_length = length w, mt_word = w, mt_category = cat\<rparr>"
    by (simp add: occurs_def)
  then show "\<exists>m. occurs ws t m \<and> mt_category m = cat" by force
next
  assume "\<exists>m. occurs ws t m \<and> mt_category m = cat"
  then obtain m where m: "occurs ws t m" "mt_category m = cat" by blast
  have "t = take (mt_start m) t @ mt_word m @ drop (mt_start m + mt_length m) t"
    using m(1) by (metis add.commute append_take_drop_id drop_drop occurs_def)
  then show "contains_word ws cat t" using m unfolding contains_word_def occurs_def by blast
qed

context word_matcher
begin

lemma verdict_ban:
  assumes "comp ws = Some m" "scan m t = Some ms"
  shows "list_ex (\<lambda>x. mt_category x = cat) ms \<longleftrightarrow> contains_word ws cat t"
  using scan_exact [OF assms] by (auto simp: list_ex_iff occurs_contains)

lemma matched_words:
  assumes "comp ws = Some m" "scan m t = Some ms"
  shows "w \<in> set (map mt_word ms) \<longleftrightarrow> (\<exists>cat a b. (w, cat) \<in> set ws \<and> w \<noteq> [] \<and> t = a @ w @ b)"
proof
  assume "w \<in> set (map mt_word ms)"
  then obtain x where x: "occurs ws t x" "mt_word x = w" using scan_exact [OF assms] by auto
  have "t = take (mt_start x) t @ mt_word x @ drop (mt_start x + mt_length x) t"
    using x(1) by (metis add.commute append_take_drop_id drop_drop occurs_def)
  then show "\<exists>cat a b. (w, cat) \<in> set ws \<and> w \<noteq> [] \<and> t = a @ w @ b" using x unfolding occurs_def by blast
next
  assume "\<exists>cat a b. (w, cat) \<in> set ws \<and> w \<noteq> [] \<and> t = a @ w @ b"
  then obtain cat a b where "(w, cat) \<in> set ws" "w \<noteq> []" "t = a @ w @ b" by blast
  then have "occurs ws t \<lparr>mt_start = length a, mt_length = length w, mt_word = w, mt_category = cat\<rparr>"
    by (simp add: occurs_def)
  then show "w \<in> set (map mt_word ms)" using scan_exact [OF assms] by force
qed

end

lemma foldl_entry:
  "foldl (\<lambda>ns r. addWord ns (fst (entry r)) (snd (entry r))) a rs =
    foldl (\<lambda>ns e. addWord ns (fst e) (snd e)) a (map entry rs)"
  by (induction rs arbitrary: a) auto

lemma reload_compiles:
  assumes "visits_once ord" "ok Acquire" "ok (Query 1)"
  shows "\<exists>ac s'. reload ord True ok rows s = Some s' \<and> current s' = Some ac \<and>
    compile ord (map entry (usable_rows rows)) = Some ac \<and> wordCount s' = length (usable_rows rows)"
  using assms compile_spec [OF assms(1), of "map entry (usable_rows rows)"]
  by (auto simp: reload_def Let_def foldl_entry compile_def)

section \<open>Properties\<close>

text \<open>
  C34. After a successful load, the verdict on a text is \<open>Block\<close> exactly if it contains an enabled
  word of the category ban, else \<open>Review\<close> exactly if it contains one of the category review,
  else \<open>Pass\<close>, and the reported words are exactly the listed words it contains.
\<close>

theorem checkText_verdict:
  assumes "visits_once ord" "ok Acquire" "ok (Query 1)" "reload ord True ok rows s = Some s'"
  shows "\<exists>r. checkText s' t = Some r \<and>
    rs_result r = (if contains_word (map entry (usable_rows rows)) ''ban'' t then Block
      else if contains_word (map entry (usable_rows rows)) ''review'' t then Review else Pass) \<and>
    (\<forall>w. w \<in> set (rs_matched r) \<longleftrightarrow>
      (\<exists>cat a b. (w, cat) \<in> set (map entry (usable_rows rows)) \<and> w \<noteq> [] \<and> t = a @ w @ b))"
proof -
  let ?ws = "map entry (usable_rows rows)"
  note wm = automaton_order.is_matcher [OF automaton_order.intro [OF assms(1)]]
  obtain ac where ac: "current s' = Some ac" "compile ord ?ws = Some ac"
    using reload_compiles [OF assms(1-3), of rows s] assms(4) by auto
  obtain ms where ms: "search ac t = Some ms" using word_matcher.scan_total [OF wm ac(2)] by blast
  note v = word_matcher.verdict_ban [OF wm ac(2) ms] and w = word_matcher.matched_words [OF wm ac(2) ms]
  have e: "ms = []" if "t = []" using that ms by (simp add: search_def)
  define r where "r = \<lparr>rs_result = (if contains_word ?ws ''ban'' t then Block
      else if contains_word ?ws ''review'' t then Review else Pass),
    rs_reason = (if contains_word ?ws ''ban'' t then ''contains banned word''
      else if contains_word ?ws ''review'' t then ''needs human review'' else []), rs_matched = map mt_word ms\<rparr>"
  have "checkText s' t = Some r"
  proof (cases "ms = []")
    case True
    then show ?thesis using v [of "''ban''"] v [of "''review''"] ac(1) ms by (simp add: checkText_def r_def Let_def)
  next
    case False
    then show ?thesis using e ac(1) ms unfolding r_def v [symmetric] by (auto simp: checkText_def Let_def)
  qed
  then show ?thesis using w by (intro exI [of _ r]) (simp add: r_def)
qed

definition demo_list :: "wl_row list" where
  "demo_list = [\<lparr>wl_word = Some ''bad'', wl_category = Some ''ban'', wl_enabled = True, wl_updated = Some 5\<rparr>,
     \<lparr>wl_word = Some ''meh'', wl_category = Some ''review'', wl_enabled = True, wl_updated = Some 9\<rparr>]"

theorem checkText_verdict_witness:
  "\<exists>s' r. reload (\<lambda>xs. xs) True (\<lambda>_. True) demo_list new_moderation = Some s' \<and>
    checkText s' ''a bad day'' = Some r \<and> rs_result r = Block"
proof -
  obtain s' where s': "reload (\<lambda>xs. xs) True (\<lambda>_. True) demo_list new_moderation = Some s'"
    using reload_compiles [OF forward.once, of "\<lambda>_. True" demo_list new_moderation] by auto
  have "''a bad day'' = ''a '' @ ''bad'' @ '' day''" by simp
  moreover have "(''bad'', ''ban'') \<in> set (map entry (usable_rows demo_list))"
    by (simp add: demo_list_def usable_rows_def entry_def)
  ultimately have "contains_word (map entry (usable_rows demo_list)) ''ban'' ''a bad day''"
    unfolding contains_word_def by blast
  then show ?thesis using checkText_verdict [OF forward.once _ _ s', of "''a bad day''"] s' by auto
qed

lemma foldl_newest:
  assumes "\<forall>r \<in> set rs. f r \<le> (m :: int)" "v \<le> m" "v = m \<or> (\<exists>n \<in> set rs. f n = m)"
  shows "foldl (\<lambda>v r. if f r > v then f r else v) v rs = m"
  using assms by (induction rs arbitrary: v) auto

lemma foldl_max_newest:
  assumes "\<forall>x \<in> set xs. x \<le> (m :: int)" "v \<le> m" "v = m \<or> m \<in> set xs"
  shows "foldl max v xs = m"
  using assms by (induction xs arbitrary: v) (auto simp: max_def)

lemma queryMax_newest:
  assumes "ok Acquire" "ok (Query 1)" "n \<in> set rows" "wl_enabled n" "0 < wl_version n" "\<forall>r \<in> set rows. wl_enabled r \<longrightarrow> wl_version r \<le> wl_version n"
  shows "queryMaxUpdatedAt True ok rows = wl_version n"
proof -
  let ?vs = "map wl_version (filter (\<lambda>r. wl_updated r \<noteq> None) (filter wl_enabled rows))"
  have "wl_updated n \<noteq> None" using assms(5) by (cases "wl_updated n") (auto simp: wl_version_def)
  then have n: "wl_version n \<in> set ?vs" using assms(3,4) by auto
  then obtain v vs where vs: "?vs = v # vs" by (metis list.exhaust list.set_cases)
  have "\<forall>x \<in> set (v # vs). x \<le> wl_version n" using assms(6) unfolding vs [symmetric] by auto
  then have "foldl max v vs = wl_version n" using n unfolding vs by (intro foldl_max_newest) auto
  then show ?thesis using assms(1,2) vs by (simp add: queryMaxUpdatedAt_def)
qed

text \<open>
  The reload trigger misses a disabled word: it compares the newest change among the enabled
  rows only, so that disabling a row that is not the newest one, at whatever time, leaves the
  automaton of the old list in use, with the disabled word in it.
\<close>

theorem disabled_word_stays:
  assumes "visits_once ord" "ok Acquire" "ok (Query 1)" "okq Acquire" "okq (Query 1)"
    "reload ord True ok (pre @ row # post) s0 = Some s"
    "n \<in> set (usable_rows (pre @ post))" "0 < wl_version n"
    "\<forall>r \<in> set (pre @ row # post). wl_version r \<le> wl_version n" "row \<in> set (usable_rows [row])"
  shows "reload_turn ord True okq okr (pre @ row\<lparr>wl_enabled := False, wl_updated := Some now\<rparr> # post) s = Some s \<and>
    (\<exists>ac ws. current s = Some ac \<and> compile ord ws = Some ac \<and> entry row \<in> set ws)"
proof -
  obtain ac where ac: "current s = Some ac" "compile ord (map entry (usable_rows (pre @ row # post))) = Some ac"
    using reload_compiles [OF assms(1-3), of "pre @ row # post" s0] assms(6) by auto
  have "lastVersion s = foldl (\<lambda>v r. if wl_version r > v then wl_version r else v) 0 (usable_rows (pre @ row # post))"
    using assms(2,3,6) by (auto simp: reload_def Let_def split: option.splits)
  also have "\<dots> = wl_version n" using assms(7-9) by (intro foldl_newest) (auto simp: usable_rows_def)
  finally have v: "lastVersion s = wl_version n" .
  have "queryMaxUpdatedAt True okq (pre @ row\<lparr>wl_enabled := False, wl_updated := Some now\<rparr> # post) = wl_version n"
    using assms(4,5,7-9) by (intro queryMax_newest) (auto simp: usable_rows_def)
  moreover have "entry row \<in> set (map entry (usable_rows (pre @ row # post)))"
    using assms(10) by (auto simp: usable_rows_def split: if_splits)
  ultimately show ?thesis using v ac by (auto simp: reload_turn_def)
qed

theorem disabled_word_stays_witness:
  "\<exists>s. reload (\<lambda>xs. xs) True (\<lambda>_. True) ([] @ hd demo_list # tl demo_list) new_moderation = Some s \<and>
    reload_turn (\<lambda>xs. xs) True (\<lambda>_. True) (\<lambda>_. True)
      ([] @ (hd demo_list)\<lparr>wl_enabled := False, wl_updated := Some 77\<rparr> # tl demo_list) s = Some s"
proof -
  obtain s where s: "reload (\<lambda>xs. xs) True (\<lambda>_. True) ([] @ hd demo_list # tl demo_list) new_moderation = Some s"
    using reload_compiles [OF forward.once, of "\<lambda>_. True"] by blast
  have "reload_turn (\<lambda>xs. xs) True (\<lambda>_. True) (\<lambda>_. True)
      ([] @ (hd demo_list)\<lparr>wl_enabled := False, wl_updated := Some 77\<rparr> # tl demo_list) s = Some s"
    using disabled_word_stays [OF forward.once, of "\<lambda>_. True" "\<lambda>_. True" "[]" "hd demo_list" "tl demo_list"
        new_moderation s "demo_list ! 1" "\<lambda>_. True" 77] s
    by (simp add: demo_list_def usable_rows_def wl_version_def)
  with s show ?thesis by blast
qed

end
