(* ===== verification/Devices.thy ===== *)
theory Devices
  imports Database Redis
begin

text \<open>
  \<^verbatim>\<open>server/DeviceService.h\<close> (the registered devices of a user with their push tokens),
  \<^verbatim>\<open>server/PushService.h\<close> (the queue of notifications for users who are offline) and
  \<^verbatim>\<open>server/AuditService.h\<close> (the trail of sensitive actions). The tables of these services are
  kept beside the main schema.
\<close>

section \<open>Audit trail\<close>

record audit_row =
  au_user :: uid
  au_action :: string
  au_target :: string
  au_ip :: string
  au_detail :: string

definition audit :: "outcome \<Rightarrow> uid \<Rightarrow> string \<Rightarrow> string \<Rightarrow> string \<Rightarrow> string \<Rightarrow> audit_row list \<Rightarrow> audit_row list" where
  "audit ok userId action target ip detail rows =
     (if \<not> ok Acquire then rows
      else if \<not> ok (Prepare 1) then rows
      else if \<not> ok (Exec 1) then rows
      else rows @ [\<lparr>au_user = (if userId > 0 then userId else 0), au_action = action, au_target = target,
                    au_ip = ip, au_detail = detail\<rparr>])"

section \<open>Devices\<close>

record device_row =
  dv_id :: int
  dv_uid :: uid
  dv_device :: string
  dv_type :: string
  dv_os :: string
  dv_app :: string
  dv_apns :: "string option"
  dv_fcm :: "string option"
  dv_created :: int
  dv_active :: int

definition is_device :: "uid \<Rightarrow> string \<Rightarrow> device_row \<Rightarrow> bool" where
  "is_device u dev r \<longleftrightarrow> dv_uid r = u \<and> dv_device r = dev"

text \<open>\<^verbatim>\<open>INSERT ... ON DUPLICATE KEY UPDATE\<close> on the unique key of user and device.\<close>

definition upsert_device :: "int \<Rightarrow> device_row \<Rightarrow> device_row list \<Rightarrow> device_row list" where
  "upsert_device nowSec row t =
     (if list_ex (is_device (dv_uid row) (dv_device row)) t
      then map (\<lambda>r. if is_device (dv_uid row) (dv_device row) r
                    then r\<lparr>dv_type := dv_type row, dv_os := dv_os row, dv_app := dv_app row, dv_apns := dv_apns row,
                           dv_fcm := dv_fcm row, dv_active := nowSec\<rparr> else r) t
      else t @ [row])"

definition registerDevice :: "outcome \<Rightarrow> int \<Rightarrow> int \<Rightarrow> uid \<Rightarrow> string \<Rightarrow> string \<Rightarrow> string \<Rightarrow> string \<Rightarrow> string \<Rightarrow> string
    \<Rightarrow> device_row list \<Rightarrow> bool \<times> device_row list" where
  "registerDevice ok newId nowSec u deviceId deviceType osVersion appVersion apnsToken fcmToken t =
     (if u \<le> 0 \<or> deviceId = [] \<or> length deviceId > 64 then (False, t)
      else if \<not> ok Acquire then (False, t)
      else if \<not> ok (Prepare 1) then (False, t)
      else if \<not> ok (Exec 1) then (False, t)
      else (True, upsert_device nowSec
             \<lparr>dv_id = newId, dv_uid = u, dv_device = deviceId,
              dv_type = (if deviceType = [] then ''web'' else deviceType), dv_os = osVersion, dv_app = appVersion,
              dv_apns = Some apnsToken, dv_fcm = Some fcmToken, dv_created = nowSec, dv_active = nowSec\<rparr> t))"

definition device_json :: "device_row \<Rightarrow> json" where
  "device_json r = obj [(''id'', JInt (dv_id r)), (''device_id'', JStr (dv_device r)), (''device_type'', JStr (dv_type r)),
     (''os_version'', JStr (dv_os r)), (''app_version'', JStr (dv_app r)), (''has_apns'', JBool (dv_apns r \<noteq> None)),
     (''has_fcm'', JBool (dv_fcm r \<noteq> None)), (''created_at'', JInt (1000 * dv_created r)),
     (''last_active'', JInt (1000 * dv_active r))]"

definition listDevices :: "outcome \<Rightarrow> uid \<Rightarrow> device_row list \<Rightarrow> json" where
  "listDevices ok u t =
     (if \<not> ok Acquire \<or> \<not> ok (Query 1) then JArr []
      else JArr (map device_json (sort_key (\<lambda>r. - dv_active r) (filter (\<lambda>r. dv_uid r = u) t))))"

record push_target =
  pt_device :: string
  pt_type :: string
  pt_apns :: string
  pt_fcm :: string

definition ifnull :: "string option \<Rightarrow> string" where
  "ifnull v = (case v of None \<Rightarrow> [] | Some s \<Rightarrow> s)"

definition getPushTargets :: "outcome \<Rightarrow> uid \<Rightarrow> device_row list \<Rightarrow> push_target list" where
  "getPushTargets ok u t =
     (if \<not> ok Acquire \<or> \<not> ok (Query 1) then []
      else map (\<lambda>r. \<lparr>pt_device = dv_device r, pt_type = dv_type r, pt_apns = ifnull (dv_apns r), pt_fcm = ifnull (dv_fcm r)\<rparr>)
             (filter (\<lambda>r. dv_uid r = u \<and> (dv_apns r \<noteq> None \<or> dv_fcm r \<noteq> None)) t))"

definition unregisterDevice :: "outcome \<Rightarrow> uid \<Rightarrow> string \<Rightarrow> device_row list \<Rightarrow> bool \<times> device_row list" where
  "unregisterDevice ok u deviceId t =
     (if \<not> ok Acquire \<or> \<not> ok (Prepare 1) \<or> \<not> ok (Exec 1) then (False, t)
      else (list_ex (is_device u deviceId) t, filter (\<lambda>r. \<not> is_device u deviceId r) t))"

definition invalidatePushToken :: "outcome \<Rightarrow> uid \<Rightarrow> string \<Rightarrow> bool \<Rightarrow> bool \<Rightarrow> device_row list \<Rightarrow> bool \<times> device_row list" where
  "invalidatePushToken ok u deviceId clearApns clearFcm t =
     (if \<not> clearApns \<and> \<not> clearFcm then (True, t)
      else if \<not> ok Acquire \<or> \<not> ok (Prepare 1) \<or> \<not> ok (Exec 1) then (False, t)
      else (True, map (\<lambda>r. if is_device u deviceId r
                           then r\<lparr>dv_apns := (if clearApns then None else dv_apns r),
                                  dv_fcm := (if clearFcm then None else dv_fcm r)\<rparr> else r) t))"

section \<open>Notifications\<close>

definition push_job :: "uid \<Rightarrow> string \<Rightarrow> string \<Rightarrow> json \<Rightarrow> push_target \<Rightarrow> json" where
  "push_job u title body data p = obj [(''uid'', JInt u), (''device_id'', JStr (pt_device p)),
     (''device_type'', JStr (pt_type p)), (''apns_token'', JStr (pt_apns p)), (''fcm_token'', JStr (pt_fcm p)),
     (''title'', JStr title), (''body'', JStr body), (''data'', data)]"

definition notifyOffline :: "jlib \<Rightarrow> 'r redis_ops \<Rightarrow> outcome \<Rightarrow> outcome \<Rightarrow> uid \<Rightarrow> string \<Rightarrow> string \<Rightarrow> json \<Rightarrow> device_row list \<Rightarrow> 'r
    \<Rightarrow> nat \<times> 'r" where
  "notifyOffline L R dok rok u title body data t r =
     (let targets = getPushTargets dok u t
      in if targets = [] then (0, r)
         else if \<not> rok Acquire then (0, r)
         else foldl (\<lambda>(n, r) p. if pt_apns p = [] \<and> pt_fcm p = [] then (n, r)
                                else (n + 1, lpush R ''push_queue'' (lib_dump L (push_job u title body data p)) r))
                (0, r) targets)"

section \<open>Properties\<close>

definition device_keys :: "device_row list \<Rightarrow> (uid \<times> string) list" where
  "device_keys t = map (\<lambda>r. (dv_uid r, dv_device r)) t"

lemma in_device_keys: "(u, d) \<in> set (device_keys t) \<longleftrightarrow> list_ex (is_device u d) t"
  by (auto simp: device_keys_def list_ex_iff is_device_def)

lemma device_keys_map: "(\<And>r. dv_uid (f r) = dv_uid r \<and> dv_device (f r) = dv_device r) \<Longrightarrow> device_keys (map f t) = device_keys t"
  by (simp add: device_keys_def)

lemma distinct_upsert: "distinct (device_keys t) \<Longrightarrow> distinct (device_keys (upsert_device n row t))"
proof (cases "list_ex (is_device (dv_uid row) (dv_device row)) t")
  case True
  moreover assume "distinct (device_keys t)"
  ultimately show ?thesis by (simp add: upsert_device_def device_keys_map)
next
  case False
  moreover assume "distinct (device_keys t)"
  ultimately show ?thesis
    using in_device_keys [of "dv_uid row" "dv_device row" t]
    by (simp add: upsert_device_def) (simp add: device_keys_def)
qed

datatype device_call = Enrol outcome int int uid string string string string string string
  | Withdraw outcome uid string | Invalidate outcome uid string bool bool

primrec device_step :: "device_row list \<Rightarrow> device_call \<Rightarrow> device_row list" where
  "device_step t (Enrol ok i n u d ty os app ap fc) = snd (registerDevice ok i n u d ty os app ap fc t)"
| "device_step t (Withdraw ok u d) = snd (unregisterDevice ok u d t)"
| "device_step t (Invalidate ok u d a f) = snd (invalidatePushToken ok u d a f t)"

definition device_adm :: "device_row \<Rightarrow> bool" where
  "device_adm r \<longleftrightarrow> 0 < dv_uid r \<and> dv_device r \<noteq> [] \<and> length (dv_device r) \<le> 64 \<and> dv_type r \<noteq> []"

definition devices_ok :: "device_row list \<Rightarrow> bool" where
  "devices_ok t \<longleftrightarrow> distinct (device_keys t) \<and> list_all device_adm t"

lemma devices_ok_upsert:
  assumes "devices_ok t" "device_adm row"
  shows "devices_ok (upsert_device n row t)"
proof -
  have "list_all device_adm (upsert_device n row t)"
    using assms by (auto simp: devices_ok_def upsert_device_def list_all_iff device_adm_def)
  with assms(1) distinct_upsert show ?thesis by (simp add: devices_ok_def)
qed

lemma distinct_device_keys_filter: "distinct (device_keys t) \<Longrightarrow> distinct (device_keys (filter P t))"
  by (simp add: device_keys_def distinct_map_filter)

lemma device_step_ok: "devices_ok t \<Longrightarrow> devices_ok (device_step t e)"
proof (cases e)
  case (Enrol ok i n u d ty os app ap fc)
  assume "devices_ok t"
  then show ?thesis
    by (auto simp: Enrol registerDevice_def device_adm_def intro!: devices_ok_upsert)
next
  case (Withdraw ok u d)
  assume "devices_ok t"
  then show ?thesis
    by (auto simp: Withdraw unregisterDevice_def devices_ok_def distinct_device_keys_filter list_all_iff)
next
  case (Invalidate ok u d a f)
  assume "devices_ok t"
  then show ?thesis
    by (auto simp: Invalidate invalidatePushToken_def devices_ok_def device_keys_map list_all_iff device_adm_def)
qed

interpretation dev: inv_machine "[]" device_step devices_ok
  by unfold_locales (simp_all add: device_step_ok, simp add: devices_ok_def device_keys_def)

text \<open>
  Through every history of registrations, removals and token invalidations, with the
  database failing at will, a user has at most one row for a device, and every row is of a
  positive user and a device name of one to sixty-four characters.
\<close>

theorem one_row_per_device: "devices_ok (foldl device_step [] cs)"
  by (rule dev.run_inv)

lemma notify_fold:
  assumes "list_store R"
  shows "items R ''push_queue'' (snd (foldl (\<lambda>(n, r) p. if pt_apns p = [] \<and> pt_fcm p = [] then (n, r)
      else (n + 1, lpush R ''push_queue'' (f p) r)) (n0, r) ps)) =
      rev (map f (filter (\<lambda>p. pt_apns p \<noteq> [] \<or> pt_fcm p \<noteq> []) ps)) @ items R ''push_queue'' r
    \<and> fst (foldl (\<lambda>(n, r) p. if pt_apns p = [] \<and> pt_fcm p = [] then (n, r)
      else (n + 1, lpush R ''push_queue'' (f p) r)) (n0, r) ps) =
      n0 + length (filter (\<lambda>p. pt_apns p \<noteq> [] \<or> pt_fcm p \<noteq> []) ps)"
  by (induction ps arbitrary: n0 r) (auto simp: list_store.items_lpush [OF assms])

text \<open>
  When nothing fails, a notification puts one job for every device of the user that has a
  push token on the queue, in the order of the devices and none for a device without a
  token, and reports how many; the jobs already queued stay where they are.
\<close>

theorem notifyOffline_enqueues:
  assumes "list_store R" "dok Acquire" "dok (Query 1)" "rok Acquire"
  shows "let ps = filter (\<lambda>p. pt_apns p \<noteq> [] \<or> pt_fcm p \<noteq> []) (getPushTargets dok u t)
    in fst (notifyOffline L R dok rok u title body data t r) = length ps
     \<and> items R ''push_queue'' (snd (notifyOffline L R dok rok u title body data t r)) =
         rev (map (\<lambda>p. lib_dump L (push_job u title body data p)) ps) @ items R ''push_queue'' r"
  using notify_fold [OF assms(1), of "\<lambda>p. lib_dump L (push_job u title body data p)" 0 r "getPushTargets dok u t"] assms(4)
  by (simp add: notifyOffline_def Let_def)

end
