(* ===== verification/HttpApi.thy ===== *)
theory HttpApi
  imports Users GroupChat Messages Online Devices
begin

text \<open>
  The REST side of \<^verbatim>\<open>server/ChatServer.h\<close> with \<^verbatim>\<open>server/JwtRevocationService.h\<close>: the checks of a
  request (token, blacklist, body) and the handlers behind the routes, each on the whole state
  of the server. Code outside the repository (JSON text, password hashing, MAC, Redis, the
  database's collation and LIKE, the archive and search services) is the environment \<open>env\<close>;
  what the calls of one request do (clock, failing calls, random strings) is its context \<open>reqctx\<close>.
\<close>

section \<open>Requests, responses and state\<close>

record request =
  header :: "string \<Rightarrow> string"
  params :: "string \<rightharpoonup> string"
  body :: string

text \<open>
  A response: 401, 400 with its text, 503, or a JSON body with status 200. \<open>Raised\<close> is an exception
  of the JSON library (a member of the wrong type) that the handler leaves to the HTTP server.
\<close>

datatype response = Unauthorized | BadRequest string | Busy json | Answer json | Raised

record 'r env =
  lib :: jlib
  hmac :: mac
  secret :: string
  coll :: collation
  pw :: pwlib
  like :: "string \<Rightarrow> string \<Rightarrow> bool"
  fmt :: "ms \<Rightarrow> string"
  createdAt :: "uid \<Rightarrow> string"
  redis_api :: "'r redis_ops"
  saga :: "saga_defs option"
  archive :: "(string \<Rightarrow> string) option"
  es :: "(string \<Rightarrow> string) option"
  is_open :: "wsid \<Rightarrow> bool"

record reqctx =
  now :: ms
  dbok :: outcome
  redisok :: outcome
  blackok :: outcome
  auditok :: outcome
  sagaStart :: outcome
  sagaExec :: "phase \<Rightarrow> outcome"
  sagaRead :: outcome
  unreadok :: "uid \<Rightarrow> outcome"
  fresh :: string
  freshId :: int
  has_conn :: bool
  submitted :: bool

record 'r server =
  sdb :: db
  store :: 'r
  om :: online
  tries :: attempts
  trail :: "audit_row list"
  devs :: "device_row list"

type_synonym 'r result = "(response \<times> frame list) \<times> 'r server"
type_synonym 'r handler = "'r env \<Rightarrow> reqctx \<Rightarrow> request \<Rightarrow> 'r server \<Rightarrow> 'r result"

section \<open>Revocation\<close>

definition blacklist_key :: "string \<Rightarrow> string" where
  "blacklist_key jti = ''jwt_blacklist:'' @ jti"

definition revoke :: "'r redis_ops \<Rightarrow> outcome \<Rightarrow> ms \<Rightarrow> string \<Rightarrow> int \<Rightarrow> 'r \<Rightarrow> bool \<times> 'r" where
  "revoke R ok nowMs jti expireSeconds r =
     (if jti = [] \<or> expireSeconds \<le> 0 then (False, r)
      else if \<not> ok Acquire then (False, r)
      else if \<not> ok (Exec 1) then (False, r)
      else (True, setex R nowMs (blacklist_key jti) ''1'' (wrap32 expireSeconds) r))"

definition isRevoked :: "'r redis_ops \<Rightarrow> outcome \<Rightarrow> ms \<Rightarrow> string \<Rightarrow> 'r \<Rightarrow> bool" where
  "isRevoked R ok nowMs jti r =
     (if jti = [] then False
      else if \<not> ok Acquire then False
      else exists R nowMs (blacklist_key jti) r)"

section \<open>Checks\<close>

definition nowSec :: "reqctx \<Rightarrow> int" where
  "nowSec x = now x div 1000"

definition authFromRequest :: "'r env \<Rightarrow> reqctx \<Rightarrow> request \<Rightarrow> 'r server \<Rightarrow> claims option" where
  "authFromRequest E x req s =
     (let auth = header req ''authorization''
      in if length auth \<le> 7 \<or> take 7 auth \<noteq> ''Bearer '' then None
         else
           (case verifyAndParse (lib E) (hmac E) (secret E) (nowSec x) (drop 7 auth) of
              None \<Rightarrow> None
            | Some c \<Rightarrow>
              if c_jti c \<noteq> [] \<and> isRevoked (redis_api E) (redisok x) (now x) (c_jti c) (store s) then None
              else Some c))"

definition requireAuth :: "'r env \<Rightarrow> reqctx \<Rightarrow> request \<Rightarrow> 'r server \<Rightarrow> (claims \<Rightarrow> 'r result) \<Rightarrow> 'r result" where
  "requireAuth E x req s cont =
     (case authFromRequest E x req s of
        None \<Rightarrow> ((Unauthorized, []), s)
      | Some c \<Rightarrow> if c_userId c < 0 then ((Unauthorized, []), s) else cont c)"

definition parseJsonBody :: "'r env \<Rightarrow> request \<Rightarrow> 'r server \<Rightarrow> (json \<Rightarrow> 'r result) \<Rightarrow> 'r result" where
  "parseJsonBody E req s cont =
     (case lib_parse (lib E) (body req) of
        None \<Rightarrow> ((BadRequest ''invalid JSON'', []), s)
      | Some j \<Rightarrow> cont j)"

definition getClientIp :: "request \<Rightarrow> string" where
  "getClientIp req =
     (let ip = header req ''x-real-ip''
      in if ip \<noteq> [] then ip
         else let fwd = header req ''x-forwarded-for''
              in if fwd \<noteq> [] then (case find_char (CHR '','') fwd of Some n \<Rightarrow> take n fwd | None \<Rightarrow> fwd)
                 else ''unknown'')"

text \<open>A member read from the body: a wrong type raises.\<close>

definition field :: "'a option \<Rightarrow> 'r server \<Rightarrow> ('a \<Rightarrow> 'r result) \<Rightarrow> 'r result" where
  "field v s cont = (case v of None \<Rightarrow> ((Raised, []), s) | Some a \<Rightarrow> cont a)"

definition getParam :: "request \<Rightarrow> string \<Rightarrow> string \<Rightarrow> string" where
  "getParam req k d = (case params req k of None \<Rightarrow> d | Some v \<Rightarrow> v)"

text \<open>\<^verbatim>\<open>try { v = std::stoll(req.getParam(k, "0")); } catch (...) {}\<close> on a variable that is 0.\<close>

definition intParam :: "request \<Rightarrow> string \<Rightarrow> int" where
  "intParam req k = (case stoll (getParam req k ''0'') of Some v \<Rightarrow> v | None \<Rightarrow> 0)"

definition reply_json :: "reply \<Rightarrow> json" where
  "reply_json r = (case r of Inl m \<Rightarrow> obj [(''success'', JBool False), (''message'', JStr m)]
     | Inr fs \<Rightarrow> obj ((''success'', JBool True) # fs))"

definition is_success :: "reply \<Rightarrow> bool" where
  "is_success r = (case r of Inl m \<Rightarrow> False | Inr fs \<Rightarrow> True)"

definition answer :: "json \<Rightarrow> 'r server \<Rightarrow> 'r result" where
  "answer j s = ((Answer j, []), s)"

text \<open>The answer of a service operation on the database.\<close>

definition service :: "reply \<times> db \<Rightarrow> 'r server \<Rightarrow> 'r result" where
  "service rd s = answer (reply_json (fst rd)) (s\<lparr>sdb := snd rd\<rparr>)"

definition log_audit :: "reqctx \<Rightarrow> uid \<Rightarrow> string \<Rightarrow> string \<Rightarrow> string \<Rightarrow> string \<Rightarrow> 'r server \<Rightarrow> 'r server" where
  "log_audit x u action target ip detail s = s\<lparr>trail := audit (auditok x) u action target ip detail (trail s)\<rparr>"

definition revoke_claims :: "'r env \<Rightarrow> reqctx \<Rightarrow> claims \<Rightarrow> 'r server \<Rightarrow> bool \<times> 'r server" where
  "revoke_claims E x c s =
     (if c_jti c = [] then (False, s)
      else let (b, r) = revoke (redis_api E) (blackok x) (now x) (c_jti c) (remainingSeconds (nowSec x) c) (store s)
           in (b, s\<lparr>store := r\<rparr>))"

section \<open>Accounts\<close>

definition reply_int :: "reply \<Rightarrow> string \<Rightarrow> int" where
  "reply_int r k = (case value_int (reply_json r) k 0 of Some v \<Rightarrow> v | None \<Rightarrow> 0)"

definition reply_message :: "reply \<Rightarrow> string" where
  "reply_message r = (case r of Inl m \<Rightarrow> m | Inr fs \<Rightarrow> [])"

definition handleRegister :: "'r handler" where
  "handleRegister E x req s = parseJsonBody E req s (\<lambda>j.
     field (value_str j ''username'' []) s (\<lambda>username.
     field (value_str j ''password'' []) s (\<lambda>password.
     field (value_str j ''nickname'' []) s (\<lambda>nickname.
       let (result, d) = registerUser (coll E) (pw E) (fresh x, username, password, nickname) (dbok x) (sdb s);
           s1 = s\<lparr>sdb := d\<rparr>; ip = getClientIp req
       in answer (reply_json result)
            (if is_success result then log_audit x (reply_int result ''userId'') ''register'' username ip [] s1
             else log_audit x 0 ''register_failed'' username ip (reply_message result) s1)))))"

definition handleLogin :: "'r handler" where
  "handleLogin E x req s = parseJsonBody E req s (\<lambda>j.
     field (value_str j ''username'' []) s (\<lambda>username.
     field (value_str j ''password'' []) s (\<lambda>password.
       let (result, st) = login (coll E) (pw E) (lib E) (hmac E) (secret E) (now x) (fresh x) username password
                            (dbok x) (sdb s) (tries s);
           s1 = s\<lparr>tries := st\<rparr>; ip = getClientIp req
       in if \<not> has_conn x then answer (reply_json result) s1
          else if \<not> submitted x
          then ((Busy (obj [(''success'', JBool False), (''message'', JStr ''server busy, retry later'')]), []), s)
          else answer (reply_json result)
                 (if is_success result then log_audit x (reply_int result ''userId'') ''login'' username ip [] s1
                  else log_audit x 0 ''login_failed'' username ip (reply_message result) s1))))"

definition handleGetUserProfile :: "'r handler" where
  "handleGetUserProfile E x req s = requireAuth E x req s (\<lambda>c.
     answer (reply_json (getProfile (createdAt E) (dbok x) (c_userId c) (sdb s))) s)"

definition handleUpdateProfile :: "'r handler" where
  "handleUpdateProfile E x req s = requireAuth E x req s (\<lambda>c. parseJsonBody E req s (\<lambda>j.
     field (value_str j ''nickname'' []) s (\<lambda>nickname. field (value_str j ''avatar'' []) s (\<lambda>avatar.
       service (updateProfile (c_userId c, nickname, avatar) (dbok x) (sdb s)) s))))"

definition handleSearchUsers :: "'r handler" where
  "handleSearchUsers E x req s = requireAuth E x req s (\<lambda>c.
     answer (reply_json (searchUsers (like E) (dbok x) (getParam req ''keyword'' []) (sdb s))) s)"

definition handleGetUserInfo :: "'r handler" where
  "handleGetUserInfo E x req s = requireAuth E x req s (\<lambda>c.
     let targetId = intParam req ''userId''
     in if targetId \<le> 0 then ((BadRequest ''invalid userId'', []), s)
        else answer (reply_json (getPublicProfile (dbok x) targetId (sdb s))) s)"

definition handleChangePassword :: "'r handler" where
  "handleChangePassword E x req s = requireAuth E x req s (\<lambda>c. parseJsonBody E req s (\<lambda>j.
     field (value_str j ''oldPassword'' []) s (\<lambda>old. field (value_str j ''newPassword'' []) s (\<lambda>new.
       let (result, d) = changePassword (pw E) (fresh x, c_userId c, old, new) (dbok x) (sdb s);
           s1 = s\<lparr>sdb := d\<rparr>
       in answer (reply_json result)
            (if is_success result
             then log_audit x (c_userId c) ''change_password'' [] (getClientIp req) [] (snd (revoke_claims E x c s1))
             else s1)))))"

definition handleDeleteAccount :: "'r handler" where
  "handleDeleteAccount E x req s = requireAuth E x req s (\<lambda>c. parseJsonBody E req s (\<lambda>j.
     field (value_str j ''password'' []) s (\<lambda>password.
       let (result, d) = deleteAccount (pw E) (c_userId c, password) (dbok x) (sdb s);
           s1 = s\<lparr>sdb := d\<rparr>
       in answer (reply_json result)
            (if is_success result
             then log_audit x (c_userId c) ''delete_account'' [] (getClientIp req) [] (snd (revoke_claims E x c s1))
             else s1))))"

definition handleLogout :: "'r handler" where
  "handleLogout E x req s = requireAuth E x req s (\<lambda>c.
     let (revoked, s1) = revoke_claims E x c s
     in answer (obj [(''success'', JBool True), (''revoked'', JBool revoked)])
          (log_audit x (c_userId c) ''logout'' [] (getClientIp req) [] s1))"

section \<open>Friends\<close>

definition elements :: "json \<Rightarrow> json list" where
  "elements j = (case j of JArr xs \<Rightarrow> xs | JObj m \<Rightarrow> map snd m | JNull \<Rightarrow> [] | v \<Rightarrow> [v])"

definition handleGetFriends :: "'r handler" where
  "handleGetFriends E x req s = requireAuth E x req s (\<lambda>c.
     answer (getFriends (dbok x) (c_userId c) (sdb s)) s)"

definition handleAddFriend :: "'r handler" where
  "handleAddFriend E x req s = requireAuth E x req s (\<lambda>c. parseJsonBody E req s (\<lambda>j.
     field (value_int j ''friendId'' 0) s (\<lambda>friendId.
       service (addFriend (c_userId c, friendId) (dbok x) (sdb s)) s)))"

definition handleDeleteFriend :: "'r handler" where
  "handleDeleteFriend E x req s = requireAuth E x req s (\<lambda>c. parseJsonBody E req s (\<lambda>j.
     field (value_int j ''friendId'' 0) s (\<lambda>friendId.
       service (deleteFriend (c_userId c, friendId) (dbok x) (sdb s)) s)))"

definition handleFriendRequest :: "'r handler" where
  "handleFriendRequest E x req s = requireAuth E x req s (\<lambda>c. parseJsonBody E req s (\<lambda>j.
     field (value_int j ''toUserId'' 0) s (\<lambda>toUserId.
       let (result, d) = sendRequest (now x, c_userId c, toUserId) (dbok x) (sdb s)
       in ((Answer (reply_json result),
            case getSession (is_open E) toUserId (om s) of None \<Rightarrow> []
            | Some w \<Rightarrow> [Text w (lib_dump (lib E) (obj [(''type'', JStr ''friend_request''),
                            (''from'', JStr (to_string (c_userId c)))]))]),
           s\<lparr>sdb := d\<rparr>))))"

definition handleGetFriendRequests :: "'r handler" where
  "handleGetFriendRequests E x req s = requireAuth E x req s (\<lambda>c.
     answer (getRequests (fmt E) (dbok x) (c_userId c) (sdb s)) s)"

definition handleFriendRequestResponse :: "'r handler" where
  "handleFriendRequestResponse E x req s = requireAuth E x req s (\<lambda>c. parseJsonBody E req s (\<lambda>j.
     field (value_int j ''requestId'' 0) s (\<lambda>requestId. field (value_bool j ''accept'' False) s (\<lambda>accept.
       service (handleRequest (c_userId c, requestId, accept) (dbok x) (sdb s)) s))))"

section \<open>Groups\<close>

definition handleGetGroups :: "'r handler" where
  "handleGetGroups E x req s = requireAuth E x req s (\<lambda>c.
     answer (getUserGroups (dbok x) (c_userId c) (sdb s)) s)"

definition handleCreateGroup :: "'r handler" where
  "handleCreateGroup E x req s = requireAuth E x req s (\<lambda>c. parseJsonBody E req s (\<lambda>j.
     field (value_str j ''name'' []) s (\<lambda>name.
       service (createGroup (lib E) (saga E) (sagaStart x) (sagaExec x) (sagaRead x) (freshId x) (c_userId c) name
                 (sdb s)) s)))"

definition handleJoinGroup :: "'r handler" where
  "handleJoinGroup E x req s = requireAuth E x req s (\<lambda>c. parseJsonBody E req s (\<lambda>j.
     field (value_int j ''groupId'' 0) s (\<lambda>groupId.
       service (joinGroup (c_userId c, groupId) (dbok x) (sdb s)) s)))"

definition handleGetGroupMembers :: "'r handler" where
  "handleGetGroupMembers E x req s = requireAuth E x req s (\<lambda>c.
     answer (getMembers (dbok x) (intParam req ''groupId'') (sdb s)) s)"

definition handleLeaveGroup :: "'r handler" where
  "handleLeaveGroup E x req s = requireAuth E x req s (\<lambda>c. parseJsonBody E req s (\<lambda>j.
     field (value_int j ''groupId'' 0) s (\<lambda>groupId.
       service (leaveGroup (c_userId c, groupId) (dbok x) (sdb s)) s)))"

definition handleDeleteGroup :: "'r handler" where
  "handleDeleteGroup E x req s = requireAuth E x req s (\<lambda>c. parseJsonBody E req s (\<lambda>j.
     field (value_int j ''groupId'' 0) s (\<lambda>groupId.
       service (deleteGroup (c_userId c, groupId) (dbok x) (sdb s)) s)))"

definition handleSetGroupAnnouncement :: "'r handler" where
  "handleSetGroupAnnouncement E x req s = requireAuth E x req s (\<lambda>c. parseJsonBody E req s (\<lambda>j.
     field (value_int j ''groupId'' 0) s (\<lambda>groupId. field (value_str j ''announcement'' []) s (\<lambda>announcement.
       service (setAnnouncement (c_userId c, groupId, announcement) (dbok x) (sdb s)) s))))"

definition handleGetGroupAnnouncement :: "'r handler" where
  "handleGetGroupAnnouncement E x req s = requireAuth E x req s (\<lambda>c.
     answer (obj [(''success'', JBool True),
       (''announcement'', JStr (getAnnouncement (dbok x) (intParam req ''groupId'') (sdb s)))]) s)"

definition handleKickGroupMember :: "'r handler" where
  "handleKickGroupMember E x req s = requireAuth E x req s (\<lambda>c. parseJsonBody E req s (\<lambda>j.
     field (value_int j ''groupId'' 0) s (\<lambda>groupId. field (value_int j ''userId'' 0) s (\<lambda>target.
       let (result, d) = kickMember (c_userId c, groupId, target) (dbok x) (sdb s); s1 = s\<lparr>sdb := d\<rparr>
       in answer (reply_json result)
            (if is_success result
             then log_audit x (c_userId c) ''kick_member'' (to_string target) (getClientIp req)
                    (''groupId='' @ to_string groupId) s1
             else s1)))))"

section \<open>Messages\<close>

text \<open>
  The archive service answers with a page of older messages; each is marked and appended. A
  message that is no object, or a count that is no number, raises.
\<close>

definition mark_archived :: "json \<Rightarrow> json option" where
  "mark_archived m = (case m of JObj kvs \<Rightarrow> Some (jset m ''archived'' (JBool True))
     | JNull \<Rightarrow> Some (obj [(''archived'', JBool True)]) | _ \<Rightarrow> None)"

definition archive_url :: "uid \<Rightarrow> uid \<Rightarrow> int \<Rightarrow> ms \<Rightarrow> int \<Rightarrow> string" where
  "archive_url u peerId groupId archBefore needLimit =
     (if groupId > 0 then ''/query?kind=group&group_id='' @ to_string groupId
      else ''/query?kind=private&user_id='' @ to_string u @ ''&peer_id='' @ to_string peerId)
     @ ''&before_ts='' @ to_string archBefore @ ''&limit='' @ to_string needLimit"

definition merge_archive :: "jlib \<Rightarrow> string \<Rightarrow> json list \<Rightarrow> json list option" where
  "merge_archive L archResp result =
     (if archResp = [] then Some result
      else case lib_parse L archResp of None \<Rightarrow> Some result
      | Some arch \<Rightarrow>
        (case value_bool arch ''success'' False of
           None \<Rightarrow> None
         | Some False \<Rightarrow> Some result
         | Some True \<Rightarrow>
           (let ms = map mark_archived (case jlookup arch ''messages'' of None \<Rightarrow> [] | Some v \<Rightarrow> elements v)
            in if None \<in> set ms \<or> value_int32 arch ''count'' 0 = None then None
               else Some (result @ map the ms))))"

definition handleGetMessageHistory :: "'r handler" where
  "handleGetMessageHistory E x req s = requireAuth E x req s (\<lambda>c.
     let peerId = intParam req ''peerId''; groupId = intParam req ''groupId''; before = intParam req ''before'';
         hot = elements (if groupId > 0 then getGroupHistory (dbok x) groupId 50 before (sdb s)
                         else getPrivateHistory (dbok x) (c_userId c) peerId 50 before (sdb s))
     in case archive E of
          None \<Rightarrow> answer (JArr hot) s
        | Some get \<Rightarrow>
          if length hot < 50
          then
            let needLimit = 50 - int (length hot);
                base = (if before > 0 then before else 9999999999999)
            in field (if hot = [] then Some base else value_int (last hot) ''timestamp'' base) s (\<lambda>oldest.
                 let archBefore = (if hot \<noteq> [] \<and> oldest > 0 \<and> oldest < base then oldest else base)
                 in field (merge_archive (lib E) (get (archive_url (c_userId c) peerId groupId archBefore needLimit)) hot) s
                      (\<lambda>all. answer (JArr all) s))
          else answer (JArr hot) s)"

definition es_query :: "uid \<Rightarrow> string \<Rightarrow> json" where
  "es_query u keyword = obj [(''size'', JInt 50),
     (''query'', obj [(''bool'', obj [
        (''must'', JArr [obj [(''match'', obj [(''body'', JStr keyword)])]]),
        (''filter'', JArr [obj [(''bool'', obj [
           (''should'', JArr [obj [(''term'', obj [(''sender_id'', JInt u)])],
                            obj [(''term'', obj [(''recipient_id'', JInt u)])]]),
           (''minimum_should_match'', JInt 1)])]])])]),
     (''sort'', JArr [obj [(''created_at'', obj [(''order'', JStr ''desc'')])]])]"

text \<open>One hit; \<open>Some None\<close> is a hit without a source, which is skipped.\<close>

definition es_hit :: "json \<Rightarrow> json option option" where
  "es_hit hit =
     (case jlookup hit ''_source'' of None \<Rightarrow> Some None
      | Some src \<Rightarrow>
        (case (value_str src ''msg_id'' [], value_int src ''sender_id'' 0, value_str src ''body'' [],
               value_int src ''created_at'' 0, value_str src ''msg_kind'' ''private'') of
           (Some i, Some f, Some b, Some t, Some k) \<Rightarrow>
             Some (Some (obj ([(''msgId'', JStr i), (''from'', JInt f), (''content'', JStr b), (''timestamp'', JInt t),
               (''chatType'', JStr k)]
               @ (case jlookup src ''recipient_id'' of Some v \<Rightarrow> [(''to'', v)] | None \<Rightarrow> [])
               @ (case jlookup src ''group_id'' of Some v \<Rightarrow> [(''groupId'', v)] | None \<Rightarrow> []))))
         | _ \<Rightarrow> None))"

text \<open>
  \<^verbatim>\<open>parsed["hits"]["hits"]\<close>: an answer without \<^verbatim>\<open>hits\<close> falls back to the database, one whose \<^verbatim>\<open>hits\<close>
  is no object raises.
\<close>

definition es_messages :: "jlib \<Rightarrow> string \<Rightarrow> json list option option" where
  "es_messages L resp =
     (if resp = [] then Some None
      else case lib_parse L resp of None \<Rightarrow> Some None
      | Some parsed \<Rightarrow>
        (case jlookup parsed ''hits'' of None \<Rightarrow> Some None
         | Some (JObj m) \<Rightarrow>
             (let hs = map es_hit (case map_of m ''hits'' of None \<Rightarrow> [] | Some v \<Rightarrow> elements v)
              in if None \<in> set hs then None else Some (Some (List.map_filter the hs)))
         | Some JNull \<Rightarrow> Some (Some [])
         | Some _ \<Rightarrow> None))"

definition handleSearchMessages :: "'r handler" where
  "handleSearchMessages E x req s = requireAuth E x req s (\<lambda>c.
     let keyword = getParam req ''keyword'' [];
         mysql = jset (reply_json (searchMessages (like E) (dbok x) (c_userId c) keyword 50 (sdb s))) ''source'' (JStr ''mysql'')
     in if length keyword < 2
        then answer (obj [(''success'', JBool False), (''message'', JStr ''keyword too short'')]) s
        else case es E of
               None \<Rightarrow> answer mysql s
             | Some search_es \<Rightarrow>
               field (es_messages (lib E) (search_es (lib_dump (lib E) (es_query (c_userId c) keyword)))) s (\<lambda>hits.
                 case hits of
                   None \<Rightarrow> answer mysql s
                 | Some ms \<Rightarrow> answer (obj [(''success'', JBool True), (''source'', JStr ''elasticsearch''),
                                          (''messages'', JArr ms)]) s))"

definition read_pos_key :: "string \<Rightarrow> string \<Rightarrow> string" where
  "read_pos_key reader peer = ''read_pos:'' @ reader @ '':'' @ peer"

definition redis_get :: "'r redis_ops \<Rightarrow> ms \<Rightarrow> string \<Rightarrow> 'r \<Rightarrow> string" where
  "redis_get R t k r = (case look R t k r of None \<Rightarrow> [] | Some v \<Rightarrow> v)"

definition handleGetReadStatus :: "'r handler" where
  "handleGetReadStatus E x req s = requireAuth E x req s (\<lambda>c.
     let peerStr = getParam req ''peerId'' ''0'';
         lastRead = (if \<not> blackok x Acquire then []
                     else redis_get (redis_api E) (now x) (read_pos_key peerStr (to_string (c_userId c))) (store s))
     in answer (obj [(''lastReadMsgId'', JStr lastRead)]) s)"

definition keyUnread :: "uid \<Rightarrow> uid \<Rightarrow> string" where
  "keyUnread userId peerId = ''unread:{'' @ to_string userId @ ''}:'' @ to_string peerId"

definition incrementUnread :: "'r redis_ops \<Rightarrow> outcome \<Rightarrow> ms \<Rightarrow> uid \<Rightarrow> uid \<Rightarrow> 'r \<Rightarrow> 'r" where
  "incrementUnread R ok t userId peerId r = (if ok Acquire then incr R t (keyUnread userId peerId) r else r)"

definition clearUnread :: "'r redis_ops \<Rightarrow> outcome \<Rightarrow> uid \<Rightarrow> uid \<Rightarrow> 'r \<Rightarrow> 'r" where
  "clearUnread R ok userId peerId r = (if ok Acquire then del R (keyUnread userId peerId) r else r)"

text \<open>\<open>None\<close>: the stored count is no number and \<^verbatim>\<open>std::stoll\<close> throws.\<close>

definition getUnread :: "'r redis_ops \<Rightarrow> outcome \<Rightarrow> ms \<Rightarrow> uid \<Rightarrow> uid \<Rightarrow> 'r \<Rightarrow> int option" where
  "getUnread R ok t userId peerId r =
     (if \<not> ok Acquire then Some 0
      else let v = redis_get R t (keyUnread userId peerId) r in if v = [] then Some 0 else stoll v)"

definition unread_counts :: "'r redis_ops \<Rightarrow> (uid \<Rightarrow> outcome) \<Rightarrow> ms \<Rightarrow> uid \<Rightarrow> json \<Rightarrow> 'r \<Rightarrow> json option" where
  "unread_counts R oks t userId friends_json r =
     foldl (\<lambda>acc f. case acc of None \<Rightarrow> None | Some m \<Rightarrow>
         (case value_int f ''userId'' 0 of None \<Rightarrow> None | Some fid \<Rightarrow>
            (case getUnread R (oks fid) t userId fid r of None \<Rightarrow> None
             | Some n \<Rightarrow> Some (if n > 0 then jset m (to_string fid) (JInt n) else m))))
       (Some (JObj [])) (elements friends_json)"

definition handleGetUnread :: "'r handler" where
  "handleGetUnread E x req s = requireAuth E x req s (\<lambda>c.
     field (unread_counts (redis_api E) (unreadok x) (now x) (c_userId c) (getFriends (dbok x) (c_userId c) (sdb s)) (store s)) s
       (\<lambda>m. answer m s))"

section \<open>Devices\<close>

definition handleDeviceRegister :: "'r handler" where
  "handleDeviceRegister E x req s = requireAuth E x req s (\<lambda>c. parseJsonBody E req s (\<lambda>j.
     field (value_str j ''device_id'' []) s (\<lambda>deviceId.
       if deviceId = [] then ((BadRequest ''missing device_id'', []), s)
       else
         field (value_str j ''device_type'' ''web'') s (\<lambda>ty. field (value_str j ''os_version'' []) s (\<lambda>os.
         field (value_str j ''app_version'' []) s (\<lambda>app. field (value_str j ''apns_token'' []) s (\<lambda>ap.
         field (value_str j ''fcm_token'' []) s (\<lambda>fc.
           let (b, t) = registerDevice (dbok x) (freshId x) (nowSec x) (c_userId c) deviceId ty os app ap fc (devs s)
           in answer (obj [(''success'', JBool b)]) (s\<lparr>devs := t\<rparr>)))))))))"

definition handleDeviceList :: "'r handler" where
  "handleDeviceList E x req s = requireAuth E x req s (\<lambda>c.
     answer (obj [(''success'', JBool True), (''devices'', listDevices (dbok x) (c_userId c) (devs s))]) s)"

definition handleDeviceRemove :: "'r handler" where
  "handleDeviceRemove E x req s = requireAuth E x req s (\<lambda>c. parseJsonBody E req s (\<lambda>j.
     field (value_str j ''device_id'' []) s (\<lambda>deviceId.
       if deviceId = [] then ((BadRequest ''missing device_id'', []), s)
       else let (b, t) = unregisterDevice (dbok x) (c_userId c) deviceId (devs s)
            in answer (obj [(''success'', JBool b)]) (s\<lparr>devs := t\<rparr>))))"

definition handleDeviceKick :: "'r handler" where
  "handleDeviceKick E x req s = requireAuth E x req s (\<lambda>c. parseJsonBody E req s (\<lambda>j.
     field (value_str j ''device_id'' []) s (\<lambda>deviceId.
       if deviceId = [] then ((BadRequest ''missing device_id'', []), s)
       else
         (case kickDevice (lib E) (redis_api E) (blackok x) (c_userId c) deviceId (om s, store s) of
            ((kicked, out), o', r') \<Rightarrow>
              ((Answer (obj [(''success'', JBool kicked)]), out), s\<lparr>om := o', store := r'\<rparr>)))))"

section \<open>Routes\<close>

datatype route = Register | Login | Logout | Profile | UpdateProfile | SearchUsers | UserInfo | ChangePassword
  | DeleteAccount | FriendList | AddFriend | DeleteFriend | RequestFriend | FriendRequests | AnswerRequest
  | GroupList | CreateGroup | JoinGroup | GroupMembers | LeaveGroup | DeleteGroup | SetAnnouncement
  | GetAnnouncement | KickMember | History | SearchMessages | ReadStatus | Unread
  | DeviceRegister | DeviceList | DeviceRemove | DeviceKick

primrec route_handler :: "route \<Rightarrow> 'r handler" where
  "route_handler Register = handleRegister"
| "route_handler Login = handleLogin"
| "route_handler Logout = handleLogout"
| "route_handler Profile = handleGetUserProfile"
| "route_handler UpdateProfile = handleUpdateProfile"
| "route_handler SearchUsers = handleSearchUsers"
| "route_handler UserInfo = handleGetUserInfo"
| "route_handler ChangePassword = handleChangePassword"
| "route_handler DeleteAccount = handleDeleteAccount"
| "route_handler FriendList = handleGetFriends"
| "route_handler AddFriend = handleAddFriend"
| "route_handler DeleteFriend = handleDeleteFriend"
| "route_handler RequestFriend = handleFriendRequest"
| "route_handler FriendRequests = handleGetFriendRequests"
| "route_handler AnswerRequest = handleFriendRequestResponse"
| "route_handler GroupList = handleGetGroups"
| "route_handler CreateGroup = handleCreateGroup"
| "route_handler JoinGroup = handleJoinGroup"
| "route_handler GroupMembers = handleGetGroupMembers"
| "route_handler LeaveGroup = handleLeaveGroup"
| "route_handler DeleteGroup = handleDeleteGroup"
| "route_handler SetAnnouncement = handleSetGroupAnnouncement"
| "route_handler GetAnnouncement = handleGetGroupAnnouncement"
| "route_handler KickMember = handleKickGroupMember"
| "route_handler History = handleGetMessageHistory"
| "route_handler SearchMessages = handleSearchMessages"
| "route_handler ReadStatus = handleGetReadStatus"
| "route_handler Unread = handleGetUnread"
| "route_handler DeviceRegister = handleDeviceRegister"
| "route_handler DeviceList = handleDeviceList"
| "route_handler DeviceRemove = handleDeviceRemove"
| "route_handler DeviceKick = handleDeviceKick"

section \<open>Authentication\<close>

named_theorems handlers \<open>definitions of the HTTP handlers\<close>

lemmas account_handlers [handlers] = handleRegister_def handleLogin_def handleLogout_def handleGetUserProfile_def
  handleUpdateProfile_def handleSearchUsers_def handleGetUserInfo_def handleChangePassword_def handleDeleteAccount_def

lemmas friend_handlers [handlers] = handleGetFriends_def handleAddFriend_def handleDeleteFriend_def handleFriendRequest_def
  handleGetFriendRequests_def handleFriendRequestResponse_def

lemmas group_handlers [handlers] = handleGetGroups_def handleCreateGroup_def handleJoinGroup_def handleGetGroupMembers_def
  handleLeaveGroup_def handleDeleteGroup_def handleSetGroupAnnouncement_def handleGetGroupAnnouncement_def
  handleKickGroupMember_def

lemmas message_handlers [handlers] = handleGetMessageHistory_def handleSearchMessages_def handleGetReadStatus_def
  handleGetUnread_def

lemmas device_handlers [handlers] = handleDeviceRegister_def handleDeviceList_def handleDeviceRemove_def handleDeviceKick_def

lemma requireAuth_None: "authFromRequest E x req s = None \<Longrightarrow> requireAuth E x req s k = ((Unauthorized, []), s)"
  by (simp add: requireAuth_def)

lemma unauthorized_route:
  assumes "authFromRequest E x req s = None" "rt \<noteq> Register" "rt \<noteq> Login"
  shows "route_handler rt E x req s = ((Unauthorized, []), s)"
  using assms by (cases rt) (simp_all add: handlers requireAuth_None)


definition demo_env :: "redis env" where
  "demo_env = \<lparr>lib = demo_lib, hmac = demo_mac, secret = ''k'', coll = (=), pw = demo_pw, like = (\<lambda>p v. False),
     fmt = (\<lambda>t. []), createdAt = (\<lambda>u. []), redis_api = redis_ops, saga = None, archive = None, es = None,
     is_open = (\<lambda>w. True)\<rparr>"

definition demo_ctx :: "ms \<Rightarrow> reqctx" where
  "demo_ctx t = \<lparr>now = t, dbok = (\<lambda>c. True), redisok = (\<lambda>c. True), blackok = (\<lambda>c. True), auditok = (\<lambda>c. True),
     sagaStart = (\<lambda>c. True), sagaExec = (\<lambda>p c. True), sagaRead = (\<lambda>c. True), unreadok = (\<lambda>u c. True), fresh = ''f'',
     freshId = 1, has_conn = True, submitted = True\<rparr>"

definition demo_server :: "redis server" where
  "demo_server = \<lparr>sdb = empty_db, store = empty_redis, om = new_online True ''i1'', tries = Map.empty, trail = [], devs = []\<rparr>"

definition demo_request :: "string \<Rightarrow> request" where
  "demo_request auth = \<lparr>header = (\<lambda>k. if k = ''authorization'' then auth else []), params = Map.empty, body = []\<rparr>"


section \<open>Revocation\<close>

lemma verifyAndParse_same:
  "verifyAndParse L h k t token = Some c \<Longrightarrow> verifyAndParse L h k t' token = Some c' \<Longrightarrow> c' = c"
  by (auto simp: verifyAndParse_def Let_def split: option.splits if_splits)

lemma authFromRequest_Some:
  assumes "authFromRequest E x req s = Some c"
  shows "verifyAndParse (lib E) (hmac E) (secret E) (nowSec x) (drop 7 (header req ''authorization'')) = Some c"
  using assms by (auto simp: authFromRequest_def Let_def split: option.splits if_splits)

lemma wrap32_small: "0 \<le> i \<Longrightarrow> i < 2 ^ 31 \<Longrightarrow> wrap32 i = i"
  unfolding wrap32_def by (simp add: sint_sbintrunc' signed_take_bit_int_eq_self)

lemma blacklisted_refused:
  assumes "authFromRequest E x req s = Some c" "c_jti c \<noteq> []"
    and "header req2 ''authorization'' = header req ''authorization''"
    and "redisok x2 Acquire" "exists (redis_api E) (now x2) (blacklist_key (c_jti c)) (store s2)"
  shows "authFromRequest E x2 req2 s2 = None"
proof (cases "authFromRequest E x2 req2 s2")
  case (Some c2)
  then have "c2 = c"
    using authFromRequest_Some [OF Some] authFromRequest_Some [OF assms(1)] assms(3) verifyAndParse_same by metis
  with Some assms(2,4,5) show ?thesis
    by (auto simp: authFromRequest_def isRevoked_def Let_def split: option.splits if_splits)
qed simp

lemma revoked_until:
  assumes "expiring_store (redis_api E)" "c_jti c \<noteq> []" "blackok x Acquire" "blackok x (Exec 1)"
    and "nowSec x < c_exp c" "c_exp c < nowSec x + 2 ^ 31"
  shows "fst (revoke_claims E x c s)"
    and "blacklist_key (c_jti c) \<notin> cmd_key ` set cs \<Longrightarrow> t < 1000 * c_exp c \<Longrightarrow>
      exists (redis_api E) t (blacklist_key (c_jti c)) (fold (run_cmd (redis_api E)) cs (store (snd (revoke_claims E x c s))))"
proof -
  let ?ttl = "c_exp c - nowSec x"
  have ttl: "remainingSeconds (nowSec x) c = ?ttl" "wrap32 ?ttl = ?ttl" "0 < ?ttl"
    using assms(5,6) by (simp_all add: remainingSeconds_def wrap32_small)
  have r: "revoke_claims E x c s = (True, s\<lparr>store := setex (redis_api E) (now x) (blacklist_key (c_jti c)) ''1'' ?ttl (store s)\<rparr>)"
    using assms(2-4) ttl by (simp add: revoke_claims_def revoke_def)
  then show "fst (revoke_claims E x c s)" by simp
  show "exists (redis_api E) t (blacklist_key (c_jti c)) (fold (run_cmd (redis_api E)) cs (store (snd (revoke_claims E x c s))))"
    if "blacklist_key (c_jti c) \<notin> cmd_key ` set cs" "t < 1000 * c_exp c"
  proof -
    have "t < now x + 1000 * ?ttl" using that(2) by (simp add: nowSec_def)
    then show ?thesis
      using expiring_store.kept_for_its_lifetime [OF assms(1) ttl(3) that(1)] r by (simp add: exists_def)
  qed
qed



section \<open>Integrity\<close>

text \<open>The state of the server with a property \<open>I\<close> of its database.\<close>

definition server_inv :: "(db \<Rightarrow> bool) \<Rightarrow> 'r server \<Rightarrow> bool" where
  "server_inv I s \<longleftrightarrow> I (sdb s) \<and> om_ok (om s) \<and> devices_ok (devs s)"

text \<open>The sagas a server may be set up with: none, or the one that creates groups.\<close>

definition saga_setup :: "'r env \<Rightarrow> bool" where
  "saga_setup E \<longleftrightarrow> (saga E = None \<or> (\<exists>le. saga E = Some (registerCreateGroupSaga le Map.empty)))"

text \<open>
  What the HTTP handlers rely on: every service keeps the property, whatever calls fail. What
  they give for it: every route keeps it, together with the session and device tables.
\<close>

locale service_invariant =
  fixes I :: "db \<Rightarrow> bool"
  assumes friend_services: "I d \<Longrightarrow> I (snd (addFriend a ok d))" "I d \<Longrightarrow> I (snd (deleteFriend a ok d))"
      "I d \<Longrightarrow> I (snd (sendRequest b ok d))" "I d \<Longrightarrow> I (snd (handleRequest c ok d))"
    and group_services: "I d \<Longrightarrow> I (snd (joinGroup g ok d))" "I d \<Longrightarrow> I (snd (leaveGroup g ok d))"
      "I d \<Longrightarrow> I (snd (deleteGroup g ok d))" "I d \<Longrightarrow> I (snd (setAnnouncement an ok d))"
      "I d \<Longrightarrow> I (snd (kickMember k ok d))"
    and group_creation: "coord = None \<or> coord = Some (registerCreateGroupSaga le Map.empty) \<Longrightarrow> I d \<Longrightarrow>
      I (snd (createGroup L coord oS oX oR newId w n d))"
    and user_services: "I d \<Longrightarrow> I (snd (updateProfile up ok d))" "I d \<Longrightarrow> I (snd (changePassword P cp ok d))"
      "I d \<Longrightarrow> I (snd (deleteAccount P da ok d))" "I d \<Longrightarrow> I (snd (registerUser cl P ru ok d))"
begin

lemma upd [simp]:
  "server_inv I (s\<lparr>store := r\<rparr>) = server_inv I s" "server_inv I (s\<lparr>tries := a\<rparr>) = server_inv I s"
  "server_inv I (s\<lparr>trail := t\<rparr>) = server_inv I s"
  by (simp_all add: server_inv_def)

lemma upd_sdb: "server_inv I s \<Longrightarrow> I d \<Longrightarrow> server_inv I (s\<lparr>sdb := d\<rparr>)"
  by (simp add: server_inv_def)

lemma upd_devs: "server_inv I s \<Longrightarrow> devices_ok t \<Longrightarrow> server_inv I (s\<lparr>devs := t\<rparr>)"
  by (simp add: server_inv_def)

lemma log [simp]: "server_inv I (log_audit x u a t i d s) = server_inv I s"
  by (simp add: log_audit_def)

lemma revoke [simp]: "server_inv I (snd (revoke_claims E x c s)) = server_inv I s"
  by (simp add: revoke_claims_def case_prod_beta)

text \<open>The combinators keep what their continuation keeps.\<close>

lemma keep_auth: "server_inv I s \<Longrightarrow> (\<And>c. server_inv I (snd (k c))) \<Longrightarrow> server_inv I (snd (requireAuth E x req s k))"
  by (simp add: requireAuth_def split: option.split)

lemma keep_body: "server_inv I s \<Longrightarrow> (\<And>j. server_inv I (snd (k j))) \<Longrightarrow> server_inv I (snd (parseJsonBody E req s k))"
  by (simp add: parseJsonBody_def split: option.split)

lemma keep_field: "server_inv I s \<Longrightarrow> (\<And>v. server_inv I (snd (k v))) \<Longrightarrow> server_inv I (snd (field f s k))"
  by (simp add: field_def split: option.split)

lemma keep_answer: "server_inv I s \<Longrightarrow> server_inv I (snd (answer j s))"
  by (simp add: answer_def)

lemma keep_service: "server_inv I s \<Longrightarrow> I (snd rd) \<Longrightarrow> server_inv I (snd (service rd s))"
  by (simp add: service_def answer_def upd_sdb)

lemmas keeps = keep_auth keep_body keep_field keep_answer keep_service

lemma data_of: "server_inv I s \<Longrightarrow> I (sdb s)"
  by (simp add: server_inv_def)

lemma keep_friends:
  assumes "server_inv I s" "rt \<in> {FriendList, AddFriend, DeleteFriend, RequestFriend, FriendRequests, AnswerRequest}"
  shows "server_inv I (snd (route_handler rt E x req s))"
  using assms(2) friend_services [OF data_of [OF assms(1)]]
  by (auto simp: friend_handlers case_prod_beta intro!: keeps upd_sdb assms(1))

lemma keep_groups:
  assumes "server_inv I s" "saga_setup E"
    and "rt \<in> {GroupList, CreateGroup, JoinGroup, GroupMembers, LeaveGroup, DeleteGroup, SetAnnouncement, GetAnnouncement, KickMember}"
  shows "server_inv I (snd (route_handler rt E x req s))"
proof -
  have "I (snd (createGroup L (saga E) oS oX oR newId w n (sdb s)))" for L oS oX oR newId w n
    using assms(2) group_creation [OF _ data_of [OF assms(1)]] by (auto simp: saga_setup_def)
  with assms(3) group_services [OF data_of [OF assms(1)]] show ?thesis
    by (auto simp: group_handlers case_prod_beta Let_def intro!: keeps upd_sdb assms(1))
qed

lemma keep_accounts:
  assumes "server_inv I s"
    and "rt \<in> {Register, Login, Logout, Profile, UpdateProfile, SearchUsers, UserInfo, ChangePassword, DeleteAccount}"
  shows "server_inv I (snd (route_handler rt E x req s))"
  using assms(2) user_services [OF data_of [OF assms(1)]]
  by (auto simp: account_handlers case_prod_beta Let_def assms(1) intro!: keeps upd_sdb)

lemma keep_messages:
  assumes "server_inv I s" "rt \<in> {History, SearchMessages, ReadStatus, Unread}"
  shows "server_inv I (snd (route_handler rt E x req s))"
  using assms(2) by (auto simp: message_handlers Let_def assms(1) intro!: keeps split: option.split)

lemma keep_devices:
  assumes "server_inv I s" "rt \<in> {DeviceRegister, DeviceList, DeviceRemove, DeviceKick}"
  shows "server_inv I (snd (route_handler rt E x req s))"
proof -
  have "devices_ok (devs s)" "om_ok (om s)" using assms(1) by (simp_all add: server_inv_def)
  then have "devices_ok (snd (registerDevice ok i n u d ty os app ap fc (devs s)))"
      "devices_ok (snd (unregisterDevice ok u d (devs s)))"
      "om_ok (fst (snd (kickDevice L R ok u d (om s, store s))))" for ok i n u d ty os app ap fc L R
    using device_step_ok [of "devs s" "Enrol ok i n u d ty os app ap fc"] device_step_ok [of "devs s" "Withdraw ok u d"]
      om_step_ok [of "(om s, store s)" L R "((0, ok), Kicked u d)"] by simp_all
  moreover have "server_inv I (s\<lparr>om := a, store := b\<rparr>)" if "om_ok a" for a b
    using that assms(1) by (simp add: server_inv_def)
  ultimately show ?thesis
    using assms(2) by (auto simp: device_handlers case_prod_beta Let_def assms(1) intro!: keeps upd_devs)
qed

lemma keep_route: "server_inv I s \<Longrightarrow> saga_setup E \<Longrightarrow> server_inv I (snd (route_handler rt E x req s))"
  by (cases rt) (blast intro: keep_friends keep_groups keep_accounts keep_messages keep_devices)+

end

lemmas service_invs = addFriend_op.op_inv deleteFriend_op.op_inv sendRequest_op.op_inv handleRequest_op.op_inv
  joinGroup_op.op_inv leaveGroup_op.op_inv deleteGroup_op.op_inv setAnnouncement_op.op_inv kickMember_op.op_inv
  updateProfile_op.op_inv changePassword_op.op_inv deleteAccount_op.op_inv registerUser_op.op_inv

interpretation social: service_invariant social_ok
  by unfold_locales (simp_all add: service_invs createGroup_social)

end
