(* ===== verification/MsgQueue.thy ===== *)
theory MsgQueue
  imports Messages Redis
begin

text \<open>
  The write-behind queue of \<^verbatim>\<open>server/ChatServer.h\<close>: a message is pushed to a Redis list, or saved
  at once when Redis is not available, and a timer moves the list to the database in batches
  of a hundred. The JSON text of an item, the Redis commands and the circuit breakers (their
  answers are booleans) are arguments. A flush reads the list and trims it with two commands;
  the second part of the theory has these as separate steps.
\<close>

section \<open>Operations\<close>

definition private_item :: "string \<Rightarrow> uid \<Rightarrow> uid \<Rightarrow> string \<Rightarrow> ms \<Rightarrow> json" where
  "private_item msgId from to content ts = obj [(''_type'', JStr ''private''), (''msgId'', JStr msgId), (''from'', JInt from),
     (''to'', JInt to), (''content'', JStr content), (''timestamp'', JInt ts)]"

definition group_item :: "string \<Rightarrow> int \<Rightarrow> uid \<Rightarrow> string \<Rightarrow> ms \<Rightarrow> string \<Rightarrow> json" where
  "group_item msgId groupId from content ts mentions =
     (let j = obj [(''_type'', JStr ''group''), (''msgId'', JStr msgId), (''groupId'', JInt groupId), (''from'', JInt from),
        (''content'', JStr content), (''timestamp'', JInt ts)]
      in if mentions = [] then j else jset j ''mentions'' (JStr mentions))"

text \<open>
  The body both ways of saving share. The first component is \<open>None\<close> when reading a member
  throws, otherwise whether a row was stored.
\<close>

definition save_item :: "outcome \<Rightarrow> json \<Rightarrow> db \<Rightarrow> bool option \<times> db" where
  "save_item ok j d =
     (case value_str j ''_type'' [] of
        None \<Rightarrow> (None, d)
      | Some ty \<Rightarrow>
        if ty = ''private'' then
          (case (value_str j ''msgId'' [], value_int j ''from'' 0, value_int j ''to'' 0, value_str j ''content'' [],
                 value_int j ''timestamp'' 0) of
             (Some i, Some f, Some t, Some c, Some ts) \<Rightarrow>
               (let (b, d') = savePrivateMessage ok i f t c ts d in (Some b, d'))
           | _ \<Rightarrow> (None, d))
        else if ty = ''group'' then
          (case (value_str j ''msgId'' [], value_int j ''groupId'' 0, value_int j ''from'' 0, value_str j ''content'' [],
                 value_int j ''timestamp'' 0, value_str j ''mentions'' []) of
             (Some i, Some g, Some f, Some c, Some ts, Some m) \<Rightarrow>
               (let (b, d') = saveGroupMessage ok i g f c ts m d in (Some b, d'))
           | _ \<Rightarrow> (None, d))
        else (Some False, d))"

definition directSaveMessage :: "jlib \<Rightarrow> outcome \<Rightarrow> string \<Rightarrow> db \<Rightarrow> db" where
  "directSaveMessage L ok msgJson d =
     (case lib_parse L msgJson of None \<Rightarrow> d | Some j \<Rightarrow> snd (save_item ok j d))"

definition queueMessage :: "jlib \<Rightarrow> 'r redis_ops \<Rightarrow> bool \<Rightarrow> outcome \<Rightarrow> outcome \<Rightarrow> string \<Rightarrow> 'r \<times> db \<Rightarrow> 'r \<times> db" where
  "queueMessage L R allow rok dok msgJson st =
     (let (r, d) = st
      in if \<not> allow then (r, directSaveMessage L dok msgJson d)
         else if rok Acquire then (lpush R ''msg_queue'' msgJson r, d)
         else (r, directSaveMessage L dok msgJson d))"

text \<open>One message of a batch: whether it was stored, and the database.\<close>

definition flush_one :: "jlib \<Rightarrow> (string \<Rightarrow> outcome) \<Rightarrow> string \<Rightarrow> db \<Rightarrow> bool \<times> db" where
  "flush_one L oks msgStr d =
     (case lib_parse L msgStr of None \<Rightarrow> (False, d)
      | Some j \<Rightarrow> (case save_item (oks msgStr) j d of (Some b, d') \<Rightarrow> (b, d') | (None, d') \<Rightarrow> (False, d')))"

definition flush_batch :: "jlib \<Rightarrow> (string \<Rightarrow> outcome) \<Rightarrow> string list \<Rightarrow> db \<Rightarrow> (nat \<times> nat) \<times> db" where
  "flush_batch L oks msgs d =
     foldl (\<lambda>((good, bad), d) m. case flush_one L oks m d of
              (True, d') \<Rightarrow> ((good + 1, bad), d') | (False, d') \<Rightarrow> ((good, bad + 1), d'))
       ((0, 0), d) msgs"

text \<open>
  \<^verbatim>\<open>flushMessageQueue\<close>; the first component says what the database's breaker is told: a success,
  a failure or nothing.
\<close>

definition flushMessageQueue :: "jlib \<Rightarrow> 'r redis_ops \<Rightarrow> bool \<Rightarrow> outcome \<Rightarrow> (string \<Rightarrow> outcome) \<Rightarrow> 'r \<times> db \<Rightarrow> bool option \<times> 'r \<times> db" where
  "flushMessageQueue L R allow rok oks st =
     (let (r, d) = st
      in if \<not> allow then (None, st)
         else if \<not> rok Acquire then (None, st)
         else
           (let messages = lrange R ''msg_queue'' 100 r
            in if messages = [] then (None, st)
               else
                 (let r' = ltrim R ''msg_queue'' (length messages) r;
                      ((good, bad), d') = flush_batch L oks messages d
                  in (if good > 0 then Some True else if bad > 0 then Some False else None, r', d'))))"

section \<open>Draining the queue\<close>

text \<open>The messages the handlers queue, their items and the rows they become.\<close>

datatype qmsg = QPrivate string uid uid string ms | QGroup string int uid string ms string

primrec item_of :: "qmsg \<Rightarrow> json" where
  "item_of (QPrivate i f t c ts) = private_item i f t c ts"
| "item_of (QGroup i g f c ts m) = group_item i g f c ts m"

primrec kind_of :: "qmsg \<Rightarrow> int" where
  "kind_of (QPrivate i f t c ts) = 0" | "kind_of (QGroup i g f c ts m) = 1"

primrec row_of :: "qmsg \<Rightarrow> msg_row" where
  "row_of (QPrivate i f t c ts) = new_msg i f t c ts None"
| "row_of (QGroup i g f c ts m) = new_msg i f g c ts (if m = [] then None else Some m)"

definition stored :: "int \<Rightarrow> qmsg list \<Rightarrow> msg_row list" where
  "stored k qs = map row_of (filter (\<lambda>q. kind_of q = k) qs)"

definition new_ids :: "qmsg list \<Rightarrow> db \<Rightarrow> bool" where
  "new_ids qs d \<longleftrightarrow> distinct (map (\<lambda>q. m_msg_id (row_of q)) qs) \<and>
     list_all (\<lambda>q. m_msg_id (row_of q) \<notin> m_msg_id ` (set (pmsgs d) \<union> set (gmsgs d))) qs"

definition add_row :: "qmsg \<Rightarrow> db \<Rightarrow> db" where
  "add_row q d = set_table (kind_of q) (table (kind_of q) d @ [row_of q]) d"

lemma add_row_tables:
  "pmsgs (add_row q d) = pmsgs d @ stored 0 [q]" "gmsgs (add_row q d) = gmsgs d @ stored 1 [q]"
  by (cases q; simp add: add_row_def set_table_def table_def stored_def)+

lemma fold_add_row_tables:
  "pmsgs (fold add_row qs d) = pmsgs d @ stored 0 qs" "gmsgs (fold add_row qs d) = gmsgs d @ stored 1 qs"
  by (induction qs arbitrary: d) (auto simp: add_row_tables stored_def)

lemma msg_id_new_msg [simp]: "m_msg_id (new_msg i f t c ts m) = i"
  by (simp add: new_msg_def)

lemma save_item_ok:
  assumes "m_msg_id (row_of q) \<notin> m_msg_id ` (set (pmsgs d) \<union> set (gmsgs d))"
  shows "save_item (\<lambda>c. True) (item_of q) d = (Some True, add_row q d)"
  using assms
  by (cases q)
     (auto simp: save_item_def private_item_def group_item_def jset_obj Let_def savePrivateMessage_def savePrivateMessageTx_def
       saveGroupMessage_def prepared_def ins_msg_def add_row_def table_def list_ex_iff image_iff)

lemma new_ids_Cons: "new_ids (q # qs) d \<Longrightarrow> new_ids qs (add_row q d)"
  by (auto simp: new_ids_def add_row_tables stored_def list_all_iff image_iff)

lemma flush_batch_ok:
  assumes "new_ids qs d" "\<And>q. q \<in> set qs \<Longrightarrow> lib_parse L (lib_dump L (item_of q)) = Some (item_of q)"
  shows "foldl (\<lambda>((good, bad), d) m. case flush_one L (\<lambda>m c. True) m d of
              (True, d') \<Rightarrow> ((good + 1, bad), d') | (False, d') \<Rightarrow> ((good, bad + 1), d'))
       ((g, b), d) (map (\<lambda>q. lib_dump L (item_of q)) qs) = ((g + length qs, b), fold add_row qs d)"
  using assms
proof (induction qs arbitrary: g d)
  case (Cons q qs)
  have "save_item (\<lambda>c. True) (item_of q) d = (Some True, add_row q d)"
    using Cons.prems(1) by (intro save_item_ok) (simp add: new_ids_def)
  with Cons.prems(2) have "flush_one L (\<lambda>m c. True) (lib_dump L (item_of q)) d = (True, add_row q d)"
    by (simp add: flush_one_def)
  with Cons.IH [of "add_row q d" "g + 1"] new_ids_Cons [OF Cons.prems(1)] Cons.prems(2) show ?case by simp
qed simp

lemma new_ids_split: "new_ids (xs @ ys) d \<Longrightarrow> new_ids xs d \<and> new_ids ys (fold add_row xs d)"
  by (induction xs arbitrary: d)
     (auto simp: new_ids_Cons, auto simp: new_ids_def)

text \<open>One round: \<open>queue_of qs st\<close> says that the queue holds the messages \<open>qs\<close>.\<close>

definition queue_of :: "jlib \<Rightarrow> 'r redis_ops \<Rightarrow> qmsg list \<Rightarrow> 'r \<Rightarrow> bool" where
  "queue_of L R qs r \<longleftrightarrow> items R ''msg_queue'' r = map (\<lambda>q. lib_dump L (item_of q)) qs"

definition flush_round :: "jlib \<Rightarrow> 'r redis_ops \<Rightarrow> 'r \<times> db \<Rightarrow> 'r \<times> db" where
  "flush_round L R st = snd (flushMessageQueue L R True (\<lambda>c. True) (\<lambda>m c. True) st)"

lemma flush_round_moves:
  assumes "list_store R" "queue_of L R qs r" "new_ids qs d"
    and "\<And>q. q \<in> set qs \<Longrightarrow> lib_parse L (lib_dump L (item_of q)) = Some (item_of q)"
  shows "\<exists>r'. flush_round L R (r, d) = (r', fold add_row (take 100 qs) d) \<and> queue_of L R (drop 100 qs) r'"
proof (cases "qs = []")
  case True
  with assms(1,2) show ?thesis
    by (simp add: flush_round_def flushMessageQueue_def queue_of_def list_store.lrange_items Let_def)
next
  case False
  let ?m = "map (\<lambda>q. lib_dump L (item_of q)) (take 100 qs)"
  have m: "lrange R ''msg_queue'' 100 r = ?m" "?m \<noteq> []"
    using assms(1,2) False by (simp_all add: queue_of_def list_store.lrange_items take_map)
  have "new_ids (take 100 qs) d"
    using new_ids_split [of "take 100 qs" "drop 100 qs" d] assms(3) by simp
  moreover have "lib_parse L (lib_dump L (item_of q)) = Some (item_of q)" if "q \<in> set (take 100 qs)" for q
    by (rule assms(4) [OF in_set_takeD [OF that]])
  ultimately have b: "flush_batch L (\<lambda>m c. True) ?m d = ((0 + length (take 100 qs), 0), fold add_row (take 100 qs) d)"
    unfolding flush_batch_def by (rule flush_batch_ok)
  have "queue_of L R (drop 100 qs) (ltrim R ''msg_queue'' (length ?m) r)"
    using assms(1,2) by (simp add: queue_of_def list_store.items_ltrim drop_map min_def)
  with m b show ?thesis
    by (simp add: flush_round_def flushMessageQueue_def Let_def del: length_map)
qed


definition item_lib :: jlib where
  "item_lib = \<lparr>lib_dump = (\<lambda>j. ''i''), lib_parse = (\<lambda>s. Some (private_item ''1'' 1 2 ''hi'' 5))\<rparr>"


section \<open>What a flush can lose\<close>

text \<open>
  Reading and trimming are two commands, and the trim removes as many entries as were
  read from the end where new ones arrive. A message pushed between the two is removed by the
  trim without having been read: it is neither in the batch nor in the queue any more. The
  message that was last in the batch stays queued in its place.
\<close>

theorem flush_race_loses_message:
  assumes "list_store R" "items R ''msg_queue'' r = q # qs" "m \<notin> set (q # qs)"
  shows "let batch = lrange R ''msg_queue'' 100 r; r1 = lpush R ''msg_queue'' m r;
             r2 = ltrim R ''msg_queue'' (length batch) r1
         in m \<notin> set batch \<and> m \<notin> set (items R ''msg_queue'' r2) \<and> hd (items R ''msg_queue'' r2) = last batch"
proof -
  let ?xs = "q # qs" and ?n = "min (length (q # qs)) 100"
  have b: "lrange R ''msg_queue'' 100 r = take 100 ?xs" "length (take 100 ?xs) = ?n"
    using assms(1,2) by (simp_all add: list_store.lrange_items)
  have i: "items R ''msg_queue'' (ltrim R ''msg_queue'' ?n (lpush R ''msg_queue'' m r)) = drop ?n (m # ?xs)"
    using assms(1,2) by (simp add: list_store.items_ltrim list_store.items_lpush)
  have n: "?n = Suc (?n - 1)" "?n - 1 < length ?xs" by auto
  then have d: "drop ?n (m # ?xs) = drop (?n - 1) ?xs" by (metis drop_Suc_Cons)
  have "hd (drop (?n - 1) ?xs) = ?xs ! (?n - 1)" using n(2) hd_drop_conv_nth by blast
  also have "\<dots> = last (take 100 ?xs)"
    using b(2) by (simp add: last_conv_nth del: take_Suc_Cons)
  finally show ?thesis
    using assms(3) b i d by (auto simp: Let_def dest: in_set_takeD in_set_dropD)
qed

theorem flush_race_loses_message_witness:
  "let r = r_lpush ''msg_queue'' ''a'' empty_redis; batch = r_lrange ''msg_queue'' 100 r;
       r2 = r_ltrim ''msg_queue'' (length batch) (r_lpush ''msg_queue'' ''b'' r)
   in ''b'' \<notin> set batch \<and> ''b'' \<notin> set (r_list ''msg_queue'' r2)"
  using flush_race_loses_message [OF rl.list_store_axioms, of "r_lpush ''msg_queue'' ''a'' empty_redis" "''a''" "[]" "''b''"]
  by (simp add: Let_def)

lemma flush_batch_no_db:
  "foldl (\<lambda>((good, bad), d) m. case flush_one L (\<lambda>m c. False) m d of
              (True, d') \<Rightarrow> ((good + 1, bad), d') | (False, d') \<Rightarrow> ((good, bad + 1), d'))
       ((g, b), d) ms = ((g, b + length ms), d)"
proof (induction ms arbitrary: b)
  case (Cons m ms)
  have "flush_one L (\<lambda>m c. False) m d = (False, d)"
    by (auto simp: flush_one_def save_item_def savePrivateMessage_def saveGroupMessage_def split: option.split)
  with Cons show ?case by simp
qed simp

text \<open>
  The batch is taken off the queue before it is stored. While the database hands out no
  connection and its breaker has not opened yet, a flush drops the whole batch: no row is
  stored and the messages are not queued any more.
\<close>

theorem failed_flush_drops_batch:
  assumes "list_store R" "items R ''msg_queue'' r = ms" "ms \<noteq> []"
  shows "\<exists>r'. flushMessageQueue L R True (\<lambda>c. True) (\<lambda>m c. False) (r, d) = (Some False, r', d)
    \<and> items R ''msg_queue'' r' = drop 100 ms"
proof -
  have b: "flush_batch L (\<lambda>m c. False) (take 100 ms) d = ((0, length (take 100 ms)), d)"
    unfolding flush_batch_def flush_batch_no_db by simp
  have m: "lrange R ''msg_queue'' 100 r = take 100 ms" "take 100 ms \<noteq> []" "0 < length (take 100 ms)"
    using assms by (simp_all add: list_store.lrange_items)
  have "items R ''msg_queue'' (ltrim R ''msg_queue'' (length (take 100 ms)) r) = drop 100 ms"
    using assms(1,2) by (simp add: list_store.items_ltrim min_def)
  with b m show ?thesis unfolding flushMessageQueue_def by (simp add: Let_def del: length_take)
qed

theorem failed_flush_drops_batch_witness:
  "\<exists>r'. flushMessageQueue item_lib redis_ops True (\<lambda>c. True) (\<lambda>m c. False) (r_lpush ''msg_queue'' ''a'' empty_redis, empty_db)
      = (Some False, r', empty_db) \<and> r_list ''msg_queue'' r' = []"
  using failed_flush_drops_batch [OF rl.list_store_axioms, of "r_lpush ''msg_queue'' ''a'' empty_redis" "[''a'']" item_lib empty_db]
  by simp

end
