(* ===== verification/Chat.thy ===== *)
theory Chat
  imports Outbox Moderation MsgQueue HttpApi
begin

text \<open>
  The WebSocket side of \<^verbatim>\<open>server/ChatServer.h\<close>: handshake, connection and close handlers, the
  dispatch of incoming texts and the handlers behind it, on the state of the HTTP side
  extended by the set of recent message identifiers, the moderation automaton and its log and
  the contexts of the sessions. A handler gives the frames it writes, in order, and the new
  state. A task handed to the worker pool is run at once; whether the pool takes it, the clock,
  the Snowflake number and the outcomes of calls are the context \<open>wsctx\<close> of the event.
\<close>

section \<open>State\<close>

record 'r chat_env =
  api :: "'r env"
  outbox_on :: bool
  outboxOnlyMode :: bool
  router :: "string option"

record wsctx =
  wnow :: ms
  snowflake :: int
  pool :: bool
  modok :: outcome
  outboxok :: outcome
  qallow :: bool
  qredis :: outcome
  qdb :: outcome
  countok :: outcome
  pushdb :: outcome
  pushredis :: outcome
  routeok :: outcome
  routeget :: "string \<Rightarrow> bool"
  routepub :: "string \<Rightarrow> bool"
  fallow :: bool
  fredis :: outcome
  fdb :: "string \<Rightarrow> outcome"
  svc :: outcome
  svc2 :: outcome
  lookup :: outcome
  reactok :: outcome
  membersok :: outcome
  friendsok :: outcome
  trailok :: outcome
  presenceok :: outcome
  unreads :: "uid \<Rightarrow> outcome"

record 'r chat =
  srv :: "'r server"
  recentMsgIds :: "string list"
  words :: moderation
  modlog :: "modlog_row list"
  contexts :: "wsid \<Rightarrow> string \<rightharpoonup> string"

text \<open>Whether an exception left the handler, the frames written, the state.\<close>

type_synonym 'r wresult = "(bool \<times> frame list) \<times> 'r chat"
type_synonym 'r whandler = "'r chat_env \<Rightarrow> wsctx \<Rightarrow> wsid \<Rightarrow> json \<Rightarrow> uid \<Rightarrow> 'r chat \<Rightarrow> 'r wresult"

definition wdone :: "frame list \<Rightarrow> 'r chat \<Rightarrow> 'r wresult" where
  "wdone fs st = ((False, fs), st)"

definition wfield :: "'a option \<Rightarrow> 'r chat \<Rightarrow> ('a \<Rightarrow> 'r wresult) \<Rightarrow> 'r wresult" where
  "wfield v st k = (case v of None \<Rightarrow> ((True, []), st) | Some a \<Rightarrow> k a)"

definition err :: "'r chat_env \<Rightarrow> wsid \<Rightarrow> string \<Rightarrow> frame" where
  "err C w m = Text w (makeError (lib (api C)) m)"

definition ctx_get :: "'r chat \<Rightarrow> wsid \<Rightarrow> string \<Rightarrow> string \<Rightarrow> string" where
  "ctx_get st w k d = (case contexts st w k of None \<Rightarrow> d | Some v \<Rightarrow> v)"

definition with_db :: "db \<Rightarrow> 'r chat \<Rightarrow> 'r chat" where
  "with_db d st = st\<lparr>srv := (srv st)\<lparr>sdb := d\<rparr>\<rparr>"

definition with_store :: "'r \<Rightarrow> 'r chat \<Rightarrow> 'r chat" where
  "with_store r st = st\<lparr>srv := (srv st)\<lparr>store := r\<rparr>\<rparr>"

definition stoll0 :: "string \<Rightarrow> int" where
  "stoll0 s = (case stoll s of Some v \<Rightarrow> v | None \<Rightarrow> 0)"

definition broadcast :: "'r chat_env \<Rightarrow> uid \<Rightarrow> string \<Rightarrow> 'r chat \<Rightarrow> frame list" where
  "broadcast C u payload st = snd (broadcastToUser (is_open (api C)) u payload (om (srv st)))"

section \<open>Duplicates\<close>

definition isDuplicate :: "string \<Rightarrow> string list \<Rightarrow> bool \<times> string list" where
  "isDuplicate msgId recent =
     (if msgId \<in> set recent then (True, recent)
      else let recent' = msgId # recent in (False, if length recent' > 100000 then [] else recent'))"

section \<open>Connections\<close>

definition token_of_path :: "string \<Rightarrow> string option" where
  "token_of_path path =
     (case find_str ''token='' path of None \<Rightarrow> None
      | Some pos \<Rightarrow>
        (let token = drop (pos + 6) path
         in Some (case find_char (CHR ''&'') token of Some n \<Rightarrow> take n token | None \<Rightarrow> token)))"

definition extractUserIdFromPath :: "'r env \<Rightarrow> int \<Rightarrow> string \<Rightarrow> int" where
  "extractUserIdFromPath E nowS path =
     (case token_of_path path of None \<Rightarrow> -1
      | Some token \<Rightarrow> verifyToken (lib E) (hmac E) (secret E) nowS token)"

definition device_char :: "char \<Rightarrow> bool" where
  "device_char c \<longleftrightarrow> is_alnum c \<or> c = CHR ''-'' \<or> c = CHR ''_'' \<or> c = CHR ''.''"

definition extractDeviceIdFromPath :: "string \<Rightarrow> string" where
  "extractDeviceIdFromPath path =
     (case find_str ''device_id='' path of None \<Rightarrow> kDefaultDevice
      | Some pos \<Rightarrow>
        (let rest = drop (pos + 10) path;
             val0 = (case find_char (CHR ''&'') rest of Some n \<Rightarrow> take n rest | None \<Rightarrow> rest)
         in if val0 = [] then kDefaultDevice
            else let val1 = (if length val0 > 64 then take 64 val0 else val0)
                 in if list_all device_char val1 then val1 else kDefaultDevice))"

definition handshake :: "'r chat_env \<Rightarrow> wsctx \<Rightarrow> string \<Rightarrow> bool" where
  "handshake C x path \<longleftrightarrow> extractUserIdFromPath (api C) (wnow x div 1000) path > 0"

definition friend_ids :: "json \<Rightarrow> uid list" where
  "friend_ids j = map (\<lambda>f. case value_int f ''userId'' 0 of Some v \<Rightarrow> v | None \<Rightarrow> 0) (elements j)"

definition on_open :: "'r chat_env \<Rightarrow> wsctx \<Rightarrow> wsid \<Rightarrow> string \<Rightarrow> 'r chat \<Rightarrow> 'r wresult" where
  "on_open C x w path st =
     (let E = api C; userId = extractUserIdFromPath E (wnow x div 1000) path
      in if userId \<le> 0 then wdone [CloseSession w 1008] st
         else
           (let deviceId = extractDeviceIdFromPath path;
                (o', r') = addDevice (redis_api E) (presenceok x) (wnow x) userId deviceId (Some w) (om (srv st), store (srv st));
                st1 = st\<lparr>srv := (srv st)\<lparr>om := o', store := r'\<rparr>,
                        contexts := (contexts st)(w := (contexts st w)(''userId'' \<mapsto> to_string userId, ''deviceId'' \<mapsto> deviceId))\<rparr>;
                friends_json = getFriends (friendsok x) userId (sdb (srv st1));
                online_frames = concat (map (\<lambda>f. case getSession (is_open E) f o' of None \<Rightarrow> []
                                   | Some v \<Rightarrow> [Text v (makeOnline (lib E) userId)]) (friend_ids friends_json))
            in case unread_counts (redis_api E) (unreads x) (wnow x) userId friends_json (store (srv st1)) of
                 None \<Rightarrow> ((True, online_frames), st1)
               | Some info \<Rightarrow>
                   wdone (online_frames @ (if info = JObj [] then []
                           else [Text w (lib_dump (lib E) (obj [(''type'', JStr ''unread_sync''), (''data'', info)]))])) st1))"

definition on_close :: "'r chat_env \<Rightarrow> wsctx \<Rightarrow> wsid \<Rightarrow> 'r chat \<Rightarrow> 'r wresult" where
  "on_close C x w st =
     (let E = api C; userId = stoll0 (ctx_get st w ''userId'' ''0''); deviceId = ctx_get st w ''deviceId'' kDefaultDevice
      in if userId \<le> 0 then wdone [] st
         else
           (let (o', r') = removeDevice (redis_api E) (presenceok x) userId deviceId (om (srv st), store (srv st));
                st1 = st\<lparr>srv := (srv st)\<lparr>om := o', store := r'\<rparr>\<rparr>
            in wdone (if isOnline (redis_api E) (is_open E) (lookup x) (wnow x) userId (o', r') then []
                     else concat (map (\<lambda>f. broadcast C f (makeOffline (lib E) userId) st1)
                            (friend_ids (getFriends (friendsok x) userId (sdb (srv st1)))))) st1))"

section \<open>Private messages\<close>

definition flush :: "'r chat_env \<Rightarrow> wsctx \<Rightarrow> 'r chat \<Rightarrow> 'r chat" where
  "flush C x st =
     (let (r, d) = snd (flushMessageQueue (lib (api C)) (redis_api (api C)) (fallow x) (fredis x) (fdb x) (store (srv st), sdb (srv st)))
      in with_store r (with_db d st))"

definition enqueue_msg :: "'r chat_env \<Rightarrow> wsctx \<Rightarrow> json \<Rightarrow> 'r chat \<Rightarrow> 'r chat" where
  "enqueue_msg C x item st =
     (let (r, d) = queueMessage (lib (api C)) (redis_api (api C)) (qallow x) (qredis x) (qdb x) (lib_dump (lib (api C)) item)
                     (store (srv st), sdb (srv st))
      in with_store r (with_db d st))"

definition log_mod :: "wsctx \<Rightarrow> uid \<Rightarrow> string \<Rightarrow> Moderation.response \<Rightarrow> 'r chat \<Rightarrow> 'r chat" where
  "log_mod x u msg m st =
     (if rs_result m = Pass then st
      else st\<lparr>modlog := logModeration (modok x) u ''text'' msg (rs_result m) (rs_reason m) (rs_matched m) ''0.000'' (modlog st)\<rparr>)"

definition private_fwd :: "uid \<Rightarrow> uid \<Rightarrow> string \<Rightarrow> string \<Rightarrow> ms \<Rightarrow> string \<Rightarrow> json" where
  "private_fwd from to msg msgId ts replyTo =
     (let j = obj [(''type'', JStr ''msg''), (''from'', JStr (to_string from)), (''to'', JStr (to_string to)),
        (''content'', JStr msg), (''msgId'', JStr msgId), (''timestamp'', JInt ts)]
      in if replyTo = [] then j else jset j ''replyTo'' (JStr replyTo))"

definition new_message_title :: string where
  "new_message_title = map char_of [0xE6::nat, 0x96, 0xB0, 0xE6, 0xB6, 0x88, 0xE6, 0x81, 0xAF]"

definition preview :: "string \<Rightarrow> string" where
  "preview msg = (if length msg > 50 then take 50 msg @ ''...'' else msg)"

definition tryCrossInstanceBroadcast :: "'r chat_env \<Rightarrow> wsctx \<Rightarrow> uid \<Rightarrow> string \<Rightarrow> 'r \<Rightarrow> int \<times> 'r" where
  "tryCrossInstanceBroadcast C x u payload r =
     (case router C of None \<Rightarrow> (0, r)
      | Some inst \<Rightarrow> publishToUser (redis_api (api C)) (routeok x) (routeget x) (routepub x) (wnow x) inst u payload r)"

definition persist_private :: "'r chat_env \<Rightarrow> wsctx \<Rightarrow> string \<Rightarrow> uid \<Rightarrow> uid \<Rightarrow> string \<Rightarrow> 'r chat \<Rightarrow> bool \<times> 'r chat" where
  "persist_private C x msgId from to msg st =
     (let (persisted, d) = (if outbox_on C then persistOutbox (lib_dump (lib (api C))) (outboxok x) msgId from to msg (wnow x) (sdb (srv st))
                            else (False, sdb (srv st)));
          st1 = with_db d st
      in (persisted, if persisted then st1 else enqueue_msg C x (private_item msgId from to msg (wnow x)) st1))"

text \<open>Nobody of the recipient is connected here: another instance, else the unread count and a push.\<close>

definition notify_absent :: "'r chat_env \<Rightarrow> wsctx \<Rightarrow> string \<Rightarrow> uid \<Rightarrow> uid \<Rightarrow> string \<Rightarrow> string \<Rightarrow> 'r chat \<Rightarrow> 'r chat" where
  "notify_absent C x msgId from to msg payload st =
     (let E = api C; (crossDelivered, r1) = tryCrossInstanceBroadcast C x to payload (store (srv st))
      in if crossDelivered \<noteq> 0 then with_store r1 st
         else
           (let r2 = incrementUnread (redis_api E) (countok x) (wnow x) to from r1;
                r3 = snd (notifyOffline (lib E) (redis_api E) (pushdb x) (pushredis x) to new_message_title (preview msg)
                       (obj [(''msgId'', JStr msgId), (''from'', JStr (to_string from)), (''convType'', JStr ''private'')])
                       (devs (srv st)) r2)
            in with_store r3 st))"

definition private_task :: "'r chat_env \<Rightarrow> wsctx \<Rightarrow> wsid \<Rightarrow> string \<Rightarrow> string \<Rightarrow> uid \<Rightarrow> uid \<Rightarrow> string \<Rightarrow> string \<Rightarrow> Moderation.response \<Rightarrow> string
    \<Rightarrow> 'r chat \<Rightarrow> frame list \<times> 'r chat" where
  "private_task C x w msgId clientMsgId from to msg replyTo m senderDevice st =
     (let E = api C; (persisted, st2) = persist_private C x msgId from to msg (log_mod x from msg m st);
          payload = lib_dump (lib E) (private_fwd from to msg msgId (wnow x) replyTo);
          inline = (\<not> outboxOnlyMode C \<or> \<not> persisted);
          recipients = (if inline then broadcast C to payload st2 else []);
          others = map (\<lambda>v. Text v payload) (getOtherSessions (is_open E) from senderDevice (om (srv st2)));
          st3 = (if inline \<and> recipients = [] then notify_absent C x msgId from to msg payload st2 else st2)
      in (Text w (makeAck (lib E) msgId clientMsgId) # recipients @ others, st3))"

text \<open>
  The common part of private and group messages up to the moderation verdict; \<open>reject\<close> is the
  text for a bad target, \<open>blocked\<close> the beginning of the text for a blocked message. A scan that
  does not end (\<open>None\<close> of \<open>checkText\<close>) leaves the handler without an answer.
\<close>

definition accept_message :: "'r chat_env \<Rightarrow> wsctx \<Rightarrow> wsid \<Rightarrow> json \<Rightarrow> string \<Rightarrow> string \<Rightarrow> 'r chat
    \<Rightarrow> (int \<Rightarrow> string \<Rightarrow> string \<Rightarrow> string \<Rightarrow> string \<Rightarrow> Moderation.response \<Rightarrow> 'r chat \<Rightarrow> 'r wresult) \<Rightarrow> 'r wresult" where
  "accept_message C x w j reject blocked st k =
     wfield (value_str j ''to'' []) st (\<lambda>toStr. wfield (value_str j ''content'' []) st (\<lambda>msg.
     wfield (value_str j ''replyTo'' []) st (\<lambda>replyTo.
       if toStr = [] \<or> msg = [] then wdone [err C w (''missing 'to' or 'content'' @ [CHR 0x27])] st
       else if length msg > 10000 then wdone [err C w ''message too long (max 10000 chars)''] st
       else
         let target = stoll0 toStr
         in if target \<le> 0 then wdone [err C w reject] st
            else
              let msgId = generateServerMsgId (snowflake x)
              in wfield (value_str j ''msgId'' []) st (\<lambda>clientMsgId.
                   let (dup, recent) = isDuplicate (if clientMsgId = [] then msgId else clientMsgId) (recentMsgIds st);
                       st1 = st\<lparr>recentMsgIds := recent\<rparr>
                   in if dup then wdone [Text w (makeAck (lib (api C)) msgId clientMsgId)] st1
                      else
                        (case checkText (words st1) msg of
                           None \<Rightarrow> wdone [] st1
                         | Some m \<Rightarrow>
                             if rs_result m = Block then wdone [err C w (blocked @ rs_reason m)] st1
                             else k target msg replyTo msgId clientMsgId m st1)))))"

definition handlePrivateMessage :: "'r whandler" where
  "handlePrivateMessage C x w j from st =
     accept_message C x w j (''invalid 'to'' @ [CHR 0x27]) ''message blocked: '' st
       (\<lambda>to msg replyTo msgId clientMsgId m st1.
          if pool x
          then let (fs, st2) = private_task C x w msgId clientMsgId from to msg replyTo m
                     (ctx_get st1 w ''deviceId'' kDefaultDevice) st1 in wdone fs st2
          else wdone [err C w ''server busy, retry later''] st1)"

section \<open>Group messages\<close>

definition mention_uid :: "json \<Rightarrow> int option" where
  "mention_uid m = (case m of JStr v \<Rightarrow> stoll v | JInt i \<Rightarrow> Some i | _ \<Rightarrow> Some 0)"

definition mentions_of :: "uid \<Rightarrow> uid list \<Rightarrow> json list \<Rightarrow> uid list" where
  "mentions_of from memberIds ms =
     filter (\<lambda>u. \<not> (u \<le> 0 \<or> u = from) \<and> u \<in> set memberIds) (List.map_filter mention_uid ms)"

definition keyUnreadMentions :: "uid \<Rightarrow> int \<Rightarrow> string" where
  "keyUnreadMentions u g = ''unread_mentions:{'' @ to_string u @ ''}:'' @ to_string g"

definition group_fwd :: "uid \<Rightarrow> int \<Rightarrow> string \<Rightarrow> string \<Rightarrow> ms \<Rightarrow> string \<Rightarrow> uid list \<Rightarrow> uid \<Rightarrow> json" where
  "group_fwd from g msg msgId ts replyTo mentions member =
     (let j0 = obj [(''type'', JStr ''group_msg''), (''from'', JStr (to_string from)), (''to'', JStr (to_string g)),
        (''content'', JStr msg), (''msgId'', JStr msgId), (''timestamp'', JInt ts)];
          j1 = (if replyTo = [] then j0 else jset j0 ''replyTo'' (JStr replyTo));
          j2 = (if mentions = [] then j1 else jset j1 ''mentions'' (JArr (map (\<lambda>u. JStr (to_string u)) mentions)))
      in if member \<in> set mentions then jset j2 ''mention'' (JBool True) else j2)"

definition group_fanout :: "'r chat_env \<Rightarrow> ms \<Rightarrow> uid \<Rightarrow> int \<Rightarrow> string \<Rightarrow> string \<Rightarrow> string \<Rightarrow> uid list \<Rightarrow> uid list \<Rightarrow> 'r chat \<Rightarrow> frame list" where
  "group_fanout C ts from g msg msgId replyTo mentions memberIds st =
     concat (map (\<lambda>u. broadcast C u (lib_dump (lib (api C)) (group_fwd from g msg msgId ts replyTo mentions u)) st)
       (filter (\<lambda>u. u \<noteq> from) memberIds))"

definition group_task :: "'r chat_env \<Rightarrow> wsctx \<Rightarrow> wsid \<Rightarrow> string \<Rightarrow> string \<Rightarrow> uid \<Rightarrow> int \<Rightarrow> string \<Rightarrow> string \<Rightarrow> Moderation.response \<Rightarrow> json list
    \<Rightarrow> 'r chat \<Rightarrow> frame list \<times> 'r chat" where
  "group_task C x w msgId clientMsgId from g msg replyTo m mentionsJson st =
     (let E = api C; st1 = log_mod x from msg m st;
          memberIds = getMemberIds (membersok x) g (sdb (srv st1));
          mentions = mentions_of from memberIds mentionsJson;
          mentionsStr = (if mentions = [] then [] else lib_dump (lib E) (JArr (map JInt mentions)));
          st2 = enqueue_msg C x (group_item msgId g from msg (wnow x) mentionsStr) st1;
          st3 = (if mentions \<noteq> [] \<and> countok x Acquire
                 then with_store (fold (\<lambda>u. incr (redis_api E) (wnow x) (keyUnreadMentions u g)) mentions (store (srv st2))) st2
                 else st2)
      in (Text w (makeAck (lib E) msgId clientMsgId)
            # group_fanout C (wnow x) from g msg msgId replyTo mentions memberIds st3, st3))"

definition handleGroupMessage :: "'r whandler" where
  "handleGroupMessage C x w j from st =
     accept_message C x w j ''invalid group id'' ''group message blocked: '' st
       (\<lambda>g msg replyTo msgId clientMsgId m st1.
          if pool x
          then let (fs, st2) = group_task C x w msgId clientMsgId from g msg replyTo m
                     (case jlookup j ''mentions'' of Some (JArr xs) \<Rightarrow> xs | _ \<Rightarrow> []) st1 in wdone fs st2
          else wdone [err C w ''server busy, retry later''] st1)"

section \<open>The other messages\<close>

definition handleFileMessage :: "'r whandler" where
  "handleFileMessage C x w j from st =
     wfield (value_str j ''to'' []) st (\<lambda>toStr. wfield (value_str j ''url'' []) st (\<lambda>url.
     wfield (value_str j ''filename'' []) st (\<lambda>filename. wfield (value_int j ''fileSize'' 0) st (\<lambda>fileSize.
       if toStr = [] \<or> url = [] then wdone [err C w (''missing 'to' or 'url'' @ [CHR 0x27])] st
       else
         let to = stoll0 toStr; msgId = generateServerMsgId (snowflake x); L = lib (api C)
         in if \<not> pool x then wdone [err C w ''server busy, retry later''] st
            else
              let msg = lib_dump L (obj [(''url'', JStr url), (''filename'', JStr filename), (''fileSize'', JInt fileSize)]);
                  st1 = with_db (snd (savePrivateMessage (svc x) msgId from to msg (wnow x) (sdb (srv st)))) st
              in wdone (Text w (makeAck L msgId []) #
                        broadcast C to (makeFileMsg L (wnow x) from to url filename fileSize msgId) st1) st1))))"

definition handleRecall :: "'r whandler" where
  "handleRecall C x w j from st =
     wfield (value_str j ''msgId'' []) st (\<lambda>msgId.
       if msgId = [] then wdone [err C w ''missing msgId''] st
       else if \<not> pool x then wdone [err C w ''server busy, retry later''] st
       else
         let st1 = flush C x st; (recalled, d) = recallMessage (svc x) (wnow x) msgId from (sdb (srv st1)); st2 = with_db d st1
         in if \<not> recalled then wdone [err C w ''recall failed (timeout or not your message)''] st2
            else
              let payload = makeRecall (lib (api C)) msgId from
              in wdone (Text w payload #
                        concat (map (\<lambda>f. broadcast C f payload st2) (friend_ids (getFriends (friendsok x) from (sdb (srv st2))))))
                   st2)"

text \<open>A row of a message table by its identifier, when connection and query succeed.\<close>

definition lookup_row :: "outcome \<Rightarrow> nat \<Rightarrow> int \<Rightarrow> string \<Rightarrow> db \<Rightarrow> msg_row option" where
  "lookup_row ok n kind msgId d =
     (if \<not> ok Acquire then None
      else case query ok n (\<lambda>d. find (\<lambda>r. m_msg_id r = msgId) (Messages.table kind d)) d of Some r \<Rightarrow> r | None \<Rightarrow> None)"

definition to_members :: "'r chat_env \<Rightarrow> wsctx \<Rightarrow> uid \<Rightarrow> int \<Rightarrow> string \<Rightarrow> 'r chat \<Rightarrow> frame list" where
  "to_members C x from g payload st =
     concat (map (\<lambda>u. broadcast C u payload st) (filter (\<lambda>u. u \<noteq> from) (getMemberIds (membersok x) g (sdb (srv st)))))"

definition handleEdit :: "'r whandler" where
  "handleEdit C x w j from st =
     wfield (value_str j ''msgId'' []) st (\<lambda>msgId. wfield (value_str j ''newBody'' []) st (\<lambda>newBody.
       if msgId = [] \<or> newBody = [] then wdone [err C w ''missing msgId or newBody''] st
       else if length newBody > 10000 then wdone [err C w ''message too long (max 10000 chars)''] st
       else
         let st1 = flush C x st;
             (ok0, old0, d0) = editMessage (svc x) (wnow x) msgId from newBody 0 (sdb (srv st1));
             (good, isGroup, old, d) =
               (if ok0 then (True, False, old0, d0)
                else let (ok1, old1, d1) = editMessage (svc2 x) (wnow x) msgId from newBody 1 d0
                     in (ok1, True, (case old1 of None \<Rightarrow> old0 | Some b \<Rightarrow> Some b), d1));
             st2 = with_db d st1
         in if \<not> good
            then wdone [err C w ''edit failed (timeout / not your message / already recalled)''] st2
            else
              let convId = (case lookup_row (lookup x) 1 (if isGroup then 1 else 0) msgId d of Some r \<Rightarrow> m_peer r | None \<Rightarrow> 0);
                  payload = makeEdit (lib (api C)) msgId newBody (wnow x) from (if isGroup then ''group'' else ''private'') (to_string convId);
                  oldLen = int (length (case old of Some b \<Rightarrow> b | None \<Rightarrow> []));
                  st3 = st2\<lparr>srv := (srv st2)\<lparr>trail := audit (trailok x) from ''edit_message''
                          (msgId @ '':'' @ to_string oldLen @ ''->'' @ to_string (int (length newBody))) [] [] (trail (srv st2))\<rparr>\<rparr>
              in wdone (Text w payload # (if isGroup then to_members C x from convId payload st2
                                          else broadcast C convId payload st2)) st3))"

definition handleReaction :: "'r whandler" where
  "handleReaction C x w j from st =
     wfield (value_str j ''msgId'' []) st (\<lambda>msgId. wfield (value_str j ''emoji'' []) st (\<lambda>emoji.
       if msgId = [] \<or> emoji = [] then wdone [err C w ''missing msgId or emoji''] st
       else if length emoji > 16 then wdone [err C w ''emoji too long''] st
       else
         let L = lib (api C); st1 = flush C x st; (good, added, d) = toggleReaction (svc x) msgId from emoji (sdb (srv st1));
             st2 = with_db d st1
         in if \<not> good then wdone [err C w ''reaction failed (db error)''] st2
            else
              let reacts = getReactions (reactok x) msgId d
              in case lookup_row (lookup x) 1 0 msgId d of
                   Some r \<Rightarrow>
                     (let peer = (if from = m_from r then m_peer r else m_from r);
                          payload = makeReactionUpdate L msgId reacts ''private'' (to_string peer)
                      in wdone (Text w payload # broadcast C peer payload st2) st2)
                 | None \<Rightarrow>
                     (case lookup_row (lookup x) 2 1 msgId d of
                        Some r \<Rightarrow>
                          (let payload = makeReactionUpdate L msgId reacts ''group'' (to_string (m_peer r))
                           in wdone (Text w payload # to_members C x from (m_peer r) payload st2) st2)
                      | None \<Rightarrow> wdone [Text w (makeReactionUpdate L msgId (JObj []) ''private'' ''0'')] st2)))"

definition mark_delivered :: "string \<Rightarrow> uid \<Rightarrow> ms \<Rightarrow> stmt" where
  "mark_delivered msgId acker at =
     upd_msgs 0 (\<lambda>r. m_msg_id r = msgId \<and> m_peer r = acker \<and> m_delivered_at r = None) (\<lambda>r. r\<lparr>m_delivered_at := Some at\<rparr>)"

definition count_delivered :: "string \<Rightarrow> stmt" where
  "count_delivered msgId =
     upd_msgs 1 (\<lambda>r. m_msg_id r = msgId) (\<lambda>r. r\<lparr>m_delivered_count := m_delivered_count r + 1\<rparr>)"

definition handleClientAck :: "'r whandler" where
  "handleClientAck C x w j acker st =
     wfield (value_str j ''msgId'' []) st (\<lambda>msgId.
       if msgId = [] then wdone [] st
       else
         let st1 = flush C x st
         in if \<not> svc x Acquire then wdone [] st1
            else
              let (affected, d1) = exec (svc x) 1 (mark_delivered msgId acker (wnow x)) (sdb (srv st1));
                  (fromUser, count, d2) =
                    (if affected > 0
                     then ((case lookup_row (svc x) 2 0 msgId d1 of Some r \<Rightarrow> m_from r | None \<Rightarrow> 0), 1, d1)
                     else let (k, d') = exec (svc x) 3 (count_delivered msgId) d1
                          in if k > 0
                             then (case lookup_row (svc x) 4 1 msgId d' of Some r \<Rightarrow> (m_from r, m_delivered_count r, d')
                                   | None \<Rightarrow> (0, 1, d'))
                             else (0, 1, d'));
                  st2 = with_db d2 st1
              in if fromUser \<le> 0 \<or> fromUser = acker then wdone [] st2
                 else wdone (broadcast C fromUser (makeDelivered (lib (api C)) msgId (wnow x) count) st2) st2)"

definition handleReadAck :: "'r whandler" where
  "handleReadAck C x w j from st =
     wfield (value_str j ''to'' []) st (\<lambda>toStr. wfield (value_str j ''lastMsgId'' []) st (\<lambda>lastMsgId.
       if toStr = [] \<or> lastMsgId = [] then wdone [] st
       else
         let E = api C; to = stoll0 toStr;
             r1 = clearUnread (redis_api E) (countok x) from to (store (srv st));
             r2 = (if svc x Acquire then setkey (redis_api E) (read_pos_key (to_string from) toStr) lastMsgId r1 else r1);
             st1 = with_store r2 st;
             sync = lib_dump (lib E) (obj [(''type'', JStr ''read_sync''), (''convType'', JStr ''private''),
                      (''convId'', JStr (to_string to)), (''lastMsgId'', JStr lastMsgId)])
         in wdone (broadcast C to (makeReadAck (lib E) from to lastMsgId) st1
                   @ map (\<lambda>v. Text v sync) (getOtherSessions (is_open E) from (ctx_get st1 w ''deviceId'' kDefaultDevice) (om (srv st1))))
              st1))"

definition handleTyping :: "'r whandler" where
  "handleTyping C x w j from st =
     wfield (value_str j ''to'' []) st (\<lambda>toStr.
       if toStr = [] then wdone [] st
       else let to = stoll0 toStr
            in if to \<le> 0 then wdone [] st else wdone (broadcast C to (makeTyping (lib (api C)) from to) st) st)"

section \<open>Dispatch\<close>

definition dispatch_table :: "(string \<times> 'r whandler) list" where
  "dispatch_table =
     [(''msg'', handlePrivateMessage), (''group_msg'', handleGroupMessage), (''typing'', handleTyping),
      (''file_msg'', handleFileMessage), (''recall'', handleRecall), (''edit'', handleEdit), (''reaction'', handleReaction),
      (''client_ack'', handleClientAck), (''read_ack'', handleReadAck), (''read_sync'', handleReadAck)]"

definition on_message :: "'r chat_env \<Rightarrow> wsctx \<Rightarrow> wsid \<Rightarrow> string option \<Rightarrow> 'r chat \<Rightarrow> 'r wresult" where
  "on_message C x w txt st =
     (case txt of None \<Rightarrow> wdone [] st
      | Some t \<Rightarrow>
        (case lib_parse (lib (api C)) t of
           None \<Rightarrow> wdone [err C w ''invalid JSON''] st
         | Some j \<Rightarrow>
           wfield (value_str j ''type'' []) st (\<lambda>type.
             let userId = stoll0 (ctx_get st w ''userId'' ''0'')
             in if userId \<le> 0 then wdone [err C w ''not authenticated''] st
                else case map_of dispatch_table type of
                       Some h \<Rightarrow> h C x w j userId st
                     | None \<Rightarrow> wdone [err C w ''unknown message type''] st)))"

section \<open>Persistence of private messages\<close>

lemma with_sel [simp]:
  "sdb (srv (with_db d st)) = d" "store (srv (with_db d st)) = store (srv st)" "om (srv (with_db d st)) = om (srv st)"
  "sdb (srv (with_store r st)) = sdb (srv st)" "store (srv (with_store r st)) = r" "om (srv (with_store r st)) = om (srv st)"
  "devs (srv (with_db d st)) = devs (srv st)" "devs (srv (with_store r st)) = devs (srv st)"
  by (simp_all add: with_db_def with_store_def)

lemma log_mod_srv [simp]: "srv (log_mod x u msg m st) = srv st"
  by (simp add: log_mod_def)

lemma enqueue_msg_queued:
  assumes "list_store (redis_api (api C))" "qallow x" "qredis x Acquire"
  shows "items (redis_api (api C)) ''msg_queue'' (store (srv (enqueue_msg C x it st))) =
      lib_dump (lib (api C)) it # items (redis_api (api C)) ''msg_queue'' (store (srv st))
    \<and> sdb (srv (enqueue_msg C x it st)) = sdb (srv st)"
  using assms by (simp add: enqueue_msg_def queueMessage_def list_store.items_lpush)

lemma publishToUser_items:
  assumes "list_store R"
  shows "items R k (snd (publishToUser R ok got pub t inst u p r)) = items R k r"
proof -
  have "items R k (snd (foldl (\<lambda>(n, r) target. if target = inst \<or> \<not> pub target then (n, r)
      else (n + 1, publish R (''msg:instance:'' @ target) p r)) (n0, r) ts)) = items R k r" for n0 :: int and r ts
    by (induction ts arbitrary: n0 r) (auto simp: list_store.items_publish [OF assms])
  then show ?thesis by (simp add: publishToUser_def)
qed

lemma notifyOffline_items:
  assumes "list_store R" "k \<noteq> ''push_queue''"
  shows "items R k (snd (notifyOffline L R dok rok u ti b da t r)) = items R k r"
proof -
  have "items R k (snd (foldl (\<lambda>(n, r) p. if pt_apns p = [] \<and> pt_fcm p = [] then (n, r)
      else (n + 1, lpush R ''push_queue'' (f p) r)) (n0, r) ps)) = items R k r" for n0 :: nat and r ps f
    using assms(2) by (induction ps arbitrary: n0 r) (auto simp: list_store.items_lpush [OF assms(1)])
  then show ?thesis unfolding notifyOffline_def Let_def by auto
qed

lemma notify_absent_keeps:
  assumes "list_store (redis_api (api C))" "k \<noteq> ''push_queue''"
  shows "items (redis_api (api C)) k (store (srv (notify_absent C x i f t m p st))) = items (redis_api (api C)) k (store (srv st))
    \<and> sdb (srv (notify_absent C x i f t m p st)) = sdb (srv st)"
proof -
  have "items (redis_api (api C)) k (snd (tryCrossInstanceBroadcast C x t p r)) = items (redis_api (api C)) k r" for r
    by (simp add: tryCrossInstanceBroadcast_def publishToUser_items [OF assms(1)] split: option.split)
  moreover have "items (redis_api (api C)) k (incrementUnread (redis_api (api C)) ok ts u v r) = items (redis_api (api C)) k r" for ok ts u v r
    by (simp add: incrementUnread_def list_store.items_incr [OF assms(1)])
  ultimately show ?thesis
    by (simp add: notify_absent_def Let_def case_prod_beta notifyOffline_items [OF assms])
qed

text \<open>A message the fast path of the handlers lets through.\<close>

definition admissible :: "json \<Rightarrow> int \<Rightarrow> string \<Rightarrow> string \<Rightarrow> 'r chat \<Rightarrow> bool" where
  "admissible j target msg clientMsgId st \<longleftrightarrow>
     (\<exists>toStr replyTo. value_str j ''to'' [] = Some toStr \<and> value_str j ''replyTo'' [] = Some replyTo \<and>
        toStr \<noteq> [] \<and> target = stoll0 toStr) \<and> 0 < target \<and>
     value_str j ''content'' [] = Some msg \<and> msg \<noteq> [] \<and> length msg \<le> 10000 \<and> value_str j ''msgId'' [] = Some clientMsgId \<and>
     (\<exists>m. checkText (words st) msg = Some m \<and> rs_result m \<noteq> Block)"

lemma accept_private:
  assumes "admissible j to msg cid st" "\<not> fst (isDuplicate (if cid = [] then generateServerMsgId (snowflake x) else cid) (recentMsgIds st))"
    and "pool x"
  shows "\<exists>replyTo m st1 dev. handlePrivateMessage C x w j from st =
    (let (fs, st2) = private_task C x w (generateServerMsgId (snowflake x)) cid from to msg replyTo m dev st1 in wdone fs st2)"
proof -
  let ?d = "isDuplicate (if cid = [] then generateServerMsgId (snowflake x) else cid) (recentMsgIds st)"
  let ?st = "st\<lparr>recentMsgIds := snd ?d\<rparr>"
  obtain toStr replyTo m where *: "value_str j ''to'' [] = Some toStr" "value_str j ''replyTo'' [] = Some replyTo" "toStr \<noteq> []"
      "to = stoll0 toStr" "0 < to" "value_str j ''content'' [] = Some msg" "msg \<noteq> []" "length msg \<le> 10000"
      "value_str j ''msgId'' [] = Some cid" "checkText (words ?st) msg = Some m" "rs_result m \<noteq> Block"
    using assms(1) by (auto simp: admissible_def)
  have "handlePrivateMessage C x w j from st =
    (let (fs, st2) = private_task C x w (generateServerMsgId (snowflake x)) cid from to msg replyTo m
       (ctx_get ?st w ''deviceId'' kDefaultDevice) ?st in wdone fs st2)"
    using * assms(2,3)
    by (simp add: handlePrivateMessage_def accept_message_def wfield_def Let_def case_prod_beta)
  then show ?thesis by blast
qed

lemma persistOutbox_row:
  assumes "persistOutbox dump ok i f t c ts d = (True, d')"
  shows "new_msg i f t c ts None \<in> set (pmsgs d')"
  using persistOutbox_spec [OF assms] by (simp add: ins_outbox_def)

definition in_queue :: "'r chat_env \<Rightarrow> json \<Rightarrow> 'r chat \<Rightarrow> bool" where
  "in_queue C it st \<longleftrightarrow> lib_dump (lib (api C)) it \<in> set (items (redis_api (api C)) ''msg_queue'' (store (srv st)))"

lemma persist_private_kept:
  assumes "list_store (redis_api (api C))" "qallow x" "qredis x Acquire"
    and "persist_private C x i f t c st = (p, st')"
  shows "if p then new_msg i f t c (wnow x) None \<in> set (pmsgs (sdb (srv st')))
    else in_queue C (private_item i f t c (wnow x)) st'"
proof -
  obtain q d where q: "(if outbox_on C then persistOutbox (lib_dump (lib (api C))) (outboxok x) i f t c (wnow x) (sdb (srv st))
      else (False, sdb (srv st))) = (q, d)" by (metis surj_pair)
  with assms(4) have p: "p = q" "st' = (if q then with_db d st else enqueue_msg C x (private_item i f t c (wnow x)) (with_db d st))"
    by (auto simp: persist_private_def Let_def)
  show ?thesis
  proof (cases q)
    case True
    with q have "persistOutbox (lib_dump (lib (api C))) (outboxok x) i f t c (wnow x) (sdb (srv st)) = (True, d)"
      by (simp split: if_splits)
    with persistOutbox_row p True show ?thesis by simp
  next
    case False
    with p enqueue_msg_queued [OF assms(1-3)] show ?thesis by (simp add: in_queue_def)
  qed
qed


section \<open>Retries\<close>

text \<open>
  C39. A message turned away because the worker pool is full is already on the list of recent
  identifiers. When the client follows the advice and sends it again, the server takes it for
  a duplicate: it acknowledges the message under a fresh server identifier and does nothing
  else, so the message is neither stored nor queued nor delivered.
\<close>

theorem retry_after_busy_is_lost:
  assumes "admissible j to msg cid st" "cid \<noteq> []" "cid \<notin> set (recentMsgIds st)" "length (recentMsgIds st) < 100000"
    and "\<not> pool x1"
  shows "\<exists>st1. handlePrivateMessage C x1 w j from st = wdone [err C w ''server busy, retry later''] st1
    \<and> srv st1 = srv st
    \<and> handlePrivateMessage C x2 w j from st1 = wdone [Text w (makeAck (lib (api C)) (generateServerMsgId (snowflake x2)) cid)] st1"
proof -
  let ?st1 = "st\<lparr>recentMsgIds := cid # recentMsgIds st\<rparr>"
  have dup: "isDuplicate cid (recentMsgIds st) = (False, cid # recentMsgIds st)"
    using assms(3,4) by (simp add: isDuplicate_def)
  have "handlePrivateMessage C x1 w j from st = wdone [err C w ''server busy, retry later''] ?st1"
    using assms(1,2,5) dup
    by (auto simp: handlePrivateMessage_def accept_message_def admissible_def wfield_def Let_def)
  moreover have "handlePrivateMessage C x2 w j from ?st1 =
      wdone [Text w (makeAck (lib (api C)) (generateServerMsgId (snowflake x2)) cid)] ?st1"
    using assms(1,2)
    by (auto simp: handlePrivateMessage_def accept_message_def admissible_def wfield_def isDuplicate_def Let_def)
  moreover have "srv ?st1 = srv st" by simp
  ultimately show ?thesis by blast
qed

definition demo_chat_env :: "redis chat_env" where
  "demo_chat_env = \<lparr>api = demo_env, outbox_on = False, outboxOnlyMode = False, router = None\<rparr>"

definition demo_wsctx :: "bool \<Rightarrow> wsctx" where
  "demo_wsctx taken = \<lparr>wnow = 150000, snowflake = 9, pool = taken, modok = (\<lambda>c. True), outboxok = (\<lambda>c. True), qallow = True,
     qredis = (\<lambda>c. True), qdb = (\<lambda>c. True), countok = (\<lambda>c. True), pushdb = (\<lambda>c. True), pushredis = (\<lambda>c. True),
     routeok = (\<lambda>c. True), routeget = (\<lambda>k. True), routepub = (\<lambda>k. True), fallow = True, fredis = (\<lambda>c. True),
     fdb = (\<lambda>m c. True), svc = (\<lambda>c. True), svc2 = (\<lambda>c. True), lookup = (\<lambda>c. True), reactok = (\<lambda>c. True),
     membersok = (\<lambda>c. True), friendsok = (\<lambda>c. True), trailok = (\<lambda>c. True), presenceok = (\<lambda>c. True),
     unreads = (\<lambda>u c. True)\<rparr>"

definition demo_chat :: "redis chat" where
  "demo_chat = \<lparr>srv = demo_server, recentMsgIds = [], words = new_moderation, modlog = [], contexts = (\<lambda>w. Map.empty)\<rparr>"

definition demo_msg :: json where
  "demo_msg = obj [(''to'', JStr ''7''), (''content'', JStr ''hi''), (''msgId'', JStr ''c1'')]"

lemma demo_admissible: "admissible demo_msg 7 ''hi'' ''c1'' demo_chat"
proof -
  have "stoll0 ''7'' = 7" by code_simp
  then show ?thesis
    by (simp add: admissible_def demo_msg_def demo_chat_def checkText_def new_moderation_def Let_def)
qed


theorem retry_after_busy_is_lost_witness:
  "\<exists>st1. handlePrivateMessage demo_chat_env (demo_wsctx False) 1 demo_msg 3 demo_chat =
      wdone [err demo_chat_env 1 ''server busy, retry later''] st1
    \<and> srv st1 = srv demo_chat
    \<and> handlePrivateMessage demo_chat_env (demo_wsctx True) 1 demo_msg 3 st1 =
        wdone [Text 1 (makeAck demo_lib (generateServerMsgId 9) ''c1'')] st1"
  using retry_after_busy_is_lost [OF demo_admissible, of "demo_wsctx False" demo_chat_env 1 3 "demo_wsctx True"]
  by (simp add: demo_chat_def demo_wsctx_def demo_chat_env_def demo_env_def)

end
