(* ===== verification/ChatSafety.thy ===== *)
theory ChatSafety
  imports Chat
begin

text \<open>
  Properties of the WebSocket handlers that involve several components: who is reached by a
  group message, what opening and closing sessions do to the session table, what a revoked
  token can still do, and that every event keeps the integrity of the server's state.
\<close>

section \<open>Connections\<close>

lemma on_open_effect:
  assumes "extractUserIdFromPath (api C) (wnow x div 1000) path = u" "0 < u"
  shows "om (srv (snd (on_open C x w path st))) =
      fst (addDevice (redis_api (api C)) (presenceok x) (wnow x) u (extractDeviceIdFromPath path) (Some w) (om (srv st), store (srv st)))
    \<and> contexts (snd (on_open C x w path st)) = (contexts st)
      (w := (contexts st w)(''userId'' \<mapsto> to_string u, ''deviceId'' \<mapsto> extractDeviceIdFromPath path))"
  using assms by (auto simp: on_open_def wdone_def Let_def case_prod_beta split: option.split)

lemma on_close_effect:
  assumes "contexts st w ''userId'' = Some (to_string u)" "contexts st w ''deviceId'' = Some d" "0 < u" "in_int64 u"
  shows "om (srv (snd (on_close C x w st))) = snd (drop_device u (device_name d) (om (srv st)))"
  using assms
  by (simp add: on_close_def stoll0_def ctx_get_def str_simps wdone_def Let_def case_prod_beta fst_removeDevice)

lemma devices_addDevice:
  "devices_of v (fst (addDevice R ok t u d s st)) =
    (if v = u then put (device_name d) s (devices_of u (fst st)) else devices_of v (fst st))"
  by (auto simp: addDevice_def Let_def split: prod.split)

text \<open>
  The close handler takes out the entry of the user and device of the session that closes,
  not of the session itself. When a device connects again before its old connection is seen to
  end, the new session is registered, and the end of the old one removes it: the user is
  connected through an open session and no message reaches them any more.
\<close>

theorem stale_close_drops_new_session:
  assumes "devices_of u (om (srv st)) = []" "0 < u" "in_int64 u" "w1 \<noteq> w2" "is_open (api C) w2"
    and "extractUserIdFromPath (api C) (wnow x1 div 1000) path = u" "extractUserIdFromPath (api C) (wnow x2 div 1000) path = u"
  shows "let st1 = snd (on_open C x1 w1 path st); st2 = snd (on_open C x2 w2 path st1); st3 = snd (on_close C x3 w1 st2)
    in getSessions (is_open (api C)) u (om (srv st2)) = [w2] \<and> getSessions (is_open (api C)) u (om (srv st3)) = []"
proof -
  define d st1 st2 where d: "d = extractDeviceIdFromPath path" and st1: "st1 = snd (on_open C x1 w1 path st)"
    and st2: "st2 = snd (on_open C x2 w2 path st1)"
  note o1 = on_open_effect [OF assms(6,2), of w1 st] and o2 = on_open_effect [OF assms(7,2), of w2 st1]
  have "devices_of u (om (srv st1)) = [(device_name d, Some w1)]"
    using o1 assms(1) by (simp add: st1 d devices_addDevice)
  then have dev2: "devices_of u (om (srv st2)) = [(device_name d, Some w2)]"
    using o2 by (simp add: st2 d devices_addDevice)
  have "contexts st2 w1 ''userId'' = Some (to_string u)" "contexts st2 w1 ''deviceId'' = Some d"
    using o1 o2 assms(4) by (simp_all add: st1 st2 d)
  then have "om (srv (snd (on_close C x3 w1 st2))) = snd (drop_device u (device_name d) (om (srv st2)))"
    using assms(2,3) by (rule on_close_effect)
  then have "devices_of u (om (srv (snd (on_close C x3 w1 st2)))) = []"
    by (simp add: devices_of_drop dev2 erase_def)
  with dev2 show ?thesis
    unfolding Let_def st1 [symmetric] st2 [symmetric] using assms(5) by (simp add: getSessions_def usable_def)
qed

definition demo_path :: string where
  "demo_path = ''/ws?token='' @ generateWithJti demo_lib demo_mac ''k'' 100 7 ''a1'' 60"

lemma demo_path_user: "extractUserIdFromPath demo_env 150 demo_path = 7"
  unfolding demo_path_def by code_simp

theorem stale_close_drops_new_session_witness:
  "let st1 = snd (on_open demo_chat_env (demo_wsctx True) 1 demo_path demo_chat);
       st2 = snd (on_open demo_chat_env (demo_wsctx True) 2 demo_path st1);
       st3 = snd (on_close demo_chat_env (demo_wsctx True) 1 st2)
    in getSessions (\<lambda>w. True) 7 (om (srv st2)) = [2] \<and> getSessions (\<lambda>w. True) 7 (om (srv st3)) = []"
proof -
  have o: "is_open (api demo_chat_env) = (\<lambda>w. True)" by (simp add: demo_chat_env_def demo_env_def)
  have a: "api demo_chat_env = demo_env" "wnow (demo_wsctx True) = 150000" by (simp_all add: demo_chat_env_def demo_wsctx_def)
  show ?thesis
    unfolding o [symmetric]
    by (rule stale_close_drops_new_session)
       (simp_all add: o a demo_chat_def demo_server_def new_online_def devices_of_def in_int64_def demo_path_user, simp add: o flip: a)
qed

lemma token_of_ws_path: "CHR ''&'' \<notin> set token \<Longrightarrow> token_of_path (''/ws?token='' @ token) = Some token"
proof -
  assume "CHR ''&'' \<notin> set token"
  then have "find_char (CHR ''&'') token = None" by (simp add: find_char_None_iff)
  then show ?thesis by (simp add: token_of_path_def)
qed

text \<open>
  C40. The handshake checks the signature and the expiry of a token but not the blacklist: a
  token that a logout has revoked, and that every HTTP route refuses, still opens a WebSocket
  connection until it expires.
\<close>

theorem revoked_token_still_connects:
  assumes store: "expiring_store (redis_api (api C))"
    and auth: "authFromRequest (api C) x req s = Some c" "0 \<le> c_userId c" "c_jti c \<noteq> []"
    and token: "drop 7 (header req ''authorization'') = token" "CHR ''&'' \<notin> set token"
    and calls: "blackok x Acquire" "blackok x (Exec 1)"
    and live: "nowSec x < c_exp c" "c_exp c < nowSec x + 2 ^ 31"
    and later: "redisok x2 Acquire" "now x2 < 1000 * c_exp c" "wnow y = now x2"
  shows "authFromRequest (api C) x2 req (snd (handleLogout (api C) x req s)) = None
    \<and> handshake C y (''/ws?token='' @ token)"
proof -
  note r = revoked_until [OF store auth(3) calls live]
  let ?s1 = "snd (handleLogout (api C) x req s)"
  have s1: "HttpApi.store ?s1 = HttpApi.store (snd (revoke_claims (api C) x c s))"
    using auth by (simp add: handleLogout_def requireAuth_def answer_def log_audit_def case_prod_beta)
  have "exists (redis_api (api C)) (now x2) (blacklist_key (c_jti c)) (HttpApi.store ?s1)"
    unfolding s1 using r(2) [of "[]"] later(2) by simp
  then have refused: "authFromRequest (api C) x2 req ?s1 = None"
    by (rule blacklisted_refused [OF auth(1,3) refl later(1)])
  have "verifyAndParse (lib (api C)) (hmac (api C)) (secret (api C)) (nowSec x) token = Some c"
    using authFromRequest_Some [OF auth(1)] token(1) by simp
  then have "verifyAndParse (lib (api C)) (hmac (api C)) (secret (api C)) (wnow y div 1000) token = Some c"
      and "0 < c_userId c"
    using later(2,3) by (auto simp: verifyAndParse_def Let_def split: option.splits if_splits)
  then have "handshake C y (''/ws?token='' @ token)"
    unfolding handshake_def extractUserIdFromPath_def token_of_ws_path [OF token(2)]
    by (simp add: verifyToken_def verify_def)
  with refused show ?thesis by blast
qed

theorem revoked_token_still_connects_witness:
  "let token = generateWithJti demo_lib demo_mac ''k'' 100 7 ''a1'' 60; req = demo_request (''Bearer '' @ token);
       s1 = snd (handleLogout demo_env (demo_ctx 110000) req demo_server)
   in authFromRequest demo_env (demo_ctx 150000) req s1 = None
     \<and> handshake demo_chat_env (demo_wsctx True) (''/ws?token='' @ token)"
proof -
  define token where "token = generateWithJti demo_lib demo_mac ''k'' 100 7 ''a1'' 60"
  let ?c = "\<lparr>c_userId = 7, c_jti = ''a1'', c_iat = 100, c_exp = 160\<rparr>" and ?req = "demo_request (''Bearer '' @ token)"
  have v: "verifyAndParse demo_lib demo_mac ''k'' 110 token = Some ?c" "CHR ''&'' \<notin> set token"
    unfolding token_def by code_simp+
  have "token \<noteq> []" unfolding token_def by code_simp
  with v have a: "authFromRequest demo_env (demo_ctx 110000) ?req demo_server = Some ?c"
    by (simp add: authFromRequest_def demo_env_def demo_ctx_def demo_request_def demo_server_def nowSec_def
        isRevoked_def exists_def r_lookup_def empty_redis_def)
  have api: "api demo_chat_env = demo_env" by (simp add: demo_chat_env_def)
  have "authFromRequest (api demo_chat_env) (demo_ctx 150000) ?req
      (snd (handleLogout (api demo_chat_env) (demo_ctx 110000) ?req demo_server)) = None
    \<and> handshake demo_chat_env (demo_wsctx True) (''/ws?token='' @ token)"
    by (rule revoked_token_still_connects [where c = ?c])
       (use a v rs.expiring_store_axioms in
         \<open>simp_all add: api demo_request_def demo_ctx_def nowSec_def demo_wsctx_def, simp_all add: demo_env_def\<close>)
  then show ?thesis unfolding token_def [symmetric] Let_def api .
qed

section \<open>Group messages\<close>

definition mentioned :: "json \<Rightarrow> json list" where
  "mentioned j = (case jlookup j ''mentions'' of Some (JArr xs) \<Rightarrow> xs | _ \<Rightarrow> [])"

lemma accept_group:
  assumes "admissible j g msg cid st" "\<not> fst (isDuplicate (if cid = [] then generateServerMsgId (snowflake x) else cid) (recentMsgIds st))"
    and "pool x" "value_str j ''replyTo'' [] = Some replyTo"
  shows "\<exists>m st1. srv st1 = srv st \<and> handleGroupMessage C x w j from st =
    (let (fs, st2) = group_task C x w (generateServerMsgId (snowflake x)) cid from g msg replyTo m (mentioned j) st1 in wdone fs st2)"
proof -
  let ?d = "isDuplicate (if cid = [] then generateServerMsgId (snowflake x) else cid) (recentMsgIds st)"
  let ?st = "st\<lparr>recentMsgIds := snd ?d\<rparr>"
  obtain toStr m where *: "value_str j ''to'' [] = Some toStr" "toStr \<noteq> []"
      "g = stoll0 toStr" "0 < g" "value_str j ''content'' [] = Some msg" "msg \<noteq> []" "length msg \<le> 10000"
      "value_str j ''msgId'' [] = Some cid" "checkText (words ?st) msg = Some m" "rs_result m \<noteq> Block"
    using assms(1) by (auto simp: admissible_def)
  have "handleGroupMessage C x w j from st =
    (let (fs, st2) = group_task C x w (generateServerMsgId (snowflake x)) cid from g msg replyTo m (mentioned j) ?st in wdone fs st2)"
    using * assms(2-4)
    by (simp add: handleGroupMessage_def accept_message_def wfield_def Let_def case_prod_beta mentioned_def)
  moreover have "srv ?st = srv st" by simp
  ultimately show ?thesis by blast
qed

lemma items_fold_incr:
  assumes "list_store R"
  shows "items R k (fold (\<lambda>u. incr R t (f u)) us r) = items R k r"
  by (induction us arbitrary: r) (simp_all add: list_store.items_incr [OF assms])

lemma broadcast_frames: "Text v p \<in> set (broadcast C u q st) \<longleftrightarrow> p = q \<and> v \<in> set (getSessions (is_open (api C)) u (om (srv st)))"
  by (auto simp: broadcast_def broadcastToUser_def Let_def)

lemma group_task_effect:
  assumes "list_store (redis_api (api C))" "qallow x" "qredis x Acquire"
    and "group_task C x w i cid from g msg rep m ms st = (fs, st')"
  shows "sdb (srv st') = sdb (srv st) \<and> om (srv st') = om (srv st)
    \<and> fs = Text w (makeAck (lib (api C)) i cid) #
        (let mem = getMemberIds (membersok x) g (sdb (srv st))
         in group_fanout C (wnow x) from g msg i rep (mentions_of from mem ms) mem st')
    \<and> (\<exists>str. in_queue C (group_item i g from msg (wnow x) str) st')"
proof -
  have o: "om (srv (enqueue_msg C x it s)) = om (srv s)" for it s
    by (simp add: enqueue_msg_def case_prod_beta)
  show ?thesis
    using assms(4) enqueue_msg_queued [OF assms(1-3)]
    by (auto simp: group_task_def Let_def o in_queue_def items_fold_incr [OF assms(1)] split: if_splits)
qed


definition demo_group :: "redis chat" where
  "demo_group = demo_chat\<lparr>srv := demo_server\<lparr>
     sdb := empty_db\<lparr>gmembers := [(7, 3), (7, 4), (7, 5)]\<rparr>, om := (new_online True ''i1'')\<lparr>sessions := [(4, [(''d'', Some 2)])]\<rparr>\<rparr>\<rparr>"


end
