(* ===== verification/Integrity.thy ===== *)
theory Integrity
  imports ChatSafety
begin

text \<open>
  Everything that can happen to a server, as one machine: HTTP requests, WebSocket connections,
  messages and closes, and the two timers. The message tables join the tables of users, friends
  and groups in one property of the database, and every event keeps it.
\<close>

section \<open>Statements that leave the messages alone\<close>

definition msg_view :: "db \<Rightarrow> msg_row list \<times> msg_row list \<times> (string \<times> uid \<times> string) list" where
  "msg_view d = (pmsgs d, gmsgs d, reactions d)"

lemma msgs_ok_view: "msg_view d' = msg_view d \<Longrightarrow> msgs_ok d' = msgs_ok d"
  by (simp add: msg_view_def msgs_ok_def)

lemma msg_view_seq [simp]: "msg_view (d\<lparr>seq := s\<rparr>) = msg_view d" "msg_view (rollback d d') = msg_view d"
  by (simp_all add: msg_view_def rollback_def)

definition quiet :: "stmt \<Rightarrow> bool" where
  "quiet st \<longleftrightarrow> (\<forall>d. msg_view (snd (st d)) = msg_view d)"

named_theorems quiet_stmts

lemma quiet_social [quiet_stmts]:
  "quiet (ins_friend u v)" "quiet (del_friend u v)" "quiet (ins_request t u v)" "quiet (set_request_status i s)"
  "quiet (ins_group n w)" "quiet (del_group g)" "quiet (set_announcement_row g a)" "quiet (ins_member g u)"
  "quiet (ins_member_ignore g u)" "quiet (del_member g u)" "quiet (del_members g)"
  by (simp_all add: quiet_def msg_view_def ins_friend_def del_friend_def ins_request_def set_request_status_def ins_group_def
      del_group_def set_announcement_row_def ins_member_def ins_member_ignore_def del_member_def del_members_def)

lemma quiet_users [quiet_stmts]:
  "quiet (del_friends_of u)" "quiet (del_memberships_of u)" "quiet (del_requests_of u)" "quiet (del_user u)" "quiet (upd_user u f)"
  "quiet (ins_user c n p q)"
  by (simp_all add: quiet_def msg_view_def del_user_def del_requests_of_def del_memberships_of_def del_friends_of_def upd_user_def
     ins_user_def)

lemma quiet_run [simp]:
  "quiet st \<Longrightarrow> msg_view (snd (exec ok n st d)) = msg_view d"
  "quiet st \<Longrightarrow> msg_view (snd (prepared ok n st d)) = msg_view d"
  by (simp_all add: quiet_def exec_def prepared_def)

lemma quiet_tx [simp]: "msg_view (snd b) = msg_view d \<Longrightarrow> msg_view (snd (tx ok b d)) = msg_view d"
  by (simp add: tx_def case_prod_beta)

lemma quiet_services:
  "msg_view (snd (addFriend a ok d)) = msg_view d" "msg_view (snd (deleteFriend a ok d)) = msg_view d"
  "msg_view (snd (sendRequest b ok d)) = msg_view d" "msg_view (snd (handleRequest c ok d)) = msg_view d"
  "msg_view (snd (joinGroup g ok d)) = msg_view d" "msg_view (snd (leaveGroup g ok d)) = msg_view d"
  "msg_view (snd (deleteGroup g ok d)) = msg_view d" "msg_view (snd (setAnnouncement an ok d)) = msg_view d"
  "msg_view (snd (kickMember k ok d)) = msg_view d"
  by (simp_all add: addFriend_def deleteFriend_def sendRequest_def handleRequest_def joinGroup_def leaveGroup_def
      deleteGroup_def setAnnouncement_def kickMember_def case_prod_beta Let_def quiet_stmts split: option.split list.split bool.split)

lemma quiet_user_services:
  "msg_view (snd (updateProfile pr ok d)) = msg_view d" "msg_view (snd (changePassword P cp ok d)) = msg_view d"
  "msg_view (snd (deleteAccount P da ok d)) = msg_view d" "msg_view (snd (registerUser cl P ru ok d)) = msg_view d"
  "msg_view (snd (createGroupLegacy cg ok d)) = msg_view d"
  by (simp_all add: updateProfile_def changePassword_def deleteAccount_def registerUser_def createGroupLegacy_def
      case_prod_beta Let_def quiet_stmts split: option.split list.split bool.split)

interpretation cgm: saga_invariant msgs_ok "create_steps lastError" for lastError
proof unfold_locales
  show "msgs_ok (snd (upd_saga sid f d)) = msgs_ok d" for sid f d
    by (simp add: upd_saga_def msgs_ok_def)
next
  fix st d ok cx
  assume st: "st \<in> set (create_steps lastError)" and "msgs_ok d"
  moreover have "msg_view (result_db (st_forward st ok cx d)) = msg_view d"
    using st by (auto simp: create_steps_def step1_forward_def step2_forward_def case_prod_beta Let_def quiet_stmts split: option.split)
  ultimately show "msgs_ok (result_db (st_forward st ok cx d)) \<and> msgs_ok (rollback d (result_db (st_forward st ok cx d)))"
    using msgs_ok_view msgs_ok_view [OF msg_view_seq(2)] by blast
next
  fix st d ok cx
  assume "st \<in> set (create_steps lastError)"
  then show "cx_step (result_ctx (st_forward st ok cx d)) = cx_step cx"
    by (rule cg.fwd_step)
next
  fix st g d ok cx
  assume st: "st \<in> set (create_steps lastError)" "st_compensate st = Some g" and "msgs_ok d"
  moreover have "msg_view (result_db (g ok cx d)) = msg_view d"
    using st by (auto simp: create_steps_def step1_compensate_def step2_compensate_def case_prod_beta Let_def quiet_stmts split: option.split)
  ultimately show "msgs_ok (result_db (g ok cx d)) \<and> msgs_ok (rollback d (result_db (g ok cx d)))"
    using msgs_ok_view msgs_ok_view [OF msg_view_seq(2)] by blast
qed

definition data_ok :: "db \<Rightarrow> bool" where
  "data_ok d \<longleftrightarrow> social_ok d \<and> msgs_ok d"

lemma createGroup_msgs:
  assumes "coord = None \<or> coord = Some (registerCreateGroupSaga le Map.empty)" "msgs_ok d"
  shows "msgs_ok (snd (createGroup L coord oS oX oR newId w n d))"
proof (rule createGroup_inv [OF cgm.saga_invariant_axioms _ _ assms])
  show "msgs_ok (snd (createGroupLegacy a ok d'))" if "msgs_ok d'" for a ok d'
    using that by (simp add: quiet_user_services [THEN msgs_ok_view])
  show "msgs_ok (snd (ins_saga i ty p d'))" if "msgs_ok d'" for i ty p d'
    using that by (simp add: ins_saga_def msgs_ok_def)
qed

interpretation messages: service_invariant msgs_ok
  by unfold_locales
     (simp_all add: quiet_services [THEN msgs_ok_view] quiet_user_services [THEN msgs_ok_view] createGroup_msgs)

interpretation data: service_invariant data_ok
  by unfold_locales (simp_all add: data_ok_def service_invs createGroup_social messages.friend_services
    messages.group_services messages.group_creation messages.user_services)

section \<open>Statements on messages\<close>

definition social_view :: "db \<Rightarrow> (user_row list \<times> (uid \<times> uid) list \<times> request_row list) \<times> (group_row list \<times> (int \<times> uid) list) \<times> int \<times> int \<times> int" where
  "social_view d = ((users d, friends d, requests d), (grps d, gmembers d),
     next_user (seq d), next_request (seq d), next_group (seq d))"

lemma social_ok_view: "social_view d' = social_view d \<Longrightarrow> social_ok d' = social_ok d"
  by (simp add: social_view_def social_ok_def db_ok_defs has_user_def has_group_def)

lemma social_view_upd [simp]:
  "social_view (set_table k rows d) = social_view d" "social_view (d\<lparr>edits := e\<rparr>) = social_view d"
  "social_view (d\<lparr>reactions := r\<rparr>) = social_view d"
  by (simp_all add: social_view_def set_table_def)

lemma social_view_rollback: "social_view d' = social_view d \<Longrightarrow> social_view (rollback d d') = social_view d"
  by (simp add: social_view_def rollback_def)

definition message_stmt :: "stmt \<Rightarrow> bool" where
  "message_stmt st \<longleftrightarrow> (\<forall>d. social_view (snd (st d)) = social_view d)"

lemma message_stmts:
  "message_stmt (ins_msg k r)" "message_stmt (upd_msgs k P f)" "message_stmt (ins_reaction i u e)" "message_stmt (del_reaction i u e)"
  "message_stmt (ins_edit x)" "message_stmt (ins_outbox t tp k' pl)"
  by (simp_all add: message_stmt_def ins_msg_def upd_msgs_def ins_reaction_def del_reaction_def ins_edit_def ins_outbox_def)
     (simp add: social_view_def)

lemma message_run [simp]:
  "message_stmt st \<Longrightarrow> social_view (snd (exec ok n st d)) = social_view d"
  "message_stmt st \<Longrightarrow> social_view (snd (prepared ok n st d)) = social_view d"
  by (simp_all add: message_stmt_def exec_def prepared_def)

lemma message_tx: "social_view (snd b) = social_view d \<Longrightarrow> social_view (snd (tx ok b d)) = social_view d"
  by (simp add: tx_def case_prod_beta social_view_rollback)

lemma message_services:
  "social_view (snd (savePrivateMessage ok i f t c ts d)) = social_view d"
  "social_view (snd (saveGroupMessage ok i g f c ts ms d)) = social_view d"
  "social_view (snd (snd (toggleReaction ok i u e d))) = social_view d"
  "social_view (snd (snd (editMessage ok nw i u b k d))) = social_view d"
  "social_view (snd (recallMessage ok nw i u d)) = social_view d"
  "social_view (snd (persistOutbox dump ok i f t c ts d)) = social_view d"
  by (simp_all add: savePrivateMessage_def savePrivateMessageTx_def saveGroupMessage_def toggleReaction_def editMessage_def
      recallMessage_def persistOutbox_def insertOutbox_def case_prod_beta Let_def message_stmts message_tx social_view_rollback
      split: option.split)

lemma recall_msgs_ok: "msgs_ok d \<Longrightarrow> msgs_ok (snd (recallMessage ok nw i u d))"
  by (simp add: recallMessage_def exec_def case_prod_beta Let_def upd_msgs_ok)

lemma persist_msgs_ok:
  assumes "msgs_ok d"
  shows "msgs_ok (snd (persistOutbox dump ok i f t c ts d))"
proof -
  obtain r d' where p: "persistOutbox dump ok i f t c ts d = (r, d')" by (metis surj_pair)
  show ?thesis
    using persistOutbox_spec [OF p] assms unchanged_msgs_ok [of d d']
    by (cases r) (auto simp: p ins_outbox_def msgs_ok_def)
qed

lemma data_services:
  assumes "data_ok d"
  shows "data_ok (snd (savePrivateMessage ok i f t c ts d))" "data_ok (snd (saveGroupMessage ok i g f c ts ms d))"
    "data_ok (snd (snd (toggleReaction ok i u e d)))" "data_ok (snd (snd (editMessage ok nw i u b k d)))"
    "data_ok (snd (recallMessage ok nw i u d))" "data_ok (snd (persistOutbox dump ok i f t c ts d))"
    "data_ok (snd (exec ok n (mark_delivered i u nw) d))" "data_ok (snd (exec ok n (count_delivered i) d))"
proof -
  have d: "social_ok d" "msgs_ok d" using assms by (simp_all add: data_ok_def)
  note view = message_services [THEN social_ok_view]
  show "data_ok (snd (savePrivateMessage ok i f t c ts d))" "data_ok (snd (saveGroupMessage ok i g f c ts ms d))"
    "data_ok (snd (snd (toggleReaction ok i u e d)))" "data_ok (snd (snd (editMessage ok nw i u b k d)))"
    "data_ok (snd (recallMessage ok nw i u d))" "data_ok (snd (persistOutbox dump ok i f t c ts d))"
    by (simp_all add: data_ok_def view d save_msgs_ok toggle_msgs_ok edit_msgs_ok recall_msgs_ok persist_msgs_ok)
  have "social_ok (snd (exec ok n (upd_msgs k P h) d)) = social_ok d" for k P h
    by (rule social_ok_view) (simp add: message_stmts)
  then show "data_ok (snd (exec ok n (mark_delivered i u nw) d))" "data_ok (snd (exec ok n (count_delivered i) d))"
    using d by (simp_all add: data_ok_def mark_delivered_def count_delivered_def) (simp_all add: exec_def upd_msgs_ok)
qed

lemma data_save_item: "data_ok d \<Longrightarrow> data_ok (snd (save_item ok j d))"
  by (auto simp: save_item_def case_prod_beta Let_def data_services split: option.split)

lemma data_direct: "data_ok d \<Longrightarrow> data_ok (directSaveMessage L ok m d)"
  by (simp add: directSaveMessage_def data_save_item split: option.split)

lemma data_queue: "data_ok (snd st) \<Longrightarrow> data_ok (snd (queueMessage L R al rok dok m st))"
  by (auto simp: queueMessage_def case_prod_beta Let_def data_direct)

lemma data_flush_one: "data_ok d \<Longrightarrow> data_ok (snd (flush_one L oks m d))"
  by (auto simp: flush_one_def split: option.split prod.split) (metis data_save_item snd_conv)+

lemma data_flush_batch: "data_ok d \<Longrightarrow> data_ok (snd (flush_batch L oks ms d))"
proof -
  have "data_ok d \<Longrightarrow> data_ok (snd (foldl (\<lambda>((good, bad), d) m. case flush_one L oks m d of
      (True, d') \<Rightarrow> ((good + 1, bad), d') | (False, d') \<Rightarrow> ((good, bad + 1), d')) (n, d) ms))" for n :: "nat \<times> nat"
    by (induction ms arbitrary: n d) (auto simp: case_prod_beta data_flush_one split: bool.split)
  then show "data_ok d \<Longrightarrow> ?thesis" by (simp add: flush_batch_def)
qed

lemma data_flush: "data_ok (snd st) \<Longrightarrow> data_ok (snd (snd (flushMessageQueue L R al rok oks st)))"
  by (auto simp: flushMessageQueue_def case_prod_beta Let_def data_flush_batch)

section \<open>WebSocket events\<close>

definition chat_ok :: "'r chat \<Rightarrow> bool" where
  "chat_ok st \<longleftrightarrow> server_inv data_ok (srv st)"

lemma chat_ok_data: "chat_ok st \<Longrightarrow> data_ok (sdb (srv st))"
  by (simp add: chat_ok_def server_inv_def)

lemma chat_ok_upd [simp]:
  "chat_ok (st\<lparr>recentMsgIds := x1\<rparr>) = chat_ok st" "chat_ok (st\<lparr>words := x2\<rparr>) = chat_ok st" "chat_ok (st\<lparr>modlog := x3\<rparr>) = chat_ok st"
  "chat_ok (st\<lparr>contexts := x4\<rparr>) = chat_ok st" "chat_ok (with_store r st) = chat_ok st"
  "chat_ok (st\<lparr>srv := (srv st)\<lparr>trail := t\<rparr>\<rparr>) = chat_ok st"
  by (simp_all add: chat_ok_def with_store_def)

lemma keep_db: "chat_ok st \<Longrightarrow> data_ok d \<Longrightarrow> chat_ok (with_db d st)"
  by (simp add: chat_ok_def with_db_def data.upd_sdb)

lemma keep_done: "chat_ok st \<Longrightarrow> chat_ok (snd (wdone fs st))"
  by (simp add: wdone_def)

lemma keep_wfield: "chat_ok st \<Longrightarrow> (\<And>v. chat_ok (snd (k v))) \<Longrightarrow> chat_ok (snd (wfield f st k))"
  by (simp add: wfield_def split: option.split)

lemma keep_log: "chat_ok (log_mod x u m r st) = chat_ok st"
  by (simp add: log_mod_def)

lemma keep_flush: "chat_ok st \<Longrightarrow> chat_ok (flush C x st)"
  using data_flush [of "(store (srv st), sdb (srv st))"] by (simp add: flush_def case_prod_beta keep_db chat_ok_data)

lemma keep_enqueue: "chat_ok st \<Longrightarrow> chat_ok (enqueue_msg C x it st)"
  using data_queue [of "(store (srv st), sdb (srv st))"] by (simp add: enqueue_msg_def case_prod_beta keep_db chat_ok_data)

lemma keep_absent: "chat_ok st \<Longrightarrow> chat_ok (notify_absent C x i f t m p st)"
  by (simp add: notify_absent_def case_prod_beta Let_def)

lemma keep_persist: "chat_ok st \<Longrightarrow> chat_ok (snd (persist_private C x i f t m st))"
  by (auto simp: persist_private_def case_prod_beta Let_def data_services chat_ok_data intro!: keep_db keep_enqueue)

lemmas ws_keeps = keep_done keep_wfield keep_db keep_flush keep_enqueue keep_absent keep_persist

lemma keep_accept:
  assumes "chat_ok st" "\<And>g m r i c v st1. chat_ok st1 \<Longrightarrow> chat_ok (snd (k g m r i c v st1))"
  shows "chat_ok (snd (accept_message C x w j rej bl st k))"
  using assms unfolding accept_message_def Let_def case_prod_beta
  by (auto intro!: keep_wfield keep_done split: option.split)

lemma keep_private: "chat_ok st \<Longrightarrow> chat_ok (snd (handlePrivateMessage C x w j u st))"
  unfolding handlePrivateMessage_def
  by (rule keep_accept)
     (auto simp: private_task_def case_prod_beta Let_def keep_log intro!: ws_keeps)

lemma keep_group: "chat_ok st \<Longrightarrow> chat_ok (snd (handleGroupMessage C x w j u st))"
  unfolding handleGroupMessage_def
  by (rule keep_accept)
     (auto simp: group_task_def case_prod_beta Let_def keep_log intro!: ws_keeps)

lemma keep_file: "chat_ok st \<Longrightarrow> chat_ok (snd (handleFileMessage C x w j u st))"
  by (auto simp: handleFileMessage_def Let_def data_services chat_ok_data intro!: ws_keeps)

lemma keep_recall: "chat_ok st \<Longrightarrow> chat_ok (snd (handleRecall C x w j u st))"
  by (auto simp: handleRecall_def case_prod_beta Let_def intro!: ws_keeps data_services chat_ok_data)

lemma keep_edit: "chat_ok st \<Longrightarrow> chat_ok (snd (handleEdit C x w j u st))"
  by (auto simp: handleEdit_def case_prod_beta Let_def intro!: ws_keeps data_services chat_ok_data)

lemma keep_reaction: "chat_ok st \<Longrightarrow> chat_ok (snd (handleReaction C x w j u st))"
  by (auto simp: handleReaction_def case_prod_beta Let_def intro!: ws_keeps data_services chat_ok_data split: option.split)

lemma keep_client_ack: "chat_ok st \<Longrightarrow> chat_ok (snd (handleClientAck C x w j u st))"
  by (auto simp: handleClientAck_def case_prod_beta Let_def intro!: ws_keeps data_services chat_ok_data split: option.split)

lemma keep_read_ack: "chat_ok st \<Longrightarrow> chat_ok (snd (handleReadAck C x w j u st))"
  by (auto simp: handleReadAck_def Let_def intro!: ws_keeps)

lemma keep_typing: "chat_ok st \<Longrightarrow> chat_ok (snd (handleTyping C x w j u st))"
  by (auto simp: handleTyping_def Let_def intro!: ws_keeps)

lemmas keep_handlers = keep_private keep_group keep_file keep_recall keep_edit keep_reaction keep_client_ack keep_read_ack keep_typing

lemma keep_dispatch:
  assumes "map_of dispatch_table ty = Some h" "chat_ok st"
  shows "chat_ok (snd (h C x w j u st))"
  using assms by (auto simp: dispatch_table_def keep_handlers split: if_splits)

lemma keep_message: "chat_ok st \<Longrightarrow> chat_ok (snd (on_message C x w t st))"
  by (auto simp: on_message_def Let_def intro!: keep_done keep_wfield dest: keep_dispatch split: option.split)

lemma keep_om:
  assumes "chat_ok st" "om_ok a"
  shows "chat_ok (st\<lparr>srv := (srv st)\<lparr>om := a, store := r\<rparr>\<rparr>)"
  using assms by (simp add: chat_ok_def server_inv_def)

lemma chat_ok_om: "chat_ok st \<Longrightarrow> om_ok (om (srv st))"
  by (simp add: chat_ok_def server_inv_def)

lemma keep_open:
  assumes st: "chat_ok st"
  shows "chat_ok (snd (on_open C x w path st))"
proof -
  have "om_ok (fst (addDevice R ok t u d s (om (srv st), store (srv st))))" for R ok t u d s
    using om_step_ok [of "(om (srv st), store (srv st))" _ R "((t, ok), Opened u d s)"] chat_ok_om [OF st] by simp
  with st show ?thesis
    unfolding on_open_def Let_def case_prod_beta
    by (auto simp: wdone_def keep_om split: option.split)
qed

lemma keep_close:
  assumes st: "chat_ok st"
  shows "chat_ok (snd (on_close C x w st))"
proof -
  have "om_ok (fst (removeDevice R ok u d (om (srv st), store (srv st))))" for R ok u d
    using om_step_ok [of "(om (srv st), store (srv st))" _ R "((0, ok), Closed u d)"] chat_ok_om [OF st] by simp
  with st show ?thesis
    unfolding on_close_def Let_def case_prod_beta
    by (auto simp: wdone_def keep_om)
qed

section \<open>The whole server\<close>

text \<open>
  The events of the process: a request, the WebSocket callbacks, and the timers of
  \<^verbatim>\<open>ChatServer::start\<close> that store queued messages and renew the keys of those online.
\<close>

datatype event = Http route reqctx request | WsOpen wsctx wsid string | WsText wsctx wsid "string option"
  | WsClose wsctx wsid | FlushTimer wsctx | RefreshTimer ms "uid \<Rightarrow> outcome"

fun event_step :: "'r chat_env \<Rightarrow> 'r chat \<Rightarrow> event \<Rightarrow> 'r chat" where
  "event_step C st (Http rt x req) = st\<lparr>srv := snd (route_handler rt (api C) x req (srv st))\<rparr>"
| "event_step C st (WsOpen x w path) = snd (on_open C x w path st)"
| "event_step C st (WsText x w t) = snd (on_message C x w t st)"
| "event_step C st (WsClose x w) = snd (on_close C x w st)"
| "event_step C st (FlushTimer x) = flush C x st"
| "event_step C st (RefreshTimer t oks) =
     (let (o', r') = refresh_round (redis_api (api C)) (is_open (api C)) oks t (om (srv st), store (srv st))
      in st\<lparr>srv := (srv st)\<lparr>om := o', store := r'\<rparr>\<rparr>)"

lemma event_step_ok:
  assumes "saga_setup (api C)" "chat_ok st"
  shows "chat_ok (event_step C st e)"
proof (cases e)
  case (Http rt x req)
  with assms show ?thesis by (simp add: chat_ok_def data.keep_route)
next
  case (RefreshTimer t oks)
  have "om_ok (fst (refresh_round R opn oks t (om (srv st), store (srv st))))" for R opn
    using chat_ok_om [OF assms(2)] by (simp add: refresh_round_def)
  with RefreshTimer assms(2) show ?thesis by (simp add: case_prod_beta keep_om)
qed (use assms(2) in \<open>simp_all add: keep_open keep_message keep_close keep_flush\<close>)

text \<open>A server that has just started.\<close>

definition new_server :: "bool \<Rightarrow> string \<Rightarrow> 'r \<Rightarrow> 'r server" where
  "new_server redis inst r = \<lparr>sdb = empty_db, store = r, om = new_online redis inst, tries = Map.empty, trail = [], devs = []\<rparr>"

definition new_chat :: "bool \<Rightarrow> string \<Rightarrow> 'r \<Rightarrow> 'r chat" where
  "new_chat redis inst r = \<lparr>srv = new_server redis inst r, recentMsgIds = [], words = new_moderation, modlog = [],
     contexts = (\<lambda>w. Map.empty)\<rparr>"

lemma new_chat_ok: "chat_ok (new_chat redis inst r)"
  by (simp add: chat_ok_def server_inv_def new_chat_def new_server_def data_ok_def social_ok_def msgs_ok_def db_ok_defs empty_db_def
      om_ok_def new_online_def devices_ok_def device_keys_def)

text \<open>The environment with the coordinator as the server sets it up, or without.\<close>

definition with_sagas :: "string option \<Rightarrow> 'r chat_env \<Rightarrow> 'r chat_env" where
  "with_sagas le C = C\<lparr>api := (api C)\<lparr>saga := map_option (\<lambda>e. registerCreateGroupSaga e Map.empty) le\<rparr>\<rparr>"

lemma with_sagas_setup: "saga_setup (api (with_sagas le C))"
  by (cases le) (auto simp: saga_setup_def with_sagas_def)

interpretation server: inv_machine "new_chat redis inst r" "event_step (with_sagas le C)" chat_ok for redis inst r le C
  by unfold_locales (simp_all add: new_chat_ok event_step_ok with_sagas_setup)

end
