(* ===== verification/Pipeline.thy ===== *)
theory Pipeline
  imports Chat "HOL-Library.Sublist"
begin

text \<open>
  The consumers of the Kafka topics: the persister (\<^verbatim>\<open>persister/main.cpp\<close>), which stores every
  message of \<^verbatim>\<open>im.messages\<close> once more, the router (\<^verbatim>\<open>push_router/main.cpp\<close>), which turns the
  messages into push commands on \<^verbatim>\<open>im.push.commands\<close>, and the subscription of
  \<^verbatim>\<open>server/ChatServer.h\<close>, which delivers the commands to the sessions of the instance.
  A callback gives back whether the offset is committed; an exception is \<open>None\<close>.
\<close>

section \<open>The persister\<close>

text \<open>\<^verbatim>\<open>INSERT ... ON DUPLICATE KEY UPDATE id=id\<close>.\<close>

definition upsert_msg :: "int \<Rightarrow> msg_row \<Rightarrow> stmt" where
  "upsert_msg kind r d =
     (if list_ex (\<lambda>x. m_msg_id x = m_msg_id r) (Messages.table kind d) then (0, d) else ins_msg kind r d)"

definition persistPrivate :: "outcome \<Rightarrow> json \<Rightarrow> db \<Rightarrow> bool option \<times> db" where
  "persistPrivate ok j d =
     (if \<not> ok Acquire \<or> \<not> ok (Prepare 1) then (Some False, d)
      else case (value_str j ''msgId'' [], value_int j ''from'' 0, value_int j ''to'' 0, value_str j ''content'' [],
                 value_int j ''timestamp'' 0) of
             (Some i, Some f, Some t, Some c, Some ts) \<Rightarrow>
               (let (r, d') = prepared ok 1 (upsert_msg 0 (new_msg i f t c ts None)) d in (Some (r \<ge> 0), d'))
           | _ \<Rightarrow> (None, d))"

definition persistGroup :: "outcome \<Rightarrow> json \<Rightarrow> db \<Rightarrow> bool option \<times> db" where
  "persistGroup ok j d =
     (if \<not> ok Acquire then (Some False, d)
      else case value_str j ''mentions'' [] of
             None \<Rightarrow> (None, d)
           | Some mentions \<Rightarrow>
             if \<not> ok (Prepare 1) then (Some False, d)
             else case (value_str j ''msgId'' [], value_int j ''groupId'' 0, value_int j ''from'' 0, value_str j ''content'' [],
                        value_int j ''timestamp'' 0) of
                    (Some i, Some g, Some f, Some c, Some ts) \<Rightarrow>
                      (let (r, d') = prepared ok 1 (upsert_msg 1 (new_msg i f g c ts
                             (if mentions = [] then None else Some mentions))) d in (Some (r \<ge> 0), d'))
                  | _ \<Rightarrow> (None, d))"

definition persist_record :: "jlib \<Rightarrow> outcome \<Rightarrow> string \<Rightarrow> db \<Rightarrow> bool option \<times> db" where
  "persist_record L ok v d =
     (case lib_parse L v of
        None \<Rightarrow> (Some True, d)
      | Some j \<Rightarrow>
        (case value_str j ''type'' [] of
           None \<Rightarrow> (None, d)
         | Some ty \<Rightarrow>
           if ty = ''private'' then persistPrivate ok j d
           else if ty = ''group'' then persistGroup ok j d
           else (map_option (\<lambda>i. True) (value_str j ''msgId'' []), d)))"

section \<open>The router\<close>

text \<open>Whether the text was bad JSON and the commands with their keys; \<open>None\<close> when reading a member throws.\<close>

definition push_command :: "uid \<Rightarrow> json \<Rightarrow> json" where
  "push_command u frame = obj [(''type'', JStr ''push''), (''targetUid'', JStr (to_string u)), (''payload'', frame)]"

definition route :: "jlib \<Rightarrow> string \<Rightarrow> (bool \<times> (string \<times> string) list) option" where
  "route L payload =
     (case lib_parse L payload of
        None \<Rightarrow> Some (True, [])
      | Some j \<Rightarrow>
        (case (value_str j ''type'' [], value_str j ''msgId'' [], value_int j ''timestamp'' 0, value_str j ''content'' []) of
           (Some ty, Some msgId, Some ts, Some c) \<Rightarrow>
             if ty \<noteq> ''private'' then Some (False, [])
             else
               (case value_int j ''to'' 0 of
                  None \<Rightarrow> None
                | Some t \<Rightarrow>
                  if t = 0 then Some (False, [])
                  else
                    (case value_int j ''from'' 0 of
                       None \<Rightarrow> None
                     | Some f \<Rightarrow>
                       Some (False, [(to_string t, lib_dump L (push_command t
                         (obj [(''msgId'', JStr msgId), (''timestamp'', JInt ts), (''content'', JStr c), (''type'', JStr ''msg''),
                           (''from'', JStr (to_string f)), (''to'', JStr (to_string t))])))])))
         | _ \<Rightarrow> None))"

text \<open>The callback of \<^verbatim>\<open>runAtLeastOnce\<close>: the commands that were queued; the offset is always committed.\<close>

definition route_record :: "jlib \<Rightarrow> (nat \<Rightarrow> bool) \<Rightarrow> string \<Rightarrow> (bool \<times> (string \<times> string) list) option" where
  "route_record L queued v =
     map_option (\<lambda>(bad, os). (True, map snd (filter (\<lambda>p. queued (fst p)) (enumerate 0 os)))) (route L v)"

section \<open>The subscription of a server\<close>

definition on_push_command :: "'r chat_env \<Rightarrow> string \<Rightarrow> 'r chat \<Rightarrow> frame list option" where
  "on_push_command C v st =
     (case lib_parse (lib (api C)) v of
        None \<Rightarrow> Some []
      | Some cmd \<Rightarrow>
        (case value_str cmd ''targetUid'' [] of
           None \<Rightarrow> None
         | Some t \<Rightarrow>
           if t = [] then Some []
           else case stoll t of
                  None \<Rightarrow> Some []
                | Some u \<Rightarrow> Some (broadcast C u (lib_dump (lib (api C))
                    (case jlookup cmd ''payload'' of Some p \<Rightarrow> p | None \<Rightarrow> JNull)) st)))"

section \<open>From the outbox to the sessions\<close>

lemma frame_same:
  "obj [(''msgId'', JStr i), (''timestamp'', JInt ts), (''content'', JStr c), (''type'', JStr ''msg''),
     (''from'', JStr f), (''to'', JStr t)] =
   obj [(''type'', JStr ''msg''), (''from'', JStr f), (''to'', JStr t),
     (''content'', JStr c), (''msgId'', JStr i), (''timestamp'', JInt ts)]"
  by (simp add: obj_def)

lemma routed_payload:
  assumes "lib_parse L (lib_dump L (kafkaPayload i f t c ts)) = Some (kafkaPayload i f t c ts)" "t \<noteq> 0"
  shows "route L (lib_dump L (kafkaPayload i f t c ts)) =
    Some (False, [(to_string t, lib_dump L (push_command t (private_fwd f t c i ts [])))])"
  using assms by (simp add: route_def kafkaPayload_def private_fwd_def frame_same)

lemma pushed_command:
  assumes "lib_parse (lib (api C)) (lib_dump (lib (api C)) (push_command t fr)) = Some (push_command t fr)" "in_int64 t"
  shows "on_push_command C (lib_dump (lib (api C)) (push_command t fr)) st = Some (broadcast C t (lib_dump (lib (api C)) fr) st)"
  using assms by (simp add: on_push_command_def push_command_def stoll_to_string)


section \<open>The persister stores every message once\<close>

definition persist_run :: "jlib \<Rightarrow> (outcome \<times> string) list \<Rightarrow> db \<Rightarrow> db" where
  "persist_run L rs d = foldl (\<lambda>d (ok, v). snd (persist_record L ok v d)) d rs"

text \<open>\<open>grows d d'\<close>: rows were only added to the two tables, and their identifiers are unique if they were.\<close>

definition grows :: "db \<Rightarrow> db \<Rightarrow> bool" where
  "grows d d' \<longleftrightarrow> (\<forall>k. prefix (Messages.table k d) (Messages.table k d')) \<and> (msgs_ok d \<longrightarrow> msgs_ok d')"

lemma grows_refl [simp]: "grows d d"
  by (simp add: grows_def)

lemma grows_trans: "grows d d' \<Longrightarrow> grows d' d'' \<Longrightarrow> grows d d''"
  by (auto simp: grows_def intro: prefix_order.trans)

lemma upsert_grows: "grows d (snd (prepared ok n (upsert_msg k r) d))"
proof -
  have "msgs_ok d \<Longrightarrow> msgs_ok (snd (ins_msg k r d))" by (rule ins_msg_ok)
  moreover have "prefix (Messages.table k' d) (Messages.table k' (snd (ins_msg k r d)))" for k'
    by (auto simp: ins_msg_def set_table_def Messages.table_def)
  ultimately show ?thesis by (auto simp: prepared_def upsert_msg_def grows_def)
qed

lemma persist_record_grows: "grows d (snd (persist_record L ok v d))"
  unfolding persist_record_def persistPrivate_def persistGroup_def
  by (auto simp: case_prod_beta Let_def upsert_grows split: option.split)

lemma persist_run_grows: "grows d (persist_run L rs d)"
proof (induction rs arbitrary: d)
  case (Cons a rs)
  then show ?case
    using persist_record_grows [of d L "fst a" "snd a"] grows_trans by (auto simp: persist_run_def case_prod_beta)
qed (simp add: persist_run_def)

lemma upsert_row:
  assumes "prepared ok n (upsert_msg 0 (new_msg i f t c ts m)) d = (r, d')" "0 \<le> r"
  shows "\<exists>x \<in> set (pmsgs d'). m_msg_id x = i"
  using assms
  by (auto simp: prepared_def upsert_msg_def ins_msg_def new_msg_id list_ex_iff Messages.table_def set_table_def split: if_splits)

lemma one_row: "distinct (map m_msg_id rows) \<Longrightarrow> \<exists>x \<in> set rows. m_msg_id x = i \<Longrightarrow> length (filter (\<lambda>x. m_msg_id x = i) rows) = 1"
  by (induction rows) (auto simp: filter_empty_conv image_iff)

text \<open>
  C13. The topic may deliver a message any number of times and in any order, and calls to the
  database may fail: once the persister has committed the offset of a message, its table has
  exactly one row with the identifier of the message, and no later delivery, of this message or
  of another, takes it away, adds a second one or changes what was stored before.
\<close>

theorem persister_stores_once:
  assumes "msgs_ok d" "lib_parse L (lib_dump L (kafkaPayload i f t c ts)) = Some (kafkaPayload i f t c ts)"
    and "persist_record L ok (lib_dump L (kafkaPayload i f t c ts)) (persist_run L before d) = (Some True, d1)"
  shows "length (filter (\<lambda>x. m_msg_id x = i) (pmsgs (persist_run L after d1))) = 1 \<and> prefix (pmsgs d) (pmsgs (persist_run L after d1))"
proof -
  have "\<exists>x \<in> set (pmsgs d1). m_msg_id x = i"
    using assms(2,3) upsert_row
    by (auto simp: persist_record_def kafkaPayload_def persistPrivate_def split: if_splits prod.splits)
  moreover have "grows d d1"
    using grows_trans [OF persist_run_grows persist_record_grows] assms(3) by (metis snd_conv)
  then have g: "grows d (persist_run L after d1)" "grows d1 (persist_run L after d1)"
    using grows_trans persist_run_grows by blast+
  moreover have p: "prefix (pmsgs e) (pmsgs e')" if "grows e e'" for e e'
    using that by (auto simp: grows_def Messages.table_def dest: spec [of _ 0])
  ultimately have "\<exists>x \<in> set (pmsgs (persist_run L after d1)). m_msg_id x = i"
    using set_mono_prefix by blast
  moreover have "distinct (map m_msg_id (pmsgs (persist_run L after d1)))"
    using g(1) assms(1) by (simp add: grows_def msgs_ok_def)
  ultimately show ?thesis using one_row p g(1) by blast
qed

text \<open>A library that knows two values.\<close>

definition demo_payload :: json where
  "demo_payload = kafkaPayload ''7'' 1 2 ''hi'' 5"

definition demo_command :: json where
  "demo_command = push_command 2 (private_fwd 1 2 ''hi'' ''7'' 5 [])"

definition pair_lib :: jlib where
  "pair_lib = \<lparr>lib_dump = (\<lambda>j. if j = demo_payload then ''k'' else if j = demo_command then ''p'' else ''f''),
     lib_parse = (\<lambda>s. if s = ''k'' then Some demo_payload else if s = ''p'' then Some demo_command else None)\<rparr>"

lemma pair_lib_reads:
  "lib_parse pair_lib (lib_dump pair_lib demo_payload) = Some demo_payload"
  "lib_parse pair_lib (lib_dump pair_lib demo_command) = Some demo_command"
proof -
  have "demo_payload \<noteq> demo_command" by code_simp
  then show "lib_parse pair_lib (lib_dump pair_lib demo_payload) = Some demo_payload"
    "lib_parse pair_lib (lib_dump pair_lib demo_command) = Some demo_command"
    by (auto simp: pair_lib_def)
qed

theorem persister_stores_once_witness:
  "length (filter (\<lambda>x. m_msg_id x = ''7'') (pmsgs (persist_run pair_lib [(\<lambda>c. True, ''k'')]
     (snd (persist_record pair_lib (\<lambda>c. True) ''k'' empty_db))))) = 1"
proof -
  have k: "lib_dump pair_lib (kafkaPayload ''7'' 1 2 ''hi'' 5) = ''k''"
    by (simp add: pair_lib_def demo_payload_def)
  have "persist_record pair_lib (\<lambda>c. True) ''k'' (persist_run pair_lib [] empty_db)
      = (Some True, snd (persist_record pair_lib (\<lambda>c. True) ''k'' empty_db))"
    by (simp add: persist_record_def pair_lib_def demo_payload_def kafkaPayload_def persist_run_def persistPrivate_def
        prepared_def upsert_msg_def ins_msg_def Messages.table_def empty_db_def)
  then show ?thesis
    using persister_stores_once [of empty_db pair_lib "''7''" 1 2 "''hi''" 5 "\<lambda>c. True" "[]"] pair_lib_reads(1)
    unfolding k by (simp add: msgs_ok_def empty_db_def k demo_payload_def)
qed


end
