(* ===== verification/PushRouter.thy ===== *)
theory PushRouter
  imports Pipeline
begin

text \<open>
  The transactional mode of \<^verbatim>\<open>push_router/main.cpp\<close> (\<^verbatim>\<open>runTransactional\<close>): one turn of its loop. The
  Kafka client is outside the repository, so its calls are an argument, and what is used of
  them is the documented behaviour of a transactional client, the laws of the locale below, stated on
  what can be seen of the two topics: the partition that is read (\<open>input\<close>), the client's own
  position in it, the offset committed for the group, the records and the offset of the open
  transaction, and the records a read-committed consumer of \<^verbatim>\<open>im.push.commands\<close> sees (\<open>visible\<close>).
  Whether a call succeeds is the input of the turn.
\<close>

section \<open>The Kafka client\<close>

type_synonym krecord = "string \<times> string"

record klog =
  input :: "string list"
  position :: nat
  committed :: nat
  tx_records :: "krecord list"
  tx_offset :: "nat option"
  visible :: "krecord list"

definition fresh_log :: "string list \<Rightarrow> klog" where
  "fresh_log msgs = \<lparr>input = msgs, position = 0, committed = 0, tx_records = [], tx_offset = None, visible = []\<rparr>"

record 'k kafka_ops =
  view :: "'k \<Rightarrow> klog"
  next_msg :: "'k \<Rightarrow> (string \<times> 'k) option"
  produce :: "krecord \<Rightarrow> 'k \<Rightarrow> 'k"
  send_offsets :: "'k \<Rightarrow> 'k"
  commit_tx :: "'k \<Rightarrow> 'k"
  abort_tx :: "'k \<Rightarrow> 'k"
  rejoin :: "'k \<Rightarrow> 'k"

text \<open>
  What a transactional client documents: a commit makes the records of the transaction
  visible together with the offset sent with them; an abort drops both and leaves the position of the
  consumer where it is; a client that joins again has no open transaction and reads on from the
  committed offset.
\<close>

definition k_send_offsets :: "klog \<Rightarrow> klog" where
  "k_send_offsets k = k\<lparr>tx_offset := Some (position k)\<rparr>"

definition k_commit :: "klog \<Rightarrow> klog" where
  "k_commit k = k\<lparr>visible := visible k @ tx_records k, committed := (case tx_offset k of Some p \<Rightarrow> p | None \<Rightarrow> committed k),
     tx_records := [], tx_offset := None\<rparr>"

definition k_abort :: "klog \<Rightarrow> klog" where
  "k_abort k = k\<lparr>tx_records := [], tx_offset := None\<rparr>"

definition k_produce :: "krecord \<Rightarrow> klog \<Rightarrow> klog" where
  "k_produce r k = k\<lparr>tx_records := tx_records k @ [r]\<rparr>"

definition k_rejoin :: "klog \<Rightarrow> klog" where
  "k_rejoin k = (k_abort k)\<lparr>position := committed k\<rparr>"

definition k_next :: "klog \<Rightarrow> (string \<times> klog) option" where
  "k_next k = (if position k < length (input k) then Some (input k ! position k, k\<lparr>position := position k + 1\<rparr>) else None)"

locale transactional_log =
  fixes K :: "'k kafka_ops"
  assumes view_next: "map_option (\<lambda>(v, k'). (v, view K k')) (next_msg K k) = k_next (view K k)"
    and view_produce [simp]: "view K (produce K r k) = k_produce r (view K k)"
    and view_offsets [simp]: "view K (send_offsets K k) = k_send_offsets (view K k)"
    and view_commit [simp]: "view K (commit_tx K k) = k_commit (view K k)"
    and view_abort [simp]: "view K (abort_tx K k) = k_abort (view K k)"
    and view_rejoin [simp]: "view K (rejoin K k) = k_rejoin (view K k)"

definition klog_ops :: "klog kafka_ops" where
  "klog_ops = \<lparr>view = (\<lambda>k. k), next_msg = k_next, produce = k_produce, send_offsets = k_send_offsets, commit_tx = k_commit,
     abort_tx = k_abort, rejoin = k_rejoin\<rparr>"

interpretation klog: transactional_log klog_ops
  by unfold_locales (simp_all add: klog_ops_def option.map_id)

section \<open>The loop\<close>

datatype poll = NoMessage | Eof | Failed | Got

record turn =
  begin_ok :: bool
  polled :: poll
  produce_ok :: "nat \<Rightarrow> bool"
  offsets_ok :: bool
  commit_ok :: bool

record 'k router =
  inTx :: bool
  inBatch :: nat
  dead :: bool
  processedTx :: nat
  abortedTx :: nat
  producedCmd :: nat
  badJson :: nat
  topics :: 'k

definition BATCH_MAX :: nat where
  "BATCH_MAX = 100"

definition endTx :: "'k kafka_ops \<Rightarrow> bool \<Rightarrow> turn \<Rightarrow> 'k router \<Rightarrow> 'k router" where
  "endTx K ok x s =
     (if \<not> inTx s then s
      else
        (let s1 = (if ok
                   then let k = (if offsets_ok x then send_offsets K (topics s) else topics s)
                        in if \<not> commit_ok x then s\<lparr>topics := abort_tx K k, abortedTx := abortedTx s + 1\<rparr>
                           else s\<lparr>topics := commit_tx K k, processedTx := processedTx s + 1\<rparr>
                   else s\<lparr>topics := abort_tx K (topics s), abortedTx := abortedTx s + 1\<rparr>)
         in s1\<lparr>inTx := False, inBatch := 0\<rparr>))"

fun produce_all :: "'k kafka_ops \<Rightarrow> (nat \<Rightarrow> bool) \<Rightarrow> nat \<Rightarrow> krecord list \<Rightarrow> 'k router \<Rightarrow> bool \<times> 'k router" where
  "produce_all K ok n [] s = (True, s)"
| "produce_all K ok n (r # rs) s =
     (if \<not> ok n then (False, s)
      else produce_all K ok (n + 1) rs (s\<lparr>topics := produce K r (topics s), producedCmd := producedCmd s + 1\<rparr>))"

text \<open>An empty batch is given up without counting it.\<close>

definition drop_empty :: "'k kafka_ops \<Rightarrow> 'k router \<Rightarrow> 'k router" where
  "drop_empty K s = s\<lparr>topics := abort_tx K (topics s), inTx := False\<rparr>"

definition consumed :: "'k kafka_ops \<Rightarrow> jlib \<Rightarrow> turn \<Rightarrow> string \<Rightarrow> 'k router \<Rightarrow> 'k router" where
  "consumed K L x v s =
     (case route L v of
        None \<Rightarrow> s\<lparr>dead := True\<rparr>
      | Some (bad, os) \<Rightarrow>
        (let (batchOk, s1) = produce_all K (produce_ok x) 0 os (s\<lparr>badJson := badJson s + (if bad then 1 else 0)\<rparr>)
         in if \<not> batchOk then endTx K False x s1
            else
              let s2 = s1\<lparr>inBatch := inBatch s1 + 1\<rparr>
              in if inBatch s2 \<ge> BATCH_MAX then endTx K True x s2 else s2))"

definition polled_msg :: "'k kafka_ops \<Rightarrow> turn \<Rightarrow> 'k \<Rightarrow> (string \<times> 'k) option" where
  "polled_msg K x k = (if polled x = Got then next_msg K k else None)"

definition tx_turn :: "'k kafka_ops \<Rightarrow> jlib \<Rightarrow> turn \<Rightarrow> 'k router \<Rightarrow> 'k router" where
  "tx_turn K L x s =
     (if dead s \<or> (\<not> inTx s \<and> \<not> begin_ok x) then s
      else
        let s0 = (if inTx s then s else s\<lparr>inTx := True, inBatch := 0\<rparr>)
        in if polled x = Failed then endTx K False x s0
           else case polled_msg K x (topics s0) of
                  Some (v, k) \<Rightarrow> consumed K L x v (s0\<lparr>topics := k\<rparr>)
                | None \<Rightarrow> if inBatch s0 > 0 then endTx K True x s0 else drop_empty K s0)"

text \<open>The end of the process, by a signal or an exception, and its next start.\<close>

definition new_router :: "'k \<Rightarrow> 'k router" where
  "new_router k = \<lparr>inTx = False, inBatch = 0, dead = False, processedTx = 0, abortedTx = 0, producedCmd = 0, badJson = 0, topics = k\<rparr>"

definition restart :: "'k kafka_ops \<Rightarrow> 'k router \<Rightarrow> 'k router" where
  "restart K s = new_router (rejoin K (topics s))"

datatype router_event = Turn turn | Restart

fun router_step :: "'k kafka_ops \<Rightarrow> jlib \<Rightarrow> 'k router \<Rightarrow> router_event \<Rightarrow> 'k router" where
  "router_step K L s (Turn x) = tx_turn K L x s"
| "router_step K L s Restart = restart K s"

section \<open>Every message at most once\<close>

definition outs :: "jlib \<Rightarrow> string \<Rightarrow> krecord list" where
  "outs L v = (case route L v of Some (bad, os) \<Rightarrow> os | None \<Rightarrow> [])"

definition routed :: "jlib \<Rightarrow> string list \<Rightarrow> nat list \<Rightarrow> krecord list" where
  "routed L msgs is = concat (map (\<lambda>i. outs L (msgs ! i)) is)"

text \<open>
  \<open>divided L done cur k\<close>: what is visible comes from the messages \<open>done\<close>, below the committed offset, and
  what the open transaction holds from the messages \<open>cur\<close>, between it and the position.
\<close>

definition divided :: "jlib \<Rightarrow> nat list \<Rightarrow> nat list \<Rightarrow> klog \<Rightarrow> bool" where
  "divided L dn cur k \<longleftrightarrow> sorted_wrt (<) dn \<and> sorted_wrt (<) cur \<and> (\<forall>i \<in> set dn. i < committed k) \<and>
     (\<forall>i \<in> set cur. committed k \<le> i \<and> i < position k) \<and> committed k \<le> position k \<and> position k \<le> length (input k) \<and>
     visible k = routed L (input k) dn \<and> tx_records k = routed L (input k) cur \<and> tx_offset k = None"

lemma routed_simps [simp]:
  "routed L ms [] = []" "routed L ms (a @ b) = routed L ms a @ routed L ms b" "routed L ms [i] = outs L (ms ! i)"
  by (simp_all add: routed_def)

lemma divided_abort: "divided L dn cur k \<Longrightarrow> divided L dn [] (k_abort k)"
  by (simp add: divided_def k_abort_def)

lemma divided_rejoin: "divided L dn cur k \<Longrightarrow> divided L dn [] (k_rejoin k)"
  by (auto simp: divided_def k_abort_def k_rejoin_def)

lemma divided_commit: "divided L dn cur k \<Longrightarrow> divided L (dn @ cur) [] (k_commit (k_send_offsets k))"
  by (fastforce simp: divided_def k_commit_def k_send_offsets_def sorted_wrt_append)

lemma divided_consume:
  assumes "divided L dn cur k" "position k < length (input k)"
  shows "divided L dn (cur @ [position k]) (k\<lparr>position := position k + 1, tx_records := tx_records k @ outs L (input k ! position k)\<rparr>)"
  using assms by (auto simp: divided_def sorted_wrt_append)

lemma divided_skip: "divided L dn cur k \<Longrightarrow> position k < length (input k) \<Longrightarrow> divided L dn cur (k\<lparr>position := position k + 1\<rparr>)"
  by (auto simp: divided_def)

lemma divided_any_records: "divided L dn cur k \<Longrightarrow> divided L dn [] (k_abort (k\<lparr>tx_records := rs\<rparr>))"
  by (simp add: divided_def k_abort_def)

lemma divided_fresh: "divided L [] [] (fresh_log msgs)"
  by (simp add: divided_def fresh_log_def)

definition router_ok :: "'k kafka_ops \<Rightarrow> jlib \<Rightarrow> 'k router \<Rightarrow> bool" where
  "router_ok K L s \<longleftrightarrow> (\<exists>dn cur. divided L dn cur (view K (topics s)))"

definition sends_offsets :: "router_event \<Rightarrow> bool" where
  "sends_offsets e = (case e of Turn x \<Rightarrow> offsets_ok x | Restart \<Rightarrow> True)"

context transactional_log
begin

abbreviation seen :: "'k router \<Rightarrow> klog" where
  "seen s \<equiv> view K (topics s)"

lemma next_cases:
  obtains "\<not> position (view K k) < length (input (view K k))" "next_msg K k = None"
  | k' where "position (view K k) < length (input (view K k))" "next_msg K k = Some (input (view K k) ! position (view K k), k')"
      "view K k' = (view K k)\<lparr>position := position (view K k) + 1\<rparr>"
  using view_next [of k] that by (cases "next_msg K k") (auto simp: k_next_def split: if_splits)

lemma endTx_ok:
  assumes "offsets_ok x" "divided L dn cur (seen s)"
  shows "router_ok K L (endTx K ok x s)"
  using assms divided_abort [OF assms(2)] divided_commit [OF assms(2)]
  by (auto simp: router_ok_def endTx_def Let_def k_abort_def k_send_offsets_def)

lemma produce_all_topics:
  "produce_all K ok n rs s = (b, s') \<Longrightarrow>
    \<exists>qs. seen s' = (seen s)\<lparr>tx_records := tx_records (seen s) @ qs\<rparr> \<and> (b \<longrightarrow> qs = rs) \<and> inTx s' = inTx s \<and> inBatch s' = inBatch s
      \<and> dead s' = dead s"
proof (induction rs arbitrary: n s)
  case Nil
  then show ?case by (intro exI [of _ "[]"]) simp
next
  case (Cons r rs)
  show ?case
  proof (cases "ok n")
    case True
    with Cons.prems have "produce_all K ok (n + 1) rs (s\<lparr>topics := produce K r (topics s), producedCmd := producedCmd s + 1\<rparr>) = (b, s')"
      by simp
    from Cons.IH [OF this] obtain qs where "seen s' = (seen s)\<lparr>tx_records := tx_records (seen s) @ r # qs\<rparr>" "b \<longrightarrow> qs = rs"
        "inTx s' = inTx s" "inBatch s' = inBatch s" "dead s' = dead s"
      by (auto simp: k_produce_def)
    then show ?thesis by (intro exI [of _ "r # qs"]) simp
  next
    case False
    with Cons.prems show ?thesis by (intro exI [of _ "[]"]) simp
  qed
qed

lemma endTx_False_ok:
  assumes "divided L dn cur k" "seen s = k\<lparr>tx_records := rs\<rparr>" "inTx s"
  shows "router_ok K L (endTx K False x s)"
  using divided_any_records [OF assms(1), of rs] assms(2,3) by (auto simp: router_ok_def endTx_def)

lemma consumed_ok:
  assumes "offsets_ok x" "divided L dn cur k" "position k < length (input k)" "inTx s"
    and "seen s = k\<lparr>position := position k + 1\<rparr>"
  shows "router_ok K L (consumed K L x (input k ! position k) s)"
proof (cases "route L (input k ! position k)")
  case None
  with divided_skip [OF assms(2,3)] assms(5) show ?thesis by (auto simp: consumed_def router_ok_def)
next
  case (Some p)
  obtain bad os where p: "p = (bad, os)" by (cases p)
  obtain b s1 where s1: "produce_all K (produce_ok x) 0 os (s\<lparr>badJson := badJson s + (if bad then 1 else 0)\<rparr>) = (b, s1)"
    by (metis surj_pair)
  from produce_all_topics [OF this] assms(4,5) obtain qs where
    qs: "seen s1 = k\<lparr>position := position k + 1, tx_records := tx_records k @ qs\<rparr>" "b \<longrightarrow> qs = os" "inTx s1" by auto
  show ?thesis
  proof (cases b)
    case False
    have "router_ok K L (endTx K False x s1)"
      by (rule endTx_False_ok [OF divided_skip [OF assms(2,3)]]) (simp_all add: qs)
    with Some p s1 False show ?thesis by (simp add: consumed_def)
  next
    case True
    with qs Some p have "seen s1 = k\<lparr>position := position k + 1, tx_records := tx_records k @ outs L (input k ! position k)\<rparr>"
      by (simp add: outs_def)
    with divided_consume [OF assms(2,3)] have c: "divided L dn (cur @ [position k]) (seen (s1\<lparr>inBatch := inBatch s1 + 1\<rparr>))" by simp
    with endTx_ok [OF assms(1) c] have "router_ok K L (endTx K True x (s1\<lparr>inBatch := inBatch s1 + 1\<rparr>))"
        "router_ok K L (s1\<lparr>inBatch := inBatch s1 + 1\<rparr>)"
      unfolding router_ok_def by blast+
    with Some p s1 True show ?thesis by (simp add: consumed_def Let_def)
  qed
qed

text \<open>One turn by the three ways it can go on once a transaction is open.\<close>

lemma tx_turn_cases:
  assumes "\<not> dead s" "inTx s \<or> begin_ok x"
  obtains s0 where "s0 = (if inTx s then s else s\<lparr>inTx := True, inBatch := 0\<rparr>)" "polled x = Failed" "tx_turn K L x s = endTx K False x s0"
  | s0 where "s0 = (if inTx s then s else s\<lparr>inTx := True, inBatch := 0\<rparr>)" "polled x \<noteq> Failed"
      "polled x = Got \<Longrightarrow> \<not> position (seen s) < length (input (seen s))"
      "tx_turn K L x s = (if inBatch s0 > 0 then endTx K True x s0 else drop_empty K s0)"
  | s0 where "inTx s0" "inBatch s0 = (if inTx s then inBatch s else 0)" "dead s0 = dead s" "polled x = Got"
      "position (seen s) < length (input (seen s))" "seen s0 = (seen s)\<lparr>position := position (seen s) + 1\<rparr>"
      "tx_turn K L x s = consumed K L x (input (seen s) ! position (seen s)) s0"
proof -
  define s0 where "s0 = (if inTx s then s else s\<lparr>inTx := True, inBatch := 0\<rparr>)"
  have t: "topics s0 = topics s" "inTx s0" "inBatch s0 = (if inTx s then inBatch s else 0)" "dead s0 = dead s" by (simp_all add: s0_def)
  have turn: "tx_turn K L x s = (if polled x = Failed then endTx K False x s0
     else case polled_msg K x (topics s) of Some (v, k) \<Rightarrow> consumed K L x v (s0\<lparr>topics := k\<rparr>)
       | None \<Rightarrow> if inBatch s0 > 0 then endTx K True x s0 else drop_empty K s0)"
    unfolding tx_turn_def Let_def s0_def [symmetric] t(1) by (rule if_not_P) (use assms in blast)
  show thesis
  proof (cases "polled x = Failed")
    case True
    with turn that(1) [OF s0_def] show thesis by simp
  next
    case False
    show thesis
    proof (cases rule: next_cases [of "topics s"])
      case 1
      with False turn that(2) [OF s0_def False] show thesis by (simp add: polled_msg_def)
    next
      case (2 k')
      show thesis
      proof (cases "polled x = Got")
        case True
        with 2 turn t that(3) [of "s0\<lparr>topics := k'\<rparr>"] show thesis by (simp add: polled_msg_def)
      next
        case other: False
        with turn False that(2) [OF s0_def False] show thesis by (simp add: polled_msg_def)
      qed
    qed
  qed
qed

lemma tx_turn_idle: "dead s \<or> (\<not> inTx s \<and> \<not> begin_ok x) \<Longrightarrow> tx_turn K L x s = s"
  by (simp add: tx_turn_def)

lemma tx_turn_ok:
  assumes "offsets_ok x" "divided L dn cur (seen s)"
  shows "router_ok K L (tx_turn K L x s)"
proof (cases "dead s \<or> (\<not> inTx s \<and> \<not> begin_ok x)")
  case True
  with tx_turn_idle assms(2) show ?thesis by (auto simp: router_ok_def)
next
  case False
  then have "\<not> dead s" "inTx s \<or> begin_ok x" by auto
  then show ?thesis
  proof (cases rule: tx_turn_cases [where L = L])
    case (1 s0)
    with endTx_ok [OF assms(1), of L dn cur s0] assms(2) show ?thesis by simp
  next
    case (2 s0)
    with endTx_ok [OF assms(1), of L dn cur s0] assms(2) divided_abort [OF assms(2)] show ?thesis
      by (auto simp: router_ok_def drop_empty_def)
  next
    case (3 s0)
    with consumed_ok [OF assms(1,2) 3(5,1)] show ?thesis by simp
  qed
qed

lemma router_machine:
  assumes "view K k0 = fresh_log msgs"
  shows "guarded_machine (new_router k0) (router_step K L) sends_offsets (router_ok K L)"
proof
  show "router_ok K L (new_router k0)" using divided_fresh assms by (auto simp: router_ok_def new_router_def)
next
  fix e s
  assume "sends_offsets e" "router_ok K L s"
  then obtain dn cur where c: "divided L dn cur (seen s)" by (auto simp: router_ok_def)
  show "router_ok K L (router_step K L s e)"
  proof (cases e)
    case (Turn x)
    with \<open>sends_offsets e\<close> tx_turn_ok [OF _ c] show ?thesis by (simp add: sends_offsets_def)
  next
    case Restart
    with divided_rejoin [OF c] show ?thesis by (auto simp: router_ok_def restart_def new_router_def)
  qed
qed

lemma input_endTx [simp]: "input (seen (endTx K ok x s)) = input (seen s)"
  by (simp add: endTx_def Let_def k_abort_def k_commit_def k_send_offsets_def)

lemma input_consumed [simp]: "input (seen (consumed K L x v s)) = input (seen s)"
proof (cases "route L v")
  case (Some p)
  obtain b s1 where s1: "produce_all K (produce_ok x) 0 (snd p) (s\<lparr>badJson := badJson s + (if fst p then 1 else 0)\<rparr>) = (b, s1)"
    by (metis surj_pair)
  from produce_all_topics [OF this] have "input (seen s1) = input (seen s)" by auto
  with Some s1 show ?thesis by (cases p) (simp add: consumed_def Let_def)
qed (simp add: consumed_def)

lemma input_step: "input (seen (router_step K L s e)) = input (seen s)"
proof (cases e)
  case (Turn x)
  show ?thesis
  proof (cases "dead s \<or> (\<not> inTx s \<and> \<not> begin_ok x)")
    case False
    then have "\<not> dead s" "inTx s \<or> begin_ok x" by auto
    then have "input (seen (tx_turn K L x s)) = input (seen s)"
      by (cases rule: tx_turn_cases [where L = L]) (simp_all add: drop_empty_def k_abort_def)
    with Turn show ?thesis by simp
  qed (simp add: Turn tx_turn_idle)
qed (simp add: restart_def new_router_def k_rejoin_def k_abort_def)

lemma input_run: "input (seen (foldl (router_step K L) s evs)) = input (seen s)"
  by (induction evs arbitrary: s) (simp_all add: input_step)

end


section \<open>Every message exactly once\<close>

definition exact :: "'k kafka_ops \<Rightarrow> jlib \<Rightarrow> string list \<Rightarrow> 'k router \<Rightarrow> bool" where
  "exact K L msgs s \<longleftrightarrow> (let k = view K (topics s) in input k = msgs \<and> visible k = routed L msgs [0..<committed k] \<and>
     tx_records k = routed L msgs [committed k..<position k] \<and> committed k \<le> position k \<and> position k \<le> length msgs \<and>
     tx_offset k = None \<and> \<not> dead s \<and> (inBatch s = 0 \<longrightarrow> position k = committed k) \<and> (\<not> inTx s \<longrightarrow> inBatch s = 0))"

text \<open>Turns in which no call fails, and restarts at any moment.\<close>

definition smooth :: "router_event \<Rightarrow> bool" where
  "smooth e = (case e of Turn x \<Rightarrow> polled x \<noteq> Failed \<and> (\<forall>n. produce_ok x n) \<and> offsets_ok x \<and> commit_ok x | Restart \<Rightarrow> True)"

lemma produce_all_ok: "\<forall>n. ok n \<Longrightarrow> fst (produce_all K ok n rs s)"
  by (induction rs arbitrary: n s) auto

lemma routed_upto: "a \<le> b \<Longrightarrow> b \<le> c \<Longrightarrow> routed L ms [a..<b] @ routed L ms [b..<c] = routed L ms [a..<c]"
  by (metis le_add_diff_inverse routed_simps(2) upt_add_eq_append)

lemma routed_take: "n \<le> length msgs \<Longrightarrow> routed L msgs [0..<n] = concat (map (outs L) (take n msgs))"
  unfolding routed_def by (intro arg_cong [where f = concat] nth_equalityI) simp_all

context transactional_log
begin

lemma produced:
  assumes "smooth (Turn x)"
  obtains s1 where "produce_all K (produce_ok x) 0 os s = (True, s1)" "seen s1 = (seen s)\<lparr>tx_records := tx_records (seen s) @ os\<rparr>"
    "inTx s1 = inTx s" "inBatch s1 = inBatch s" "dead s1 = dead s"
proof -
  obtain b s1 where s1: "produce_all K (produce_ok x) 0 os s = (b, s1)" by (metis surj_pair)
  moreover have b using produce_all_ok [of "produce_ok x" K 0 os s] assms s1 by (simp add: smooth_def)
  ultimately show thesis using produce_all_topics [OF s1] that by auto
qed

lemma exact_commit: "exact K L msgs s \<Longrightarrow> smooth (Turn x) \<Longrightarrow> exact K L msgs (endTx K True x s)"
  by (auto simp: exact_def endTx_def k_commit_def k_send_offsets_def routed_upto smooth_def Let_def)

lemma exact_consumed:
  assumes "exact K L msgs s" "smooth (Turn x)" "position (seen s) < length msgs" "route L (msgs ! position (seen s)) \<noteq> None"
    and "inTx s0" "inBatch s0 = (if inTx s then inBatch s else 0)" "dead s0 = dead s" "seen s0 = (seen s)\<lparr>position := position (seen s) + 1\<rparr>"
  shows "exact K L msgs (consumed K L x (msgs ! position (seen s)) s0)"
proof -
  let ?p = "position (seen s)"
  obtain bad os where os: "route L (msgs ! ?p) = Some (bad, os)" using assms(4) by auto
  obtain s1 where s1: "produce_all K (produce_ok x) 0 os (s0\<lparr>badJson := badJson s0 + (if bad then 1 else 0)\<rparr>) = (True, s1)"
      "seen s1 = (seen s)\<lparr>position := ?p + 1, tx_records := tx_records (seen s) @ os\<rparr>" "inTx s1" "inBatch s1 = inBatch s0" "dead s1 = dead s"
    by (rule produced [OF assms(2), of os "s0\<lparr>badJson := badJson s0 + (if bad then 1 else 0)\<rparr>"]) (simp add: assms(5,7,8))
  have "os = routed L msgs [?p..<Suc ?p]" using os by (simp add: outs_def)
  with s1 assms(1,3) have e: "exact K L msgs (s1\<lparr>inBatch := inBatch s1 + 1\<rparr>)"
    by (auto simp: exact_def Let_def routed_upto simp del: upt_Suc)
  with os s1 exact_commit [OF e assms(2)] show ?thesis by (simp add: consumed_def Let_def)
qed

lemma exact_turn:
  assumes "exact K L msgs s" "smooth (Turn x)" "\<forall>v \<in> set msgs. route L v \<noteq> None"
  shows "exact K L msgs (tx_turn K L x s)"
proof (cases "dead s \<or> (\<not> inTx s \<and> \<not> begin_ok x)")
  case True
  with assms(1) tx_turn_idle show ?thesis by simp
next
  case False
  then have "\<not> dead s" "inTx s \<or> begin_ok x" by auto
  then show ?thesis
  proof (cases rule: tx_turn_cases [where L = L])
    case (1 s0)
    with assms(2) show ?thesis by (simp add: smooth_def)
  next
    case (2 s0)
    have e: "exact K L msgs s0" using assms(1) by (auto simp: exact_def Let_def 2(1))
    then have "exact K L msgs (drop_empty K s0)" if "inBatch s0 = 0"
      using that by (auto simp: exact_def drop_empty_def k_abort_def Let_def)
    with 2(4) exact_commit [OF e assms(2)] show ?thesis by simp
  next
    case (3 s0)
    have i: "input (seen s) = msgs" using assms(1) by (simp add: exact_def Let_def)
    with 3(5) assms(3) have "route L (msgs ! position (seen s)) \<noteq> None" by simp
    with exact_consumed [OF assms(1,2) _ _ 3(1-3,6)] 3(5,7) i show ?thesis by simp
  qed
qed

lemma exact_restart: "exact K L msgs s \<Longrightarrow> exact K L msgs (restart K s)"
  by (auto simp: exact_def restart_def new_router_def k_rejoin_def k_abort_def Let_def)

lemma exact_machine:
  assumes "view K k0 = fresh_log msgs" "\<forall>v \<in> set msgs. route L v \<noteq> None"
  shows "guarded_machine (new_router k0) (router_step K L) smooth (exact K L msgs)"
proof
  show "exact K L msgs (new_router k0)" using assms(1) by (simp add: exact_def new_router_def fresh_log_def)
next
  fix e s
  assume "smooth e" "exact K L msgs s"
  with assms show "exact K L msgs (router_step K L s e)"
    by (cases e) (simp_all add: exact_turn exact_restart)
qed

lemma empty_poll_commits:
  assumes "exact K L msgs s" "smooth (Turn x)" "begin_ok x" "polled x = NoMessage"
  shows "visible (seen (tx_turn K L x s)) = routed L msgs [0..<position (seen s)]"
proof -
  have "\<not> dead s" "inTx s \<or> begin_ok x" using assms(1,3) by (simp_all add: exact_def Let_def)
  then show ?thesis
  proof (cases rule: tx_turn_cases [where L = L])
    case (2 s0)
    have e: "exact K L msgs s0" "seen s0 = seen s" "inTx s0" using assms(1) by (auto simp: exact_def Let_def 2(1))
    show ?thesis
    proof (cases "inBatch s0 > 0")
      case True
      with e 2(4) assms(2) show ?thesis
        by (simp add: exact_def endTx_def k_commit_def k_send_offsets_def routed_upto smooth_def Let_def)
    next
      case False
      with e 2(4) show ?thesis by (simp add: exact_def drop_empty_def k_abort_def Let_def)
    qed
  qed (use assms in \<open>simp_all add: smooth_def\<close>)
qed

end

text \<open>
  C10. While no call of the router fails, every message is pushed exactly once, even if the
  process ends and starts again at any moment: a read-committed consumer sees the commands of
  the messages below the committed offset, in order, and the poll that finds the topic empty
  commits what has been read.
\<close>

theorem push_exactly_once:
  assumes K: "transactional_log K" and k0: "view K k0 = fresh_log msgs"
    and ms: "\<forall>v \<in> set msgs. route L v \<noteq> None" and evs: "list_all smooth evs"
    and s: "s = foldl (router_step K L) (new_router k0) evs"
  shows "visible (view K (topics s)) = concat (map (outs L) (take (committed (view K (topics s))) msgs))
    \<and> (smooth (Turn x) \<and> begin_ok x \<and> polled x = NoMessage \<longrightarrow>
        visible (view K (topics (tx_turn K L x s))) = concat (map (outs L) (take (position (view K (topics s))) msgs)))"
proof -
  have e: "exact K L msgs s"
    unfolding s by (rule guarded_machine.run_inv [OF transactional_log.exact_machine [OF K k0 ms] evs])
  then have b: "committed (view K (topics s)) \<le> length msgs" "position (view K (topics s)) \<le> length msgs"
      "visible (view K (topics s)) = routed L msgs [0..<committed (view K (topics s))]"
    by (auto simp: exact_def Let_def)
  with transactional_log.empty_poll_commits [OF K e, of x] show ?thesis by (simp add: routed_take)
qed

section \<open>What an aborted batch loses\<close>

context transactional_log
begin

lemma failed_poll_aborts:
  assumes "inTx s" "\<not> dead s" "polled x = Failed"
  shows "seen (tx_turn K L x s) = k_abort (seen s)" "\<not> inTx (tx_turn K L x s)" "inBatch (tx_turn K L x s) = 0" "\<not> dead (tx_turn K L x s)"
  using assms by (simp_all add: tx_turn_def endTx_def Let_def)

lemma first_of_batch:
  assumes "\<not> inTx s" "\<not> dead s" "position (seen s) < length (input (seen s))" "tx_records (seen s) = []"
    and "route L (input (seen s) ! position (seen s)) = Some (bad, os)" "smooth (Turn x)" "begin_ok x" "polled x = Got"
  shows "\<exists>s'. tx_turn K L x s = s' \<and> seen s' = (seen s)\<lparr>position := position (seen s) + 1, tx_records := os\<rparr> \<and>
    inTx s' \<and> inBatch s' = 1 \<and> \<not> dead s'"
proof -
  have "inTx s \<or> begin_ok x" using assms(7) by simp
  from assms(2) this show ?thesis
  proof (cases rule: tx_turn_cases [where L = L])
    case (3 s0)
    obtain s1 where s1: "produce_all K (produce_ok x) 0 os (s0\<lparr>badJson := badJson s0 + (if bad then 1 else 0)\<rparr>) = (True, s1)"
        "seen s1 = (seen s)\<lparr>position := position (seen s) + 1, tx_records := os\<rparr>" "inTx s1" "inBatch s1 = 0" "\<not> dead s1"
      by (rule produced [OF assms(6), of os "s0\<lparr>badJson := badJson s0 + (if bad then 1 else 0)\<rparr>"]) (simp add: 3 assms(1,2,4))
    then have "tx_turn K L x s = s1\<lparr>inBatch := 1\<rparr>" by (simp add: 3(7) consumed_def assms(5) BATCH_MAX_def Let_def)
    with s1 show ?thesis by simp
  qed (use assms in auto)
qed

lemma batch_committed:
  assumes "inTx s" "\<not> dead s" "inBatch s > 0" "smooth (Turn x)" "polled x = NoMessage"
  shows "seen (tx_turn K L x s) = k_commit (k_send_offsets (seen s))"
  using assms by (simp add: tx_turn_def polled_msg_def endTx_def smooth_def Let_def)

end

text \<open>
  After an aborted transaction the router reads on from its own position and does not go
  back to the committed offset. The next commit then moves the committed offset past the
  messages of the aborted batch: they were read, none of their commands is visible, and no
  restart reads them again.
\<close>

theorem aborted_batch_is_skipped:
  assumes K: "transactional_log K" and k: "k = view K (topics s)"
    and open_tx: "inTx s" "\<not> dead s" "position k < length (input k)"
    and nxt: "route L (input k ! position k) = Some (bad, os)"
    and turns: "polled x1 = Failed" "smooth (Turn x2)" "begin_ok x2" "polled x2 = Got" "smooth (Turn x3)" "polled x3 = NoMessage"
  shows "let s' = tx_turn K L x3 (tx_turn K L x2 (tx_turn K L x1 s)); k' = view K (topics s')
    in visible k' = visible k @ os \<and> committed k' = position k + 1 \<and> position (view K (topics (restart K s'))) = position k + 1"
proof -
  note a = transactional_log.failed_poll_aborts [OF K open_tx(1,2) turns(1), of L]
  obtain s2 where s2: "tx_turn K L x2 (tx_turn K L x1 s) = s2" "view K (topics s2) = (k_abort k)\<lparr>position := position k + 1, tx_records := os\<rparr>"
      "inTx s2" "inBatch s2 = 1" "\<not> dead s2"
    using transactional_log.first_of_batch [OF K a(2,4), of L bad os x2] a(1) open_tx(3) nxt turns(2-4) by (auto simp: k k_abort_def)
  have "view K (topics (tx_turn K L x3 s2)) = k_commit (k_send_offsets (view K (topics s2)))"
    using transactional_log.batch_committed [OF K s2(3,5) _ turns(5,6)] s2(4) by simp
  then show ?thesis
    using s2(2) by (simp add: s2(1) restart_def new_router_def transactional_log.view_rejoin [OF K]
        k_commit_def k_send_offsets_def k_rejoin_def k_abort_def Let_def)
qed

section \<open>Witnesses\<close>

definition demo_turn :: "poll \<Rightarrow> turn" where
  "demo_turn p = \<lparr>begin_ok = True, polled = p, produce_ok = (\<lambda>n. True), offsets_ok = True, commit_ok = True\<rparr>"

abbreviation demo_router :: "klog router" where
  "demo_router \<equiv> new_router (fresh_log [''k'', ''k''])"

lemma demo_smooth: "p \<noteq> Failed \<Longrightarrow> smooth (Turn (demo_turn p))" "sends_offsets (Turn (demo_turn p))"
  by (simp_all add: smooth_def sends_offsets_def demo_turn_def)

lemma demo_route: "\<exists>r. route pair_lib ''k'' = Some (False, [r])" "outs pair_lib ''k'' \<noteq> []"
  by (simp_all add: outs_def route_def pair_lib_def demo_payload_def kafkaPayload_def)

lemma klog_view [simp]: "view klog_ops k = k"
  by (simp add: klog_ops_def)


theorem push_exactly_once_witness:
  "visible (topics (tx_turn klog_ops pair_lib (demo_turn NoMessage)
     (foldl (router_step klog_ops pair_lib) demo_router [Turn (demo_turn Got), Restart, Turn (demo_turn Got)])))
   = concat (map (outs pair_lib) (take 1 [''k'', ''k'']))"
proof -
  let ?s = "foldl (router_step klog_ops pair_lib) demo_router [Turn (demo_turn Got), Restart, Turn (demo_turn Got)]"
  have "position (topics ?s) = 1" by code_simp
  with push_exactly_once [OF klog.transactional_log_axioms _ _ _ refl, of "fresh_log [''k'', ''k'']" "[''k'', ''k'']" pair_lib
      "[Turn (demo_turn Got), Restart, Turn (demo_turn Got)]" "demo_turn NoMessage"] demo_route demo_smooth
  show ?thesis by (auto simp: smooth_def demo_turn_def)
qed

theorem aborted_batch_is_skipped_witness:
  "let s = tx_turn klog_ops pair_lib (demo_turn Got) demo_router;
       s' = tx_turn klog_ops pair_lib (demo_turn NoMessage) (tx_turn klog_ops pair_lib (demo_turn Got)
         (tx_turn klog_ops pair_lib (demo_turn Failed) s))
   in length (tx_records (topics s)) = 1 \<and> length (visible (topics s')) = 1 \<and> committed (topics s') = 2"
proof -
  let ?s = "tx_turn klog_ops pair_lib (demo_turn Got) demo_router"
  have s: "inTx ?s" "\<not> dead ?s" "position (topics ?s) = 1" "input (topics ?s) = [''k'', ''k'']"
      "length (tx_records (topics ?s)) = 1" "visible (topics ?s) = []"
    by code_simp+
  obtain r where r: "route pair_lib ''k'' = Some (False, [r])" using demo_route(1) by blast
  show ?thesis
    using aborted_batch_is_skipped [OF klog.transactional_log_axioms refl s(1,2), of pair_lib False "[r]" "demo_turn Failed" "demo_turn Got"
        "demo_turn NoMessage"] s(3-6) r demo_smooth
    by (simp add: Let_def demo_turn_def)
qed

end
