(* ===== verification/LogicService.thy ===== *)
theory LogicService
  imports GatewayReg Messages
begin

text \<open>
  The unary calls of \<^verbatim>\<open>logic/LogicServiceImpl.h\<close>: \<^verbatim>\<open>HandleMessage\<close> stores a private message,
  answers with an acknowledgement and pushes the message to the gateway of the recipient;
  \<^verbatim>\<open>HandleAuth\<close> is a stub. The state is the database and the registry of gateways. An exception
  that leaves the handler is \<open>None\<close>; what was done before it stays done.
\<close>

section \<open>Calls\<close>

datatype im_code = IM_OK | INVALID | INTERNAL

record msgresp =
  rs_code :: im_code
  rs_msg :: string
  rs_server_msg_id :: int
  rs_inline_reply :: string

definition response :: "im_code \<Rightarrow> string \<Rightarrow> msgresp" where
  "response c m = \<lparr>rs_code = c, rs_msg = m, rs_server_msg_id = 0, rs_inline_reply = []\<rparr>"

record logic_ctx =
  snow :: int
  clock :: ms
  saved :: outcome
  wrote :: "nat \<Rightarrow> bool"
  what :: "string \<Rightarrow> string"

text \<open>\<^verbatim>\<open>std::stoll(j["to"].is_string() ? ... : std::to_string(j["to"].get<int64_t>()))\<close>.\<close>

definition recipient :: "json \<Rightarrow> int option" where
  "recipient v = (case v of JStr s \<Rightarrow> stoll s | JInt i \<Rightarrow> Some i | JFloat m e \<Rightarrow> Some (float_trunc m e) | _ \<Rightarrow> None)"

definition logic_ack :: "string \<Rightarrow> string \<Rightarrow> ms \<Rightarrow> json" where
  "logic_ack clientMsgId msgId ts = obj [(''type'', JStr ''ack''), (''clientMsgId'', JStr clientMsgId),
     (''serverMsgId'', JStr msgId), (''timestamp'', JInt ts)]"

definition logic_fwd :: "uid \<Rightarrow> uid \<Rightarrow> string \<Rightarrow> string \<Rightarrow> ms \<Rightarrow> json" where
  "logic_fwd from to content msgId ts = obj [(''type'', JStr ''msg''), (''from'', JStr (to_string from)),
     (''to'', JStr (to_string to)), (''content'', JStr content), (''msgId'', JStr msgId), (''timestamp'', JInt ts)]"

definition handle_msg :: "jlib \<Rightarrow> logic_ctx \<Rightarrow> msgreq \<Rightarrow> json \<Rightarrow> db \<times> gwreg \<Rightarrow> msgresp option \<times> db \<times> gwreg" where
  "handle_msg L x req j st =
     (let (d, r) = st
      in case (jlookup j ''to'', jlookup j ''content'') of
           (Some t, Some c) \<Rightarrow>
             (case (recipient t, c) of
                (Some to, JStr content) \<Rightarrow>
                  (let from = rq_uid req; msgId = to_string (snow x); ts = clock x;
                       (ok, d') = savePrivateMessage (saved x) msgId from to content ts d
                   in if \<not> ok then (Some (response INTERNAL ''savePrivateMessage failed''), d', r)
                      else
                        (case value_str j ''clientMsgId'' [] of
                           None \<Rightarrow> (None, d', r)
                         | Some cid \<Rightarrow>
                           (Some ((response IM_OK ''saved'')\<lparr>rs_server_msg_id := snow x,
                              rs_inline_reply := lib_dump L (logic_ack cid msgId ts)\<rparr>),
                            d', fst (pushToUser (wrote x) to (lib_dump L (logic_fwd from to content msgId ts)) r))))
              | _ \<Rightarrow> (None, d, r))
         | _ \<Rightarrow> (Some (response INVALID ''missing to/content''), d, r))"

definition HandleMessage :: "jlib \<Rightarrow> logic_ctx \<Rightarrow> msgreq \<Rightarrow> db \<times> gwreg \<Rightarrow> msgresp option \<times> db \<times> gwreg" where
  "HandleMessage L x req st =
     (case lib_parse L (rq_payload req) of
        None \<Rightarrow> (Some (response INVALID (''payload parse: '' @ what x (rq_payload req))), st)
      | Some j \<Rightarrow>
        (case value_str j ''type'' [] of
           None \<Rightarrow> (None, st)
         | Some ty \<Rightarrow>
           if ty = ''msg'' then handle_msg L x req j st
           else (Some (response IM_OK (''type='' @ ty @ '' not handled in W1.D5'')), st)))"

definition HandleAuth :: msgresp where
  "HandleAuth = response INTERNAL ''HandleAuth not implemented yet''"

section \<open>Delivery\<close>

text \<open>What a well-formed request is.\<close>

definition private_request :: "jlib \<Rightarrow> msgreq \<Rightarrow> uid \<Rightarrow> string \<Rightarrow> string \<Rightarrow> bool" where
  "private_request L req to c cid \<longleftrightarrow> (\<exists>j t. lib_parse L (rq_payload req) = Some j \<and> value_str j ''type'' [] = Some ''msg'' \<and>
     jlookup j ''to'' = Some t \<and> recipient t = Some to \<and> jlookup j ''content'' = Some (JStr c) \<and>
     value_str j ''clientMsgId'' [] = Some cid)"

lemma HandleMessage_request:
  assumes "private_request L req to c cid"
  shows "HandleMessage L x req (d, r) =
    (let (ok, d') = savePrivateMessage (saved x) (to_string (snow x)) (rq_uid req) to c (clock x) d
     in if \<not> ok then (Some (response INTERNAL ''savePrivateMessage failed''), d', r)
        else (Some ((response IM_OK ''saved'')\<lparr>rs_server_msg_id := snow x,
                rs_inline_reply := lib_dump L (logic_ack cid (to_string (snow x)) (clock x))\<rparr>),
              d', fst (pushToUser (wrote x) to (lib_dump L (logic_fwd (rq_uid req) to c (to_string (snow x)) (clock x))) r)))"
  using assms by (auto simp: private_request_def HandleMessage_def handle_msg_def Let_def split: prod.split)

lemma savePrivate_result:
  assumes "savePrivateMessage ok i f t c ts d = (b, d')"
  shows "if b then pmsgs d' = pmsgs d @ [new_msg i f t c ts None] else pmsgs d' = pmsgs d"
  using assms
  by (auto simp: savePrivateMessage_def savePrivateMessageTx_def prepared_def ins_msg_def table_def set_table_def split: if_splits)

text \<open>
  The logic service acknowledges a private message exactly when it has stored it: an answer
  with a server identifier means one new row under that identifier, and, when the recipient is
  registered at a gateway whose stream takes the write, one command on that stream with the
  message; an error answer means that neither the table nor the streams have changed.
\<close>

theorem logic_acks_what_it_stored:
  assumes "private_request L req to c cid" "HandleMessage L x req (d, r) = (resp, d', r')"
  shows "\<exists>a. resp = Some a \<and>
    (if rs_code a = IM_OK
     then rs_server_msg_id a = snow x \<and> pmsgs d' = pmsgs d @ [new_msg (to_string (snow x)) (rq_uid req) to c (clock x) None] \<and>
       rs_inline_reply a = lib_dump L (logic_ack cid (to_string (snow x)) (clock x)) \<and>
       (\<forall>g s. userToGateway r to = Some g \<and> gateways r g = Some s \<and> wrote x s \<longrightarrow>
          pushed r' = pushed r @ [\<lparr>pc_stream = s, pc_uid = to,
            pc_payload = lib_dump L (logic_fwd (rq_uid req) to c (to_string (snow x)) (clock x))\<rparr>])
     else rs_code a = INTERNAL \<and> pmsgs d' = pmsgs d \<and> r' = r)"
proof -
  obtain ok e where s: "savePrivateMessage (saved x) (to_string (snow x)) (rq_uid req) to c (clock x) d = (ok, e)"
    by (metis surj_pair)
  note row = savePrivate_result [OF s]
  show ?thesis
  proof (cases ok)
    case True
    with assms(2) row show ?thesis
      unfolding HandleMessage_request [OF assms(1)] s by (auto simp: response_def pushToUser_def)
  next
    case False
    with assms(2) have "resp = Some (response INTERNAL ''savePrivateMessage failed'')" "d' = e" "r' = r"
      unfolding HandleMessage_request [OF assms(1)] s by auto
    with row False show ?thesis by (simp add: response_def)
  qed
qed

text \<open>
  The service does not recognise a request it has already served. A request that is sent again,
  as the pool does after a timeout of the first instance, is stored and pushed a second time
  under another identifier.
\<close>

theorem resent_request_stored_twice:
  assumes "private_request L req to c cid" "\<forall>k. saved x1 k" "\<forall>k. saved x2 k" "snow x1 \<noteq> snow x2"
    and "\<forall>m \<in> set (pmsgs d). m_msg_id m \<notin> {to_string (snow x1), to_string (snow x2)}"
    and "HandleMessage L x1 req (d, r) = (resp1, d1, r1)" "HandleMessage L x2 req (d1, r1) = (resp2, d2, r2)"
  shows "pmsgs d2 = pmsgs d @ [new_msg (to_string (snow x1)) (rq_uid req) to c (clock x1) None,
    new_msg (to_string (snow x2)) (rq_uid req) to c (clock x2) None]"
proof -
  have s: "\<exists>e'. savePrivateMessage ok i f t c ts e = (True, e') \<and> pmsgs e' = pmsgs e @ [new_msg i f t c ts None]"
    if "\<forall>m \<in> set (pmsgs e). m_msg_id m \<noteq> i" "\<forall>k. ok k" for ok i f t c ts e
    using that by (auto simp: savePrivateMessage_def savePrivateMessageTx_def prepared_def ins_msg_def table_def set_table_def
        list_ex_iff new_msg_def)
  obtain e1 where e1: "savePrivateMessage (saved x1) (to_string (snow x1)) (rq_uid req) to c (clock x1) d = (True, e1)"
      "pmsgs e1 = pmsgs d @ [new_msg (to_string (snow x1)) (rq_uid req) to c (clock x1) None]"
    using s [of d "to_string (snow x1)" "saved x1"] assms(2,5) by blast
  with assms(6) have "d1 = e1" unfolding HandleMessage_request [OF assms(1)] by auto
  moreover have fresh: "\<forall>m \<in> set (pmsgs e1). m_msg_id m \<noteq> to_string (snow x2)"
    using assms(4,5) by (simp add: e1(2)) (simp add: new_msg_def)
  obtain e2 where e2: "savePrivateMessage (saved x2) (to_string (snow x2)) (rq_uid req) to c (clock x2) e1 = (True, e2)"
      "pmsgs e2 = pmsgs e1 @ [new_msg (to_string (snow x2)) (rq_uid req) to c (clock x2) None]"
    using s [OF fresh assms(3)] by blast
  ultimately have "d2 = e2" using assms(7) unfolding HandleMessage_request [OF assms(1)] by auto
  with e1 e2 show ?thesis by simp
qed

section \<open>Witnesses\<close>

definition demo_req :: msgreq where
  "demo_req = \<lparr>rq_trace_id = ''t'', rq_instance = ''g1'', rq_routing_key = ''1'', rq_uid = 1, rq_device_id = ''web'', rq_conn_id = ''c'',
     rq_payload = ''p''\<rparr>"

definition demo_jlib :: jlib where
  "demo_jlib = \<lparr>lib_dump = (\<lambda>j. ''j''),
     lib_parse = (\<lambda>s. Some (obj [(''type'', JStr ''msg''), (''to'', JInt 2), (''content'', JStr ''hi'')]))\<rparr>"

definition demo_lctx :: "int \<Rightarrow> logic_ctx" where
  "demo_lctx i = \<lparr>snow = i, clock = 5, saved = (\<lambda>c. True), wrote = (\<lambda>s. True), what = (\<lambda>s. [])\<rparr>"

lemma demo_private_request: "private_request demo_jlib demo_req 2 ''hi'' []"
  by (simp add: private_request_def demo_jlib_def recipient_def)

theorem logic_acks_what_it_stored_witness:
  "\<exists>a d' r'. HandleMessage demo_jlib (demo_lctx 9) demo_req (empty_db, new_gwreg) = (Some a, d', r') \<and>
     (if rs_code a = IM_OK then pmsgs d' = [new_msg (to_string 9) 1 2 ''hi'' 5 None] else pmsgs d' = [])"
proof -
  obtain resp d' r' where h: "HandleMessage demo_jlib (demo_lctx 9) demo_req (empty_db, new_gwreg) = (resp, d', r')"
    by (metis prod_cases3)
  from logic_acks_what_it_stored [OF demo_private_request this] show ?thesis
    unfolding h by (auto simp: demo_lctx_def demo_req_def empty_db_def split: if_splits)
qed

theorem resent_request_stored_twice_witness:
  "pmsgs (fst (snd (HandleMessage demo_jlib (demo_lctx 10) demo_req (snd (HandleMessage demo_jlib (demo_lctx 9) demo_req (empty_db, new_gwreg))))))
    = [new_msg (to_string 9) 1 2 ''hi'' 5 None, new_msg (to_string 10) 1 2 ''hi'' 5 None]"
proof -
  obtain resp1 d1 r1 where h1: "HandleMessage demo_jlib (demo_lctx 9) demo_req (empty_db, new_gwreg) = (resp1, d1, r1)"
    by (metis prod_cases3)
  obtain resp2 d2 r2 where h2: "HandleMessage demo_jlib (demo_lctx 10) demo_req (d1, r1) = (resp2, d2, r2)"
    by (metis prod_cases3)
  from resent_request_stored_twice [OF demo_private_request _ _ _ _ h1 h2] h1 h2
  show ?thesis by (simp add: demo_lctx_def demo_req_def empty_db_def)
qed

end
