(* ===== verification/Gateway.thy ===== *)
theory Gateway
  imports Online LogicPool LogicService
begin

text \<open>
  The gateway process, \<^verbatim>\<open>gateway/main.cpp\<close>: the table of local sessions, the WebSocket callbacks,
  the callback for pushed messages, and the shutdown. Upwards it has a pool of logic clients or
  a single one. A session is a handle; the sessions of a user are an ordered set of handles.
\<close>

section \<open>Parsing\<close>

definition add_segment :: "string \<Rightarrow> (string \<rightharpoonup> string) \<Rightarrow> (string \<rightharpoonup> string)" where
  "add_segment seg pairs = (case find_char (CHR ''='') seg of None \<Rightarrow> pairs | Some eq \<Rightarrow> pairs(take eq seg \<mapsto> drop (eq + 1) seg))"

definition parseQuery :: "string \<Rightarrow> (string \<rightharpoonup> string)" where
  "parseQuery path =
     (case find_char (CHR ''?'') path of None \<Rightarrow> Map.empty
      | Some qpos \<Rightarrow> fold add_segment (segments (CHR ''&'') (drop (qpos + 1) path)) Map.empty)"

section \<open>State\<close>

datatype 'b backend = Pool "'b pool" | Single "'b lclient"

type_synonym presence = "uid \<rightharpoonup> wsid list"

record 'b gateway =
  gatewayId :: string
  presence :: presence
  backend :: "'b backend"
  reqCount :: nat
  g_contexts :: "wsid \<Rightarrow> string \<rightharpoonup> string"
  draining :: bool

definition lp_add :: "uid \<Rightarrow> wsid \<Rightarrow> presence \<Rightarrow> presence" where
  "lp_add u w p = p(u \<mapsto> insort_insert w (case p u of Some ws \<Rightarrow> ws | None \<Rightarrow> []))"

definition lp_remove :: "uid \<Rightarrow> wsid \<Rightarrow> presence \<Rightarrow> presence" where
  "lp_remove u w p =
     (case p u of None \<Rightarrow> p
      | Some ws \<Rightarrow> let ws' = remove1 w ws in if ws' = [] then p(u := None) else p(u \<mapsto> ws'))"

definition sendToUser :: "uid \<Rightarrow> string \<Rightarrow> presence \<Rightarrow> bool \<times> frame list" where
  "sendToUser u payload p = (case p u of None \<Rightarrow> (False, []) | Some ws \<Rightarrow> (True, map (\<lambda>w. Text w payload) ws))"

section \<open>Callbacks\<close>

definition gw_handshake :: "string \<Rightarrow> bool" where
  "gw_handshake path = (case parseQuery path ''uid'' of None \<Rightarrow> False | Some v \<Rightarrow> atoll v > 0)"

definition notifyOpen :: "uid \<Rightarrow> string \<Rightarrow> 'b backend \<Rightarrow> 'b backend" where
  "notifyOpen u d b = (case b of Pool p \<Rightarrow> Pool (pool_notifyConnOpen u d p) | Single c \<Rightarrow> Single (lc_notifyConnOpen u d c))"

definition notifyClose :: "uid \<Rightarrow> string \<Rightarrow> 'b backend \<Rightarrow> 'b backend" where
  "notifyClose u d b = (case b of Pool p \<Rightarrow> Pool (pool_notifyConnClose u d p) | Single c \<Rightarrow> Single (lc_notifyConnClose u d c))"

definition callHandleMessage :: "'b breaker_lib \<Rightarrow> hashfn \<Rightarrow> rpc \<Rightarrow> ms \<Rightarrow> string list \<Rightarrow> uid \<Rightarrow> string \<Rightarrow> string \<Rightarrow> string
    \<Rightarrow> 'b backend \<Rightarrow> status \<times> string \<times> 'b backend" where
  "callHandleMessage B H rpc nowMs order u dev connId payload b =
     (case b of
        Pool p \<Rightarrow> (let (st, reply, calls, p') = pool_handleMessage B H rpc nowMs order u dev connId (to_string u) payload [] p
                  in (st, reply, Pool p'))
      | Single c \<Rightarrow> (let (st, reply, c', calls) = lc_handleMessage B rpc nowMs c u dev connId payload [] in (st, reply, Single c')))"

definition gw_open :: "wsid \<Rightarrow> string \<Rightarrow> 'b gateway \<Rightarrow> 'b gateway" where
  "gw_open w path g =
     (let pairs = parseQuery path;
          uidStr = (case pairs ''uid'' of Some v \<Rightarrow> v | None \<Rightarrow> ''0'');
          dev = (case pairs ''device'' of Some v \<Rightarrow> v | None \<Rightarrow> ''default'');
          u = atoll uidStr
      in g\<lparr>g_contexts := (g_contexts g)(w := (g_contexts g w)(''uid'' \<mapsto> uidStr, ''device'' \<mapsto> dev)),
           presence := lp_add u w (presence g), backend := notifyOpen u dev (backend g)\<rparr>)"

definition g_context :: "'b gateway \<Rightarrow> wsid \<Rightarrow> string \<Rightarrow> string \<Rightarrow> string" where
  "g_context g w k dflt = (case g_contexts g w k of Some v \<Rightarrow> v | None \<Rightarrow> dflt)"

definition gw_message :: "'b breaker_lib \<Rightarrow> hashfn \<Rightarrow> rpc \<Rightarrow> ms \<Rightarrow> string list \<Rightarrow> wsid \<Rightarrow> string option \<Rightarrow> 'b gateway
    \<Rightarrow> frame list \<times> 'b gateway" where
  "gw_message B H rpc nowMs order w txt g =
     (case txt of None \<Rightarrow> ([], g)
      | Some t \<Rightarrow>
        (let uidStr = g_context g w ''uid'' ''0''; dev = g_context g w ''device'' ''default''; u = atoll uidStr;
             connId = ''g-'' @ uidStr @ ''-'' @ to_string (int (reqCount g));
             (st, reply, b') = callHandleMessage B H rpc nowMs order u dev connId t (backend g);
             g' = g\<lparr>reqCount := reqCount g + 1, backend := b'\<rparr>
         in if fst st \<noteq> OK then ([Text w ''{\"type\":\"error\",\"code\":\"logic_unavailable\"}''], g')
            else (if reply \<noteq> [] then [Text w reply] else [], g')))"

definition gw_close :: "wsid \<Rightarrow> 'b gateway \<Rightarrow> 'b gateway" where
  "gw_close w g =
     (let uidStr = g_context g w ''uid'' ''0''; dev = g_context g w ''device'' ''default''; u = atoll uidStr
      in g\<lparr>presence := lp_remove u w (presence g), backend := notifyClose u dev (backend g)\<rparr>)"

definition pushCb :: "uid \<Rightarrow> string \<Rightarrow> 'b gateway \<Rightarrow> frame list" where
  "pushCb u payload g = snd (sendToUser u payload (presence g))"

text \<open>The answer of \<^verbatim>\<open>/health\<close> and the first step of the shutdown; then every session is closed.\<close>

definition gw_health :: "nat \<Rightarrow> 'b gateway \<Rightarrow> nat \<times> string" where
  "gw_health n g =
     (if draining g then (503, ''{\"status\":\"draining\",\"id\":\"'' @ gatewayId g @ ''\"}'')
      else (200, ''{\"status\":\"healthy\",\"id\":\"'' @ gatewayId g @ ''\",\"ws_sessions\":'' @ to_string (int n) @ ''}''))"

definition start_drain :: "'b gateway \<Rightarrow> 'b gateway" where
  "start_drain g = g\<lparr>draining := True\<rparr>"

definition drain_close :: "wsid list \<Rightarrow> frame list" where
  "drain_close all = map (\<lambda>w. CloseSession w 1001) all"

definition new_gateway :: "string \<Rightarrow> 'b backend \<Rightarrow> 'b gateway" where
  "new_gateway i b = \<lparr>gatewayId = i, presence = Map.empty, backend = b, reqCount = 0, g_contexts = (\<lambda>w. Map.empty), draining = False\<rparr>"

section \<open>Local sessions\<close>

text \<open>The user a path names, and the histories of a gateway with the users of its open sessions.\<close>

definition path_uid :: "string \<Rightarrow> uid" where
  "path_uid path = atoll (case parseQuery path ''uid'' of Some v \<Rightarrow> v | None \<Rightarrow> ''0'')"

inductive gw_history :: "'b gateway \<Rightarrow> (wsid \<rightharpoonup> uid) \<Rightarrow> bool" where
  start: "gw_history (new_gateway i b) Map.empty"
| opened: "gw_history g m \<Longrightarrow> m w = None \<Longrightarrow> gw_history (gw_open w path g) (m(w \<mapsto> path_uid path))"
| closed: "gw_history g m \<Longrightarrow> m w = Some u \<Longrightarrow> gw_history (gw_close w g) (m(w := None))"
| message: "gw_history g m \<Longrightarrow> gw_history (snd (gw_message B H rpc t order w txt g)) m"
| drain: "gw_history g m \<Longrightarrow> gw_history (start_drain g) m"

definition held :: "(wsid \<rightharpoonup> uid) \<Rightarrow> uid \<Rightarrow> wsid set" where
  "held m u = {w. m w = Some u}"

definition gw_ok :: "'b gateway \<Rightarrow> (wsid \<rightharpoonup> uid) \<Rightarrow> bool" where
  "gw_ok g m \<longleftrightarrow> finite (dom m) \<and>
     (\<forall>u. presence g u = (if held m u = {} then None else Some (sorted_list_of_set (held m u)))) \<and>
     (\<forall>w u. m w = Some u \<longrightarrow> atoll (g_context g w ''uid'' ''0'') = u)"

lemma finite_held: "finite (dom m) \<Longrightarrow> finite (held m u)"
  by (rule finite_subset [of _ "dom m"]) (auto simp: held_def)

lemma held_open: "m w = None \<Longrightarrow> held (m(w \<mapsto> v)) u = (if u = v then insert w (held m u) else held m u)"
  by (auto simp: held_def)

lemma held_close: "m w = Some v \<Longrightarrow> held (m(w := None)) u = (if u = v then held m u - {w} else held m u)"
  by (auto simp: held_def)

lemma insort_insert_sorted_list: "finite A \<Longrightarrow> w \<notin> A \<Longrightarrow> insort_insert w (sorted_list_of_set A) = sorted_list_of_set (insert w A)"
  by (simp add: insort_insert_key_def sorted_list_of_set_insert)

lemma gw_ok_open:
  assumes "gw_ok g m" "m w = None"
  shows "gw_ok (gw_open w path g) (m(w \<mapsto> path_uid path))"
proof -
  let ?v = "path_uid path"
  have fin: "finite (held m u)" for u using assms(1) finite_held by (auto simp: gw_ok_def)
  have p: "presence (gw_open w path g) = lp_add ?v w (presence g)"
    by (simp add: gw_open_def path_uid_def Let_def)
  have "w \<notin> held m u" for u using assms(2) by (simp add: held_def)
  then have "presence (gw_open w path g) u =
      (if held (m(w \<mapsto> ?v)) u = {} then None else Some (sorted_list_of_set (held (m(w \<mapsto> ?v)) u)))" for u
    using assms(1) fin unfolding p held_open [of m w, OF assms(2)]
    by (auto simp: lp_add_def gw_ok_def insort_insert_sorted_list) (simp add: insort_insert_key_def)
  moreover have "g_context (gw_open w path g) v ''uid'' ''0'' =
      (if v = w then (case parseQuery path ''uid'' of Some x \<Rightarrow> x | None \<Rightarrow> ''0'') else g_context g v ''uid'' ''0'')" for v
    by (simp add: g_context_def gw_open_def Let_def)
  ultimately show ?thesis using assms(1) by (simp add: gw_ok_def path_uid_def)
qed

lemma gw_ok_close:
  assumes "gw_ok g m" "m w = Some v"
  shows "gw_ok (gw_close w g) (m(w := None))"
proof -
  have fin: "finite (held m u)" for u using assms(1) finite_held by (auto simp: gw_ok_def)
  have p: "presence (gw_close w g) = lp_remove v w (presence g)"
    using assms by (simp add: gw_close_def gw_ok_def Let_def)
  have w: "w \<in> held m v" using assms(2) by (simp add: held_def)
  then have v: "presence g v = Some (sorted_list_of_set (held m v))" using assms(1) by (auto simp: gw_ok_def)
  have r: "remove1 w (sorted_list_of_set (held m v)) = sorted_list_of_set (held m v - {w})"
    by (rule sorted_list_of_set_remove [OF fin, symmetric])
  have "presence (gw_close w g) u =
      (if held (m(w := None)) u = {} then None else Some (sorted_list_of_set (held (m(w := None)) u)))" for u
    using assms(1) v r fin [of v] unfolding p held_close [of m w, OF assms(2)]
    by (auto simp: lp_remove_def gw_ok_def Let_def)
  then show ?thesis using assms(1) by (simp add: gw_ok_def g_context_def gw_close_def Let_def)
qed

lemma gw_history_ok: "gw_history g m \<Longrightarrow> gw_ok g m"
proof (induction rule: gw_history.induct)
  case (start i b)
  then show ?case by (simp add: gw_ok_def new_gateway_def held_def)
next
  case (opened g m w path)
  then show ?case by (intro gw_ok_open)
next
  case (closed g m w u)
  then show ?case by (intro gw_ok_close)
next
  case (message g m B H rpc t order w tx)
  have "presence (snd (gw_message B H rpc t order w tx g)) = presence g" "g_contexts (snd (gw_message B H rpc t order w tx g)) = g_contexts g"
    by (simp_all add: gw_message_def Let_def split: option.split prod.split)
  with message.IH show ?case by (simp add: gw_ok_def g_context_def)
next
  case (drain g m)
  then show ?case by (simp add: gw_ok_def g_context_def start_drain_def)
qed

lemma push_frames:
  assumes "gw_history g m"
  shows "pushCb u payload g = map (\<lambda>w. Text w payload) (sorted_list_of_set (held m u))"
  using gw_history_ok [OF assms] by (simp add: pushCb_def sendToUser_def gw_ok_def)

section \<open>From gateway to gateway\<close>

text \<open>
  C8. A message passes from a client of one gateway to the sessions of the recipient at another:
  when the logic service stores it, the sender's session gets the acknowledgement that the
  service wrote, the message is a row under the acknowledged identifier, and the command on
  the stream of the recipient's gateway makes that gateway write the message to exactly the
  sessions it holds for the recipient, whatever connections came and went there before.
\<close>

theorem message_reaches_other_gateway:
  assumes sender: "backend g = Single c" "br_allow B (lc_breaker c) = (True, b)"
      "atoll (g_context g w ''uid'' ''0'') = u" "g_context g w ''device'' ''default'' = dev"
    and req: "req = mk_request c t u dev (''g-'' @ g_context g w ''uid'' ''0'' @ ''-'' @ to_string (int (reqCount g))) txt"
      "private_request L req to content cid"
    and logic: "HandleMessage L x req (d, r) = (Some a, d', r')" "rs_code a = IM_OK" "rpc (lc_addr c) req = ((OK, []), rs_inline_reply a)"
      "rs_inline_reply a \<noteq> []"
    and stream: "userToGateway r to = Some gid" "gateways r gid = Some s" "wrote x s"
    and recipient: "gw_history h m"
  shows "fst (gw_message B H rpc t order w (Some txt) g) = [Text w (lib_dump L (logic_ack cid (to_string (snow x)) (clock x)))]
    \<and> pmsgs d' = pmsgs d @ [new_msg (to_string (snow x)) u to content (clock x) None]
    \<and> (\<exists>cmd. pushed r' = pushed r @ [cmd] \<and> pc_stream cmd = s \<and> pushCb (pc_uid cmd) (pc_payload cmd) h =
        map (\<lambda>v. Text v (lib_dump L (logic_fwd u to content (to_string (snow x)) (clock x)))) (sorted_list_of_set (held m to)))"
proof -
  have "rq_uid req = u" by (simp add: req(1) mk_request_def)
  obtain e where save: "savePrivateMessage (saved x) (to_string (snow x)) (rq_uid req) to content (clock x) d = (True, e)"
    using logic(1,2) unfolding HandleMessage_request [OF req(2)]
    by (auto simp: response_def Let_def split: prod.splits if_splits)
  have run: "rs_inline_reply a = lib_dump L (logic_ack cid (to_string (snow x)) (clock x))" "d' = e"
      "r' = fst (pushToUser (wrote x) to (lib_dump L (logic_fwd (rq_uid req) to content (to_string (snow x)) (clock x))) r)"
    using logic(1) unfolding HandleMessage_request [OF req(2)] save by (auto simp: response_def)
  have "fst (gw_message B H rpc t order w (Some txt) g) = [Text w (rs_inline_reply a)]"
    using sender logic(3,4)
    by (simp add: gw_message_def callHandleMessage_def lc_handleMessage_def Let_def flip: req(1))
       (simp add: req(1) mk_request_def)
  moreover have "pmsgs d' = pmsgs d @ [new_msg (to_string (snow x)) u to content (clock x) None]"
    using savePrivate_result [OF save] run(2) \<open>rq_uid req = u\<close> by simp
  moreover have "pushed r' = pushed r @ [\<lparr>pc_stream = s, pc_uid = to,
      pc_payload = lib_dump L (logic_fwd u to content (to_string (snow x)) (clock x))\<rparr>]"
    using run(3) stream \<open>rq_uid req = u\<close> by (simp add: pushToUser_def)
  ultimately show ?thesis using run(1) push_frames [OF recipient] by simp
qed

section \<open>Two devices of one user\<close>

text \<open>
  The logic service keeps one gateway per user and forgets it at the first close that the
  gateway reports. When a user is connected to a gateway with two devices and one of them
  disconnects, the gateway still holds the other session, and the service takes the user for
  offline.
\<close>

theorem second_device_unreachable:
  assumes "backend g = Single c" "lc_queue c = []" "presence g = Map.empty" "w1 \<noteq> w2" "path_uid p1 = u" "path_uid p2 = u"
    and "g3 = gw_close w1 (gw_open w2 p2 (gw_open w1 p1 g))" "backend g3 = Single c3"
    and "GatewayReg.sessions st s = Some ss"
    and "st' = fold (\<lambda>ev st. on_frame s t ev (the (GatewayReg.sessions st s)) st) (lc_queue c3) st"
  shows "pushCb u payload g3 = [Text w2 payload]
    \<and> pushToUser written u payload (lg_reg st') = (lg_reg st', False)"
proof -
  define dev where "dev p = (case parseQuery p ''device'' of Some v \<Rightarrow> v | None \<Rightarrow> ''default'')" for p
  have "lc_queue c3 = [ConnOpen u (dev p1), ConnOpen u (dev p2), ConnClose u (dev p1)]"
    using assms(1,2,4-8)
    by (auto simp: gw_close_def gw_open_def notifyOpen_def notifyClose_def lc_notifyConnOpen_def lc_notifyConnClose_def enqueue_def
        g_context_def path_uid_def dev_def Let_def)
  then have "userToGateway (lg_reg st') u = None"
    using assms(9,10) by (simp add: on_frame_def onUserOpen_def onUserClose_def Let_def)
  then have "pushToUser written u payload (lg_reg st') = (lg_reg st', False)" by (simp add: pushToUser_def)
  moreover have "presence g3 = lp_remove u w1 (lp_add u w2 (lp_add u w1 Map.empty))"
    using assms(3-7) by (simp add: gw_close_def gw_open_def g_context_def path_uid_def Let_def)
  then have "presence g3 u = Some [w2]"
    using assms(4) by (auto simp: lp_remove_def lp_add_def insort_insert_key_def insort_key.simps split: if_splits)
  ultimately show ?thesis by (simp add: pushCb_def sendToUser_def)
qed

section \<open>Witnesses\<close>

definition demo_client :: "nat lclient" where
  "demo_client = new_lclient demo_breaker ''a:2'' ''g1''"

definition demo_gateway :: "string \<Rightarrow> nat gateway" where
  "demo_gateway i = new_gateway i (Single demo_client)"

definition demo_registry :: gwreg where
  "demo_registry = registerGateway ''g2'' 7 (onUserOpen 2 ''g2'' new_gwreg)"

lemma demo_paths:
  "path_uid ''/ws?uid=1'' = 1" "path_uid ''/ws?uid=2'' = 2" "path_uid ''/ws?uid=2&device=web'' = 2"
  "parseQuery ''/ws?uid=1'' ''uid'' = Some ''1''" "parseQuery ''/ws?uid=1'' ''device'' = None" "atoll ''1'' = 1"
  by code_simp+

theorem message_reaches_other_gateway_witness:
  "let g = gw_open 4 ''/ws?uid=1'' (demo_gateway ''g1''); h = gw_open 3 ''/ws?uid=2'' (demo_gateway ''g2'');
       req = mk_request demo_client 5 1 ''default'' (''g-1-'' @ to_string 0) ''p'';
       r' = snd (snd (HandleMessage demo_jlib (demo_lctx 9) req (empty_db, demo_registry)))
   in fst (gw_message demo_breaker (\<lambda>k. 0) (\<lambda>a q. ((OK, []), ''j'')) 5 [] 4 (Some ''p'') g) = [Text 4 ''j'']
     \<and> (\<exists>cmd. pushed r' = [cmd] \<and> pushCb (pc_uid cmd) (pc_payload cmd) h = [Text 3 ''j''])"
proof -
  let ?g = "gw_open 4 ''/ws?uid=1'' (demo_gateway ''g1'')" and ?h = "gw_open 3 ''/ws?uid=2'' (demo_gateway ''g2'')"
  let ?req = "mk_request demo_client 5 1 ''default'' (''g-1-'' @ to_string 0) ''p''"
  have ctx: "g_context ?g 4 ''uid'' ''0'' = ''1''" "g_context ?g 4 ''device'' ''default'' = ''default''"
    by (simp_all add: g_context_def gw_open_def demo_paths Let_def)
  have b: "backend ?g = Single (enqueue (ConnOpen 1 ''default'') demo_client)" "reqCount ?g = 0"
    by (simp_all add: gw_open_def demo_gateway_def new_gateway_def notifyOpen_def lc_notifyConnOpen_def demo_paths Let_def)
  have h: "gw_history ?h (Map.empty(3 \<mapsto> 2))"
    using gw_history.opened [OF gw_history.start [of "''g2''" "Single demo_client"], of 3 "''/ws?uid=2''"]
    by (simp add: demo_gateway_def demo_paths(2))
  have held: "held (Map.empty(3 \<mapsto> 2)) 2 = {3}" by (auto simp: held_def)
  have p: "private_request demo_jlib ?req 2 ''hi'' []"
    by (simp add: private_request_def demo_jlib_def recipient_def)
  obtain a d' r' where run: "HandleMessage demo_jlib (demo_lctx 9) ?req (empty_db, demo_registry) = (Some a, d', r')" "rs_code a = IM_OK"
      "rs_inline_reply a = ''j''"
    unfolding HandleMessage_request [OF p]
    by (simp add: demo_lctx_def savePrivateMessage_def savePrivateMessageTx_def prepared_def ins_msg_def table_def set_table_def
        empty_db_def response_def demo_jlib_def)
  have "fst (gw_message demo_breaker (\<lambda>k. 0) (\<lambda>a q. ((OK, []), ''j'')) 5 [] 4 (Some ''p'') ?g)
      = [Text 4 (lib_dump demo_jlib (logic_ack [] (to_string (snow (demo_lctx 9))) (clock (demo_lctx 9))))]
    \<and> pmsgs d' = pmsgs empty_db @ [new_msg (to_string (snow (demo_lctx 9))) 1 2 ''hi'' (clock (demo_lctx 9)) None]
    \<and> (\<exists>cmd. pushed r' = pushed demo_registry @ [cmd] \<and> pc_stream cmd = 7 \<and> pushCb (pc_uid cmd) (pc_payload cmd) ?h =
        map (\<lambda>v. Text v (lib_dump demo_jlib (logic_fwd 1 2 ''hi'' (to_string (snow (demo_lctx 9))) (clock (demo_lctx 9)))))
          (sorted_list_of_set (held (Map.empty(3 \<mapsto> 2)) 2)))"
    by (rule message_reaches_other_gateway [OF b(1) _ _ ctx(2) _ p run(1,2) _ _ _ _ _ h, where b = 0 and gid = "''g2''"])
       (simp_all add: ctx b run(3) demo_paths demo_client_def demo_breaker_def new_lclient_def enqueue_def mk_request_def
         demo_registry_def registerGateway_def onUserOpen_def new_gwreg_def demo_lctx_def)
  then show ?thesis
    unfolding Let_def run(1) held by (auto simp: demo_jlib_def demo_registry_def registerGateway_def onUserOpen_def new_gwreg_def)
qed

theorem second_device_unreachable_witness:
  "let g3 = gw_close 1 (gw_open 2 ''/ws?uid=2&device=web'' (gw_open 1 ''/ws?uid=2'' (demo_gateway ''g2'')));
       ss = \<lparr>ss_gatewayId = ''g2'', ss_lastSeenMs = 0\<rparr>;
       st = logic_init\<lparr>GatewayReg.sessions := [7 \<mapsto> ss]\<rparr>;
       st' = fold (\<lambda>ev st. on_frame 7 1 ev (the (GatewayReg.sessions st 7)) st)
         (case backend g3 of Single c \<Rightarrow> lc_queue c | Pool p \<Rightarrow> []) st
   in pushCb 2 ''hi'' g3 = [Text 2 ''hi''] \<and> pushToUser (\<lambda>s. True) 2 ''hi'' (lg_reg st') = (lg_reg st', False)"
proof -
  let ?g3 = "gw_close 1 (gw_open 2 ''/ws?uid=2&device=web'' (gw_open 1 ''/ws?uid=2'' (demo_gateway ''g2'')))"
  obtain c3 where c3: "backend ?g3 = Single c3"
    by (simp add: gw_close_def gw_open_def demo_gateway_def new_gateway_def notifyOpen_def notifyClose_def Let_def)
  show ?thesis
    unfolding Let_def c3 backend.case
    by (rule second_device_unreachable [OF _ _ _ _ demo_paths(2,3) refl c3 _ refl, where c = demo_client])
       (simp_all add: demo_gateway_def new_gateway_def demo_client_def new_lclient_def)
qed

end
