(* ===== verification/Upload.thy ===== *)
theory Upload
  imports HttpApi
begin

text \<open>
  The upload and health routes of \<^verbatim>\<open>server/ChatServer.h\<close>: a file in one request, or in chunks that
  are collected in a directory and joined at the end. To the state of the server comes the part
  of the file system the routes use. The multipart parser is a parameter, opening a file and
  making a directory are outcomes of the request.
\<close>

section \<open>State\<close>

datatype uresponse = U401 | U400 string | U500 string | U403 string | U404 string | U503 json | U200 json | URaised

record upctx =
  http :: reqctx
  metaRead :: outcome
  metaWrite :: outcome
  thumbok :: outcome
  uploadId :: string
  mkdirok :: bool
  opens :: "string \<Rightarrow> bool"

record 'r disk =
  host :: "'r server"
  files :: "string \<rightharpoonup> string"

type_synonym 'r uhandler = "'r env \<Rightarrow> upctx \<Rightarrow> request \<Rightarrow> 'r disk \<Rightarrow> uresponse \<times> 'r disk"

definition with_auth :: "'r env \<Rightarrow> upctx \<Rightarrow> request \<Rightarrow> 'r disk \<Rightarrow> (uid \<Rightarrow> uresponse \<times> 'r disk) \<Rightarrow> uresponse \<times> 'r disk" where
  "with_auth E x req st k =
     (case authFromRequest E (http x) req (host st) of None \<Rightarrow> (U401, st)
      | Some c \<Rightarrow> if c_userId c < 0 then (U401, st) else k (c_userId c))"

definition with_body :: "'r env \<Rightarrow> request \<Rightarrow> 'r disk \<Rightarrow> (json \<Rightarrow> uresponse \<times> 'r disk) \<Rightarrow> uresponse \<times> 'r disk" where
  "with_body E req st k = (case lib_parse (lib E) (body req) of None \<Rightarrow> (U400 ''invalid JSON'', st) | Some j \<Rightarrow> k j)"

definition need :: "'a option \<Rightarrow> 'r disk \<Rightarrow> ('a \<Rightarrow> uresponse \<times> 'r disk) \<Rightarrow> uresponse \<times> 'r disk" where
  "need v st k = (case v of None \<Rightarrow> (URaised, st) | Some a \<Rightarrow> k a)"

definition in_store :: "('r \<Rightarrow> 'r) \<Rightarrow> 'r disk \<Rightarrow> 'r disk" where
  "in_store f st = st\<lparr>host := (host st)\<lparr>store := f (store (host st))\<rparr>\<rparr>"

section \<open>Names\<close>

definition kChunkSize :: int where "kChunkSize = 1024 * 1024"

definition kMaxFileSize :: int where "kMaxFileSize = 50 * 1024 * 1024"

text \<open>\<^verbatim>\<open>s.substr(s.rfind('.'))\<close>, empty when there is no dot.\<close>

definition file_ext :: "string \<Rightarrow> string" where
  "file_ext s = (if CHR ''.'' \<in> set s then CHR ''.'' # rev (takeWhile (\<lambda>c. c \<noteq> CHR ''.'') (rev s)) else [])"

definition to_lower :: "char \<Rightarrow> char" where
  "to_lower c = (let n = (of_char c :: nat) in if 65 \<le> n \<and> n \<le> 90 then char_of (n + 32) else c)"

definition imageExts :: "string list" where
  "imageExts = [''.jpg'', ''.jpeg'', ''.png'', ''.gif'', ''.bmp'', ''.webp'']"

definition allowedExts :: "string list" where
  "allowedExts = imageExts @ [''.pdf'', ''.doc'', ''.docx'', ''.xls'', ''.xlsx'', ''.ppt'', ''.pptx'', ''.txt'', ''.md'', ''.zip'', ''.rar'',
     ''.7z'', ''.mp3'', ''.mp4'', ''.wav'', ''.avi'', ''.mov'']"

definition ext_allowed :: "string \<Rightarrow> bool" where
  "ext_allowed ext \<longleftrightarrow> map to_lower ext = [] \<or> map to_lower ext \<in> set allowedExts"

definition is_image :: "string \<Rightarrow> bool" where
  "is_image ext \<longleftrightarrow> map to_lower ext \<in> set imageExts"

definition upload_key :: "string \<Rightarrow> string" where
  "upload_key i = ''upload:'' @ i"

definition chunk_path :: "string \<Rightarrow> int \<Rightarrow> string" where
  "chunk_path i n = ''/tmp/muduo-im-upload/'' @ i @ ''/chunk_'' @ to_string n"

definition upload_path :: "string \<Rightarrow> string" where
  "upload_path name = ''../uploads/'' @ name"

text \<open>\<^verbatim>\<open>std::stoi\<close> with its exceptions caught over a variable that is -1.\<close>

definition stoi_or :: "string \<Rightarrow> int" where
  "stoi_or s = (case stoi s of None \<Rightarrow> -1 | Some v \<Rightarrow> v)"

section \<open>Chunks\<close>

definition upload_meta :: "string \<Rightarrow> int \<Rightarrow> int \<Rightarrow> string \<Rightarrow> uid \<Rightarrow> ms \<Rightarrow> json list \<Rightarrow> json" where
  "upload_meta fileName totalSize totalChunks ext u t recv =
     obj [(''file_name'', JStr fileName), (''total_size'', JInt totalSize), (''chunk_size'', JInt kChunkSize),
       (''total_chunks'', JInt totalChunks), (''ext'', JStr ext), (''uid'', JInt u), (''created_at'', JInt t), (''received'', JArr recv)]"

definition handleUploadInit :: "'r uhandler" where
  "handleUploadInit E x req st = with_auth E x req st (\<lambda>u. with_body E req st (\<lambda>j.
     need (value_str j ''file_name'' []) st (\<lambda>fileName. need (value_int j ''total_size'' 0) st (\<lambda>totalSize.
       if fileName = [] \<or> totalSize \<le> 0 \<or> totalSize > kMaxFileSize then (U400 ''invalid file_name / total_size'', st)
       else
         let ext = file_ext fileName; totalChunks = (totalSize + kChunkSize - 1) div kChunkSize
         in if \<not> ext_allowed ext then (U400 ''file type not allowed'', st)
            else if \<not> mkdirok x then (U500 ''mkdir failed'', st)
            else
              (U200 (obj [(''success'', JBool True), (''upload_id'', JStr (uploadId x)), (''chunk_size'', JInt kChunkSize),
                 (''total_chunks'', JInt totalChunks)]),
               if metaWrite x Acquire
               then in_store (setex (redis_api E) (now (http x)) (upload_key (uploadId x))
                      (lib_dump (lib E) (upload_meta fileName totalSize totalChunks ext u (now (http x)) [])) 86400) st
               else st)))))"

text \<open>The metadata, read again by every later request.\<close>

definition read_meta :: "'r env \<Rightarrow> upctx \<Rightarrow> string \<Rightarrow> 'r disk \<Rightarrow> string" where
  "read_meta E x i st = (if metaRead x Acquire then redis_get (redis_api E) (now (http x)) (upload_key i) (store (host st)) else [])"

definition received :: "json \<Rightarrow> json" where
  "received meta = (case jlookup meta ''received'' of Some v \<Rightarrow> v | None \<Rightarrow> JNull)"

text \<open>\<^verbatim>\<open>auto& recv = meta["received"]\<close> makes the member if it is missing.\<close>

definition touch :: "json \<Rightarrow> json" where
  "touch meta = (if jlookup meta ''received'' = None then jset meta ''received'' JNull else meta)"

definition has_index :: "int \<Rightarrow> json \<Rightarrow> bool" where
  "has_index i v = (case v of JInt n \<Rightarrow> wrap32 n = i | _ \<Rightarrow> False)"

definition add_index :: "int \<Rightarrow> json \<Rightarrow> json option" where
  "add_index i recv =
     (if list_ex (has_index i) (elements recv) then Some recv
      else case recv of JArr xs \<Rightarrow> Some (JArr (xs @ [JInt i])) | JNull \<Rightarrow> Some (JArr [JInt i]) | _ \<Rightarrow> None)"

definition handleUploadChunk :: "'r uhandler" where
  "handleUploadChunk E x req st = with_auth E x req st (\<lambda>u.
     let i = getParam req ''upload_id'' []; idxStr = getParam req ''index'' []
     in if i = [] \<or> idxStr = [] then (U400 ''missing upload_id or index'', st)
        else
          let idx = stoi_or idxStr; metaJson = read_meta E x i st
          in if idx < 0 then (U400 ''invalid index'', st)
             else if metaJson = [] then (U400 ''upload_id not found or expired'', st)
             else case lib_parse (lib E) metaJson of
                    None \<Rightarrow> (U500 ''meta corrupt'', st)
                  | Some meta \<Rightarrow>
                    need (value_int meta ''uid'' 0) st (\<lambda>owner.
                      if owner \<noteq> u then (U403 ''not your upload'', st)
                      else need (value_int meta ''total_chunks'' 0) st (\<lambda>totalChunks.
                        if idx \<ge> totalChunks then (U400 ''index out of range'', st)
                        else if int (length (body req)) > kChunkSize then (U400 ''chunk too large'', st)
                        else if \<not> opens x (chunk_path i idx) then (U500 ''write chunk failed'', st)
                        else
                          let st1 = st\<lparr>files := (files st)(chunk_path i idx \<mapsto> body req)\<rparr>
                          in need (add_index idx (received meta)) st1 (\<lambda>recv.
                               (U200 (obj [(''success'', JBool True), (''index'', JInt idx),
                                  (''received_count'', JInt (int (length (elements recv)))), (''total_chunks'', JInt totalChunks)]),
                                if metaWrite x Acquire
                                then in_store (setex (redis_api E) (now (http x)) (upload_key i)
                                       (lib_dump (lib E) (jset meta ''received'' recv)) 86400) st1
                                else st1)))))"

definition handleUploadStatus :: "'r uhandler" where
  "handleUploadStatus E x req st = with_auth E x req st (\<lambda>u.
     let i = getParam req ''upload_id'' []
     in if i = [] then (U400 ''missing upload_id'', st)
        else
          let metaJson = read_meta E x i st
          in if metaJson = [] then (U404 ''upload not found or expired'', st)
             else case lib_parse (lib E) metaJson of
                    None \<Rightarrow> (U403 ''not your upload'', st)
                  | Some meta \<Rightarrow>
                    need (value_int meta ''uid'' 0) st (\<lambda>owner.
                      if owner \<noteq> u then (U403 ''not your upload'', st)
                      else need (value_int meta ''total_chunks'' 0) st (\<lambda>totalChunks. need (value_str meta ''file_name'' []) st (\<lambda>name.
                        (U200 (obj [(''success'', JBool True),
                           (''received_chunks'', (case jlookup meta ''received'' of Some v \<Rightarrow> v | None \<Rightarrow> JArr [])),
                           (''total_chunks'', JInt totalChunks), (''file_name'', JStr name)]), st)))))"

text \<open>
  Joining the chunks, from \<open>k\<close> on, \<open>n\<close> of them: \<open>None\<close> when one is missing. Writing an empty stream
  buffer (\<^verbatim>\<open>out << in.rdbuf()\<close>) sets the failure bit of the output, and nothing is written after it.
\<close>

fun join_chunks :: "(string \<rightharpoonup> string) \<Rightarrow> string \<Rightarrow> nat \<Rightarrow> nat \<Rightarrow> bool \<Rightarrow> string option" where
  "join_chunks fs i k 0 failed = Some []"
| "join_chunks fs i k (Suc n) failed =
     (case fs (chunk_path i (int k)) of
        None \<Rightarrow> None
      | Some c \<Rightarrow> map_option (\<lambda>rest. (if failed then [] else c) @ rest) (join_chunks fs i (Suc k) n (failed \<or> c = [])))"

definition drop_chunks :: "string \<Rightarrow> int \<Rightarrow> (string \<rightharpoonup> string) \<Rightarrow> (string \<rightharpoonup> string)" where
  "drop_chunks i n fs = foldl (\<lambda>fs k. fs(chunk_path i (int k) := None)) fs [0..<nat n]"

fun missing_chunk :: "(string \<rightharpoonup> string) \<Rightarrow> string \<Rightarrow> nat \<Rightarrow> nat \<Rightarrow> nat" where
  "missing_chunk fs i k 0 = k"
| "missing_chunk fs i k (Suc n) = (if fs (chunk_path i (int k)) = None then k else missing_chunk fs i (Suc k) n)"

definition thumb_job :: "'r env \<Rightarrow> upctx \<Rightarrow> string \<Rightarrow> string \<Rightarrow> 'r disk \<Rightarrow> 'r disk" where
  "thumb_job E x ext name st =
     (if is_image ext \<and> thumbok x Acquire
      then in_store (lpush (redis_api E) ''thumb_queue'' (lib_dump (lib E) (obj [(''saved_name'', JStr name),
             (''original_path'', JStr (upload_path name)), (''sizes'', JArr [JInt 200, JInt 600])]))) st
      else st)"

definition upload_result :: "string \<Rightarrow> string \<Rightarrow> string \<Rightarrow> int \<Rightarrow> json" where
  "upload_result base ext filename sz =
     (let j = obj [(''success'', JBool True), (''url'', JStr (''/uploads/'' @ base @ ext)), (''filename'', JStr filename), (''size'', JInt sz)]
      in if is_image ext
         then jset (jset j ''thumb_200'' (JStr (''/uploads/'' @ base @ ''_thumb_200'' @ ext)))
                ''thumb_600'' (JStr (''/uploads/'' @ base @ ''_thumb_600'' @ ext))
         else j)"

definition handleUploadComplete :: "'r uhandler" where
  "handleUploadComplete E x req st = with_auth E x req st (\<lambda>u. with_body E req st (\<lambda>j.
     need (value_str j ''upload_id'' []) st (\<lambda>i.
       if i = [] then (U400 ''missing upload_id'', st)
       else
         let metaJson = read_meta E x i st
         in if metaJson = [] then (U400 ''upload_id not found'', st)
            else case lib_parse (lib E) metaJson of
                   None \<Rightarrow> (U403 ''not your upload'', st)
                 | Some meta \<Rightarrow>
                   need (value_int meta ''uid'' 0) st (\<lambda>owner.
                     if owner \<noteq> u then (U403 ''not your upload'', st)
                     else need (value_int meta ''total_chunks'' 0) st (\<lambda>totalChunks.
                       if int (length (elements (received meta))) \<noteq> totalChunks then (U400 ''not all chunks received'', st)
                       else need (value_str meta ''ext'' []) st (\<lambda>ext.
                         let finalName = i @ ext; finalPath = upload_path finalName
                         in if \<not> opens x finalPath then (U500 ''create final failed'', st)
                            else
                              case join_chunks (files st) i 0 (nat totalChunks) False of
                                None \<Rightarrow> (U500 (''missing chunk '' @ to_string (int (missing_chunk (files st) i 0 (nat totalChunks)))),
                                         st\<lparr>files := (files st)(finalPath := None)\<rparr>)
                              | Some content \<Rightarrow>
                                (let st1 = st\<lparr>files := drop_chunks i totalChunks ((files st)(finalPath \<mapsto> content))\<rparr>;
                                     meta' = (if metaWrite x Acquire then jset (touch meta) ''completed'' (JBool True) else touch meta);
                                     st2 = (if metaWrite x Acquire
                                            then in_store (setex (redis_api E) (now (http x)) (upload_key i) (lib_dump (lib E) meta') 3600) st1
                                            else st1);
                                     st3 = thumb_job E x ext finalName st2
                                 in need (value_str meta' ''file_name'' []) st3 (\<lambda>name. need (value_int meta' ''total_size'' 0) st3 (\<lambda>sz.
                                      (U200 (upload_result i ext name sz), st3))))))))))"

section \<open>Whole files\<close>

record part =
  p_isFile :: bool
  p_filename :: string
  p_data :: string

text \<open>The parser: the boundary of a content type, and the parts of a body.\<close>

record multipart =
  boundary_of :: "string \<Rightarrow> string"
  parts_of :: "string \<Rightarrow> string \<Rightarrow> part list"

definition save_part :: "'r env \<Rightarrow> upctx \<Rightarrow> part \<Rightarrow> 'r disk \<Rightarrow> uresponse \<times> 'r disk" where
  "save_part E x p st =
     (let ext = file_ext (p_filename p); savedName = uploadId x @ ext
      in if int (length (p_data p)) > kMaxFileSize then (U400 ''file too large (max 50MB)'', st)
         else if \<not> ext_allowed ext then (U400 ''file type not allowed'', st)
         else if \<not> opens x (upload_path savedName) then (U500 ''failed to save file'', st)
         else (U200 (upload_result (uploadId x) ext (p_filename p) (int (length (p_data p)))),
               thumb_job E x ext savedName (st\<lparr>files := (files st)(upload_path savedName \<mapsto> p_data p)\<rparr>)))"

definition handleUpload :: "multipart \<Rightarrow> 'r uhandler" where
  "handleUpload M E x req st = with_auth E x req st (\<lambda>u.
     let boundary = boundary_of M (header req ''content-type'')
     in if boundary = [] then (U400 ''missing boundary'', st)
        else
          let parts = parts_of M (body req) boundary
          in if parts = [] then (U400 ''no file uploaded'', st)
             else case find (\<lambda>p. p_isFile p \<and> p_data p \<noteq> []) parts of
                    None \<Rightarrow> (U400 ''no file found in upload'', st)
                  | Some p \<Rightarrow> save_part E x p st)"

section \<open>Health\<close>

datatype breaker_state = Closed | Open | HalfOpen

definition breaker_name :: "breaker_state \<Rightarrow> string" where
  "breaker_name b = (case b of Closed \<Rightarrow> ''closed'' | Open \<Rightarrow> ''open'' | HalfOpen \<Rightarrow> ''half-open'')"

definition handleHealth :: "'r env \<Rightarrow> outcome \<Rightarrow> outcome \<Rightarrow> breaker_state \<Rightarrow> breaker_state \<Rightarrow> 'r server \<Rightarrow> uresponse" where
  "handleHealth E mysql redis mb rb s =
     (let mysqlOk = (mysql Acquire \<and> mysql (Query 1)); redisOk = (redis Acquire \<and> redis (Query 1));
          result = obj [(''status'', JStr (if mysqlOk \<and> redisOk then ''ok'' else ''degraded'')),
            (''mysql'', JStr (if mysqlOk then ''ok'' else ''down'')), (''redis'', JStr (if redisOk then ''ok'' else ''down'')),
            (''online_users'', JInt (int (length (getOnlineUsers (is_open E) (om s))))),
            (''mysql_breaker'', JStr (breaker_name mb)), (''redis_breaker'', JStr (breaker_name rb))]
      in if \<not> mysqlOk \<or> \<not> redisOk then U503 result else U200 result)"

section \<open>Joining\<close>

lemma sep_split:
  assumes "xs @ c # ys = xs' @ c # ys'" "c \<notin> set ys" "c \<notin> set ys'"
  shows "xs = xs' \<and> ys = ys'"
proof -
  have t: "takeWhile (\<lambda>d. d \<noteq> c) (rev zs @ c # rev ws) = rev zs" if "c \<notin> set zs" for zs ws
    using that by (subst takeWhile_append2) auto
  have "rev ys @ c # rev xs = rev ys' @ c # rev xs'" using arg_cong [OF assms(1), of rev] by simp
  with t [OF assms(2), of xs] t [OF assms(3), of xs'] have "rev ys = rev ys'" by metis
  with assms(1) show ?thesis by simp
qed

lemma no_slash: "CHR ''/'' \<notin> set (to_string n)"
proof -
  have "\<not> is_digit (CHR ''/'')" by (simp add: is_digit_def)
  then show ?thesis using nat_digits_is_digit by (auto simp: to_string_def)
qed

lemma chunk_path_inj [simp]: "chunk_path i n = chunk_path i' n' \<longleftrightarrow> i = i' \<and> n = n'"
proof
  assume "chunk_path i n = chunk_path i' n'"
  then have "i @ CHR ''/'' # (''chunk_'' @ to_string n) = i' @ CHR ''/'' # (''chunk_'' @ to_string n')"
    by (simp add: chunk_path_def)
  then have "i = i' \<and> ''chunk_'' @ to_string n = ''chunk_'' @ to_string n'"
    by (rule sep_split) (simp_all add: no_slash)
  then show "i = i' \<and> n = n'" by simp
qed simp

lemma upload_path_chunk [simp]: "upload_path p \<noteq> chunk_path i n" "chunk_path i n \<noteq> upload_path p"
  by (simp_all add: upload_path_def chunk_path_def)

lemma join_chunks_concat:
  assumes "\<And>j. j < length cs \<Longrightarrow> fs (chunk_path i (int (k + j))) = Some (cs ! j)"
  shows "join_chunks fs i k (length cs) failed = Some (if failed then [] else concat (takeWhile (\<lambda>c. c \<noteq> []) cs))"
  using assms
proof (induction cs arbitrary: k failed)
  case (Cons c cs)
  have "fs (chunk_path i (int (Suc k + j))) = Some (cs ! j)" if "j < length cs" for j
    using Cons.prems [of "Suc j"] that by simp
  from Cons.IH [OF this] Cons.prems [of 0] show ?case by auto
qed simp

lemma drop_chunks_other: "drop_chunks i n fs (upload_path p) = fs (upload_path p)"
proof -
  have "foldl (\<lambda>fs k. fs(chunk_path i (int k) := None)) fs ks (upload_path p) = fs (upload_path p)" for ks fs
    by (induction ks arbitrary: fs) simp_all
  then show ?thesis by (simp add: drop_chunks_def)
qed

section \<open>What the metadata says is on disk\<close>

record upload =
  up_name :: string
  up_size :: int
  up_user :: uid
  up_at :: ms

definition up_chunks :: "upload \<Rightarrow> int" where
  "up_chunks m = (up_size m + kChunkSize - 1) div kChunkSize"

definition up_meta :: "upload \<Rightarrow> int list \<Rightarrow> json" where
  "up_meta m rs = upload_meta (up_name m) (up_size m) (up_chunks m) (file_ext (up_name m)) (up_user m) (up_at m) (map JInt rs)"

definition good_indices :: "upload \<Rightarrow> int list \<Rightarrow> bool" where
  "good_indices m rs \<longleftrightarrow> distinct rs \<and> set rs \<subseteq> {0..<up_chunks m}"

definition valid_upload :: "upload \<Rightarrow> bool" where
  "valid_upload m \<longleftrightarrow> up_name m \<noteq> [] \<and> 0 < up_size m \<and> up_size m \<le> kMaxFileSize"

lemma up_chunks_bounds:
  assumes "valid_upload m"
  shows "0 < up_chunks m \<and> up_chunks m \<le> 50"
proof -
  have s: "0 < up_size m" "up_size m \<le> 52428800" using assms by (simp_all add: valid_upload_def kMaxFileSize_def)
  have "1048576 div 1048576 \<le> (up_size m + 1048575) div 1048576" using s(1) by (intro zdiv_mono1) simp_all
  moreover have "(up_size m + 1048575) div 1048576 \<le> (52428800 + 1048575) div 1048576" using s(2) by (intro zdiv_mono1) simp_all
  moreover have "up_chunks m = (up_size m + 1048575) div 1048576" by (simp add: up_chunks_def kChunkSize_def add.commute)
  ultimately show ?thesis by simp
qed

definition chunks_there :: "(string \<rightharpoonup> string) \<Rightarrow> string \<Rightarrow> int list \<Rightarrow> bool" where
  "chunks_there fs i rs \<longleftrightarrow> (\<forall>k \<in> set rs. \<exists>b. fs (chunk_path i k) = Some b \<and> int (length b) \<le> kChunkSize)"

definition upload_inv :: "'r env \<Rightarrow> string \<Rightarrow> upload \<Rightarrow> 'r disk \<Rightarrow> bool" where
  "upload_inv E i m st \<longleftrightarrow> (\<forall>t v. look (redis_api E) t (upload_key i) (store (host st)) = Some v \<longrightarrow>
     (\<exists>rs. v = lib_dump (lib E) (up_meta m rs) \<and> good_indices m rs \<and> chunks_there (files st) i rs))"

definition reads_back :: "'r env \<Rightarrow> upload \<Rightarrow> bool" where
  "reads_back E m \<longleftrightarrow> (\<forall>rs. good_indices m rs \<longrightarrow> lib_parse (lib E) (lib_dump (lib E) (up_meta m rs)) = Some (up_meta m rs)
     \<and> lib_dump (lib E) (up_meta m rs) \<noteq> [])"

lemma up_meta_values [simp]:
  "value_int (up_meta m rs) ''uid'' 0 = Some (up_user m)" "value_int (up_meta m rs) ''total_chunks'' 0 = Some (up_chunks m)"
  "received (up_meta m rs) = JArr (map JInt rs)" "value_str (up_meta m rs) ''ext'' [] = Some (file_ext (up_name m))"
  by (simp_all add: up_meta_def upload_meta_def received_def)

lemma up_meta_received: "jset (up_meta m rs) ''received'' (JArr (map JInt rs')) = up_meta m rs'"
  by (simp add: up_meta_def upload_meta_def jset_obj) (simp add: obj_def)

lemma add_index_up:
  assumes "valid_upload m" "good_indices m rs" "0 \<le> idx" "idx < up_chunks m"
  shows "\<exists>rs'. add_index idx (JArr (map JInt rs)) = Some (JArr (map JInt rs')) \<and> good_indices m rs' \<and> set rs' = insert idx (set rs)"
proof (cases "idx \<in> set rs")
  case True
  have "wrap32 idx = idx" using assms(3,4) up_chunks_bounds [OF assms(1)] by (intro wrap32_small) auto
  with True have "list_ex (has_index idx) (map JInt rs)" by (auto simp: list_ex_iff has_index_def)
  with True assms(2) show ?thesis by (intro exI [of _ rs]) (auto simp: add_index_def elements_def)
next
  case False
  have "wrap32 n \<noteq> idx" if "n \<in> set rs" for n
    using that False assms(2) up_chunks_bounds [OF assms(1)] wrap32_small [of n] by (force simp: good_indices_def)
  then have "\<not> list_ex (has_index idx) (map JInt rs)" by (auto simp: list_ex_iff has_index_def)
  with False assms(2-4) show ?thesis
    by (intro exI [of _ "rs @ [idx]"]) (auto simp: add_index_def elements_def good_indices_def)
qed

text \<open>A chunk request, whatever it asks and whatever fails, keeps the connection.\<close>

lemma upload_key_inj [simp]: "upload_key i = upload_key j \<longleftrightarrow> i = j"
  by (simp add: upload_key_def)

lemma chunk_other:
  assumes R: "expiring_store (redis_api E)" and inv: "upload_inv E i m st" and ne: "j \<noteq> i"
  shows "upload_inv E i m (st\<lparr>files := (files st)(chunk_path j k \<mapsto> b)\<rparr>)"
    and "upload_inv E i m (in_store (setex (redis_api E) t (upload_key j) v 86400) (st\<lparr>files := (files st)(chunk_path j k \<mapsto> b)\<rparr>))"
  using inv ne by (auto simp: upload_inv_def chunks_there_def in_store_def expiring_store.look_setex [OF R])

lemma chunks_there_upd:
  "chunks_there fs i rs \<Longrightarrow> int (length b) \<le> kChunkSize \<Longrightarrow> set rs' \<subseteq> insert k (set rs) \<Longrightarrow>
    chunks_there (fs(chunk_path i k \<mapsto> b)) i rs'"
  by (auto simp: chunks_there_def)

lemma chunk_same:
  assumes R: "expiring_store (redis_api E)" and inv: "upload_inv E i m st" and b: "int (length b) \<le> kChunkSize"
    and rs: "good_indices m rs" "chunks_there (files st) i rs" and rs': "good_indices m rs'" "set rs' = insert k (set rs)"
  shows "upload_inv E i m (st\<lparr>files := (files st)(chunk_path i k \<mapsto> b)\<rparr>)"
    and "upload_inv E i m (in_store (setex (redis_api E) t (upload_key i) (lib_dump (lib E) (up_meta m rs')) 86400)
      (st\<lparr>files := (files st)(chunk_path i k \<mapsto> b)\<rparr>))"
proof -
  show "upload_inv E i m (st\<lparr>files := (files st)(chunk_path i k \<mapsto> b)\<rparr>)"
    using inv chunks_there_upd [OF _ b] unfolding upload_inv_def by (simp, blast)
  have "chunks_there ((files st)(chunk_path i k \<mapsto> b)) i rs'"
    using chunks_there_upd [OF rs(2) b] rs'(2) by simp
  with rs' show "upload_inv E i m (in_store (setex (redis_api E) t (upload_key i) (lib_dump (lib E) (up_meta m rs')) 86400)
      (st\<lparr>files := (files st)(chunk_path i k \<mapsto> b)\<rparr>))"
    by (auto simp: upload_inv_def in_store_def expiring_store.look_setex [OF R])
qed

lemma upload_chunk_inv:
  assumes R: "expiring_store (redis_api E)" and json: "reads_back E m" and m: "valid_upload m" and inv: "upload_inv E i m st"
  shows "upload_inv E i m (snd (handleUploadChunk E x req st))"
proof -
  let ?j = "getParam req ''upload_id'' []" and ?idx = "stoi_or (getParam req ''index'' [])"
  have other: ?thesis if "?j \<noteq> i"
    using inv chunk_other [OF R inv that]
    by (auto simp: handleUploadChunk_def with_auth_def need_def Let_def split: option.splits)
  have same: ?thesis if j: "?j = i" and v: "look (redis_api E) (now (http x)) (upload_key i) (store (host st)) = Some v" for v
  proof -
    obtain rs where rs: "v = lib_dump (lib E) (up_meta m rs)" "good_indices m rs" "chunks_there (files st) i rs"
      using inv v unfolding upload_inv_def by blast
    have p: "lib_parse (lib E) v = Some (up_meta m rs)" using json rs(1,2) by (simp add: reads_back_def)
    show ?thesis
    proof (cases "0 \<le> ?idx \<and> ?idx < up_chunks m \<and> int (length (body req)) \<le> kChunkSize")
      case True
      obtain rs' where rs': "add_index ?idx (JArr (map JInt rs)) = Some (JArr (map JInt rs'))" "good_indices m rs'"
          "set rs' = insert ?idx (set rs)"
        using add_index_up [OF m rs(2)] True by blast
      note u = chunk_same [OF R inv _ rs(2,3) rs'(2,3)]
      show ?thesis
        using True inv j v p rs' u [of "body req"] up_meta_received [of m rs rs']
        by (auto simp: handleUploadChunk_def with_auth_def need_def read_meta_def redis_get_def Let_def split: option.split)
    next
      case False
      with inv j v p show ?thesis
        by (auto simp: handleUploadChunk_def with_auth_def need_def read_meta_def redis_get_def Let_def split: option.split)
    qed
  qed
  have none: ?thesis if "?j = i" "look (redis_api E) (now (http x)) (upload_key i) (store (host st)) = None"
    using inv that by (auto simp: handleUploadChunk_def with_auth_def need_def read_meta_def redis_get_def Let_def split: option.split)
  from other same none show ?thesis by (cases "look (redis_api E) (now (http x)) (upload_key i) (store (host st))") auto
qed

definition chunk_step :: "'r env \<Rightarrow> 'r disk \<Rightarrow> upctx \<times> request \<Rightarrow> 'r disk" where
  "chunk_step E st a = snd (handleUploadChunk E (fst a) (snd a) st)"

lemma upload_chunks_machine:
  assumes "expiring_store (redis_api E)" "reads_back E m" "valid_upload m" "upload_inv E i m st"
  shows "inv_machine st (chunk_step E) (upload_inv E i m)"
  by unfold_locales (use assms in \<open>simp_all add: chunk_step_def upload_chunk_inv\<close>)

definition upload_of :: "reqctx \<Rightarrow> claims \<Rightarrow> string \<Rightarrow> int \<Rightarrow> upload" where
  "upload_of x c name sz = \<lparr>up_name = name, up_size = sz, up_user = c_userId c, up_at = now x\<rparr>"

lemma upload_init_inv:
  assumes R: "expiring_store (redis_api E)" and run: "handleUploadInit E x req st = (U200 a, st0)" and w: "metaWrite x Acquire"
    and ok: "authFromRequest E (http x) req (host st) = Some c" "lib_parse (lib E) (body req) = Some j"
      "value_str j ''file_name'' [] = Some name" "value_int j ''total_size'' 0 = Some sz"
  shows "valid_upload (upload_of (http x) c name sz) \<and> ext_allowed (file_ext name) \<and>
    upload_inv E (uploadId x) (upload_of (http x) c name sz) st0"
proof -
  let ?m = "upload_of (http x) c name sz"
  have m: "?m = \<lparr>up_name = name, up_size = sz, up_user = c_userId c, up_at = now (http x)\<rparr>" by (simp add: upload_of_def)
  have v: "valid_upload ?m" "ext_allowed (file_ext name)" "mkdirok x" "\<not> c_userId c < 0"
    using run ok by (auto simp: m handleUploadInit_def with_auth_def with_body_def need_def valid_upload_def Let_def split: if_splits)
  have st0: "st0 = in_store (setex (redis_api E) (now (http x)) (upload_key (uploadId x)) (lib_dump (lib E) (up_meta ?m [])) 86400) st"
    using run ok v w
    by (auto simp: m handleUploadInit_def with_auth_def with_body_def need_def valid_upload_def up_meta_def up_chunks_def Let_def)
  have "upload_inv E (uploadId x) ?m st0"
    unfolding st0 upload_inv_def
    by (auto simp: in_store_def expiring_store.look_setex [OF R] good_indices_def chunks_there_def split: if_splits intro!: exI [of _ "[]"])
  with v show ?thesis by simp
qed

lemma complete_joins:
  assumes json: "reads_back E m" and m: "valid_upload m" and inv: "upload_inv E i m st"
    and id: "lib_parse (lib E) (body req) = Some j" "value_str j ''upload_id'' [] = Some i"
    and run: "handleUploadComplete E x req st = (U200 a, st')"
  shows "\<exists>cs. length cs = nat (up_chunks m) \<and> (\<forall>k < length cs. files st (chunk_path i (int k)) = Some (cs ! k)) \<and>
    (\<forall>c \<in> set cs. int (length c) \<le> kChunkSize) \<and>
    files st' (upload_path (i @ file_ext (up_name m))) = Some (concat (takeWhile (\<lambda>c. c \<noteq> []) cs))"
proof -
  obtain v where v: "look (redis_api E) (now (http x)) (upload_key i) (store (host st)) = Some v" "metaRead x Acquire"
    using run id by (auto simp: handleUploadComplete_def with_auth_def with_body_def need_def read_meta_def redis_get_def Let_def
        split: option.splits if_splits)
  obtain rs where rs: "v = lib_dump (lib E) (up_meta m rs)" "good_indices m rs" "chunks_there (files st) i rs"
    using inv v(1) unfolding upload_inv_def by blast
  have p: "lib_parse (lib E) v = Some (up_meta m rs)" "v \<noteq> []" using json rs(1,2) by (auto simp: reads_back_def)
  have len: "int (length rs) = up_chunks m"
    using run id v p by (auto simp: handleUploadComplete_def with_auth_def with_body_def need_def read_meta_def redis_get_def
        elements_def Let_def split: option.splits if_splits)
  have "set rs = {0..<up_chunks m}"
    using rs(2) len by (intro card_subset_eq) (auto simp: good_indices_def distinct_card)
  then have all: "\<exists>b. files st (chunk_path i (int k)) = Some b \<and> int (length b) \<le> kChunkSize" if "k < nat (up_chunks m)" for k
    using rs(3) that by (auto simp: chunks_there_def)
  define cs where "cs = map (\<lambda>k. the (files st (chunk_path i (int k)))) [0..<nat (up_chunks m)]"
  have cs: "length cs = nat (up_chunks m)" "\<forall>k < length cs. files st (chunk_path i (int k)) = Some (cs ! k)"
      "\<forall>c \<in> set cs. int (length c) \<le> kChunkSize"
    using all by (force simp: cs_def)+
  have "join_chunks (files st) i 0 (nat (up_chunks m)) False = Some (concat (takeWhile (\<lambda>c. c \<noteq> []) cs))"
    using join_chunks_concat [of cs "files st" i 0 False] cs(1,2) by simp
  then have "files st' (upload_path (i @ file_ext (up_name m))) = Some (concat (takeWhile (\<lambda>c. c \<noteq> []) cs))"
    using run id v p len
    by (auto simp: handleUploadComplete_def with_auth_def with_body_def need_def read_meta_def redis_get_def elements_def thumb_job_def
        in_store_def drop_chunks_other Let_def split: option.splits if_splits)
  with cs show ?thesis by blast
qed

lemma concat_bound:
  assumes "\<And>c. c \<in> set cs \<Longrightarrow> int (length c) \<le> b"
  shows "int (length (concat cs)) \<le> int (length cs) * b"
  using assms by (induction cs) (force simp: algebra_simps)+

lemma joined_size:
  assumes "valid_upload m" "length cs = nat (up_chunks m)" "\<forall>c \<in> set cs. int (length c) \<le> kChunkSize"
  shows "int (length (concat (takeWhile p cs))) \<le> kMaxFileSize"
proof -
  have "int (length (concat (takeWhile p cs))) \<le> int (length (takeWhile p cs)) * kChunkSize"
    using assms(3) by (intro concat_bound) (auto dest: set_takeWhileD)
  moreover have "int (length (takeWhile p cs)) \<le> 50"
    using length_takeWhile_le [of p cs] assms(2) up_chunks_bounds [OF assms(1)] by linarith
  ultimately show ?thesis by (simp add: kChunkSize_def kMaxFileSize_def)
qed

text \<open>
  C18. An upload that was begun, and then completed after any chunk requests of anybody, in any order,
  repeated, lost or failing: every chunk below the announced number has been stored, each within
  the chunk size, and the file made from them is what they hold in the order of their indices, up
  to the first empty one. It has an allowed type and is never larger than the largest file.
  What is assumed of the JSON library is that it reads back this metadata.
\<close>

theorem upload_joins_chunks:
  assumes R: "expiring_store (redis_api E)"
    and start: "handleUploadInit E x0 req0 st = (U200 a, st0)" "metaWrite x0 Acquire"
    and who: "authFromRequest E (http x0) req0 (host st) = Some c"
    and asked: "lib_parse (lib E) (body req0) = Some j0" "value_str j0 ''file_name'' [] = Some name"
      "value_int j0 ''total_size'' 0 = Some sz"
    and m: "m = upload_of (http x0) c name sz" and json: "reads_back E m"
    and chunks: "st1 = foldl (chunk_step E) st0 reqs"
    and complete: "lib_parse (lib E) (body req) = Some j" "value_str j ''upload_id'' [] = Some (uploadId x0)"
      "handleUploadComplete E x req st1 = (U200 b, st2)"
  shows "\<exists>cs. length cs = nat (up_chunks m) \<and>
    (\<forall>k < length cs. files st1 (chunk_path (uploadId x0) (int k)) = Some (cs ! k) \<and> int (length (cs ! k)) \<le> kChunkSize) \<and>
    files st2 (upload_path (uploadId x0 @ file_ext name)) = Some (concat (takeWhile (\<lambda>c. c \<noteq> []) cs)) \<and>
    int (length (concat (takeWhile (\<lambda>c. c \<noteq> []) cs))) \<le> kMaxFileSize \<and> ext_allowed (file_ext name)"
proof -
  have i: "valid_upload m" "ext_allowed (file_ext name)" "upload_inv E (uploadId x0) m st0"
    using upload_init_inv [OF R start who asked] by (simp_all add: m)
  have "upload_inv E (uploadId x0) m st1"
    unfolding chunks by (rule inv_machine.run_inv [OF upload_chunks_machine [OF R json i(1,3)]])
  from complete_joins [OF json i(1) this complete] obtain cs where cs: "length cs = nat (up_chunks m)"
      "\<forall>k < length cs. files st1 (chunk_path (uploadId x0) (int k)) = Some (cs ! k)" "\<forall>c \<in> set cs. int (length c) \<le> kChunkSize"
      "files st2 (upload_path (uploadId x0 @ file_ext (up_name m))) = Some (concat (takeWhile (\<lambda>c. c \<noteq> []) cs))"
    by blast
  have "up_name m = name" by (simp add: m upload_of_def)
  with cs i(2) joined_size [OF i(1) cs(1,3)] show ?thesis by (intro exI [of _ cs]) simp
qed

definition demo_upload :: upload where
  "demo_upload = \<lparr>up_name = ''a.txt'', up_size = 5, up_user = 7, up_at = 110000\<rparr>"

definition upload_lib :: jlib where
  "upload_lib = \<lparr>lib_dump = (\<lambda>j. if j = up_meta demo_upload [] then ''m'' else if j = up_meta demo_upload [0] then ''m0''
       else lib_dump demo_lib j),
     lib_parse = (\<lambda>s. if s = ''m'' then Some (up_meta demo_upload []) else if s = ''m0'' then Some (up_meta demo_upload [0])
       else if s = ''b'' then Some (obj [(''file_name'', JStr ''a.txt''), (''total_size'', JInt 5)])
       else if s = ''e'' then Some (obj [(''upload_id'', JStr ''u1'')]) else lib_parse demo_lib s)\<rparr>"

definition upload_env :: "redis env" where
  "upload_env = demo_env\<lparr>lib := upload_lib\<rparr>"

definition upload_ctx :: upctx where
  "upload_ctx = \<lparr>http = demo_ctx 110000, metaRead = (\<lambda>c. True), metaWrite = (\<lambda>c. True), thumbok = (\<lambda>c. True), uploadId = ''u1'',
     mkdirok = True, opens = (\<lambda>p. True)\<rparr>"

definition upload_request :: "string \<Rightarrow> request" where
  "upload_request b = (demo_request (''Bearer '' @ generateWithJti upload_lib demo_mac ''k'' 100 7 ''a1'' 60))
     \<lparr>params := [''upload_id'' \<mapsto> ''u1'', ''index'' \<mapsto> ''0''], body := b\<rparr>"

definition demo_disk :: "redis disk" where
  "demo_disk = \<lparr>host = demo_server, files = Map.empty\<rparr>"

definition answered :: "uresponse \<Rightarrow> bool" where
  "answered r = (case r of U200 j \<Rightarrow> True | _ \<Rightarrow> False)"

lemma answered_D: "answered (fst p) \<Longrightarrow> \<exists>j. p = (U200 j, snd p)"
  by (cases p) (simp add: answered_def split: uresponse.splits)

lemma upload_lib_reads_back: "reads_back upload_env demo_upload"
proof -
  have "up_chunks demo_upload = 1" by (simp add: up_chunks_def demo_upload_def kChunkSize_def)
  have rs: "rs = [] \<or> rs = [0]" if "good_indices demo_upload rs" for rs
  proof -
    have "set rs \<subseteq> {0}" "distinct rs" using that \<open>up_chunks demo_upload = 1\<close> by (auto simp: good_indices_def)
    then show ?thesis by (cases rs; cases "tl rs") auto
  qed
  have "up_meta demo_upload [0] \<noteq> up_meta demo_upload []" by code_simp
  then have "lib_parse upload_lib (lib_dump upload_lib (up_meta demo_upload rs)) = Some (up_meta demo_upload rs) \<and>
      lib_dump upload_lib (up_meta demo_upload rs) \<noteq> []" if "rs = [] \<or> rs = [0]" for rs
    using that by (auto simp: upload_lib_def)
  with rs show ?thesis by (simp add: reads_back_def upload_env_def)
qed

lemma upload_demo_auth:
  "authFromRequest upload_env (demo_ctx 110000) (upload_request b) demo_server = Some \<lparr>c_userId = 7, c_jti = ''a1'', c_iat = 100, c_exp = 160\<rparr>"
proof -
  define token where "token = ''Bearer '' @ generateWithJti upload_lib demo_mac ''k'' 100 7 ''a1'' 60"
  have v: "verifyAndParse upload_lib demo_mac ''k'' 110 (drop 7 token) = Some \<lparr>c_userId = 7, c_jti = ''a1'', c_iat = 100, c_exp = 160\<rparr>"
    "7 < length token" "take 7 token = ''Bearer ''"
    unfolding token_def by code_simp+
  have "header (upload_request b) ''authorization'' = token" by (simp add: upload_request_def token_def demo_request_def)
  with v show ?thesis
    by (simp add: authFromRequest_def upload_env_def demo_env_def demo_ctx_def demo_server_def nowSec_def
        isRevoked_def exists_def r_lookup_def empty_redis_def)
qed

lemma upload_demo_run:
  "answered (fst (handleUploadInit upload_env upload_ctx (upload_request ''b'') demo_disk))"
  "answered (fst (handleUploadComplete upload_env upload_ctx (upload_request ''e'')
     (foldl (chunk_step upload_env) (snd (handleUploadInit upload_env upload_ctx (upload_request ''b'') demo_disk))
       [(upload_ctx, upload_request ''hello'')])))"
  by code_simp+

theorem upload_joins_chunks_witness:
  "let st0 = snd (handleUploadInit upload_env upload_ctx (upload_request ''b'') demo_disk);
       st1 = foldl (chunk_step upload_env) st0 [(upload_ctx, upload_request ''hello'')];
       st2 = snd (handleUploadComplete upload_env upload_ctx (upload_request ''e'') st1)
   in \<exists>cs. length cs = 1 \<and> files st1 (chunk_path ''u1'' 0) = Some (cs ! 0) \<and>
     files st2 (upload_path ''u1.txt'') = Some (concat (takeWhile (\<lambda>c. c \<noteq> []) cs))"
proof -
  define st0 where "st0 = snd (handleUploadInit upload_env upload_ctx (upload_request ''b'') demo_disk)"
  define st1 where "st1 = foldl (chunk_step upload_env) st0 [(upload_ctx, upload_request ''hello'')]"
  define st2 where "st2 = snd (handleUploadComplete upload_env upload_ctx (upload_request ''e'') st1)"
  obtain a where a: "handleUploadInit upload_env upload_ctx (upload_request ''b'') demo_disk = (U200 a, st0)"
    using answered_D [OF upload_demo_run(1)] by (auto simp: st0_def)
  obtain b where b: "handleUploadComplete upload_env upload_ctx (upload_request ''e'') st1 = (U200 b, st2)"
    using answered_D [OF upload_demo_run(2)] by (auto simp: st0_def st1_def st2_def)
  have ctx: "uploadId upload_ctx = ''u1''" "http upload_ctx = demo_ctx 110000" "metaWrite upload_ctx Acquire"
    by (simp_all add: upload_ctx_def)
  have R: "expiring_store (redis_api upload_env)" using rs.expiring_store_axioms by (simp add: upload_env_def demo_env_def)
  have d: "host demo_disk = demo_server" by (simp add: demo_disk_def)
  have lib: "lib_parse (lib upload_env) (body (upload_request ''b'')) = Some (obj [(''file_name'', JStr ''a.txt''), (''total_size'', JInt 5)])"
      "lib_parse (lib upload_env) (body (upload_request ''e'')) = Some (obj [(''upload_id'', JStr ''u1'')])"
    by (simp_all add: upload_env_def upload_lib_def upload_request_def)
  have n: "up_chunks demo_upload = 1" "file_ext ''a.txt'' = ''.txt''"
    by (simp_all add: up_chunks_def demo_upload_def kChunkSize_def file_ext_def)
  have "\<exists>cs. length cs = nat (up_chunks demo_upload) \<and>
    (\<forall>k < length cs. files st1 (chunk_path (uploadId upload_ctx) (int k)) = Some (cs ! k) \<and> int (length (cs ! k)) \<le> kChunkSize) \<and>
    files st2 (upload_path (uploadId upload_ctx @ file_ext ''a.txt'')) = Some (concat (takeWhile (\<lambda>c. c \<noteq> []) cs)) \<and>
    int (length (concat (takeWhile (\<lambda>c. c \<noteq> []) cs))) \<le> kMaxFileSize \<and> ext_allowed (file_ext ''a.txt'')"
    by (rule upload_joins_chunks [OF R a ctx(3) _ lib(1) _ _ _ upload_lib_reads_back st1_def lib(2) _ b])
       (simp_all add: d ctx upload_demo_auth, simp add: demo_upload_def upload_of_def demo_ctx_def)
  then obtain cs where "length cs = 1" "files st1 (chunk_path ''u1'' (int 0)) = Some (cs ! 0)"
      "files st2 (upload_path ''u1.txt'') = Some (concat (takeWhile (\<lambda>c. c \<noteq> []) cs))"
    by (auto simp: n ctx)
  then show ?thesis unfolding Let_def st0_def [symmetric] st1_def [symmetric] st2_def [symmetric] by auto
qed

end
