(* ===== verification/AhoTime.thy ===== *)
theory AhoTime
  imports AhoCorasick
begin

text \<open>
  How long the automaton of \<^verbatim>\<open>src/src/moderation/AhoCorasick.h\<close> takes: its search is run with a
  counter of the failure links it follows. The counters only watch: without them the loops are
  those of the model, and that is proved first.
\<close>

section \<open>Counting\<close>

fun walk_counted :: "nat \<Rightarrow> node list \<Rightarrow> char \<Rightarrow> nat \<Rightarrow> (nat \<times> nat) option" where
  "walk_counted 0 ns c f = None"
| "walk_counted (Suc n) ns c f =
     (if f \<noteq> 0 \<and> map_of (children (ns ! f)) c = None
      then map_option (\<lambda>(g, k). (g, Suc k)) (walk_counted n ns c (fail (ns ! f))) else Some (f, 0))"

fun search_counted :: "node list \<Rightarrow> nat \<Rightarrow> nat \<Rightarrow> string \<Rightarrow> (ac_match list \<times> nat) option" where
  "search_counted ns i cur [] = Some ([], 0)"
| "search_counted ns i cur (c # text) =
     (case walk_counted (length ns) ns c cur of
        None \<Rightarrow> None
      | Some (f, k) \<Rightarrow>
        (let cur' = (case map_of (children (ns ! f)) c of Some t \<Rightarrow> t | None \<Rightarrow> f)
         in map_option (\<lambda>(ms, l). (map (mk_match i) (words (ns ! cur')) @ ms, k + l)) (search_counted ns (Suc i) cur' text)))"

lemma walk_erase: "map_option fst (walk_counted n ns c f) = fail_walk n ns c f"
  by (induction n arbitrary: f) (auto simp: option.map_comp comp_def case_prod_unfold)

lemma search_erase: "map_option fst (search_counted ns i cur str) = search_loop ns i cur str"
proof (induction str arbitrary: i cur)
  case (Cons c str)
  show ?case
    using walk_erase [of "length ns" ns c cur]
    by (auto simp: option.map_comp comp_def case_prod_unfold Let_def simp flip: Cons.IH split: option.splits)
qed simp

section \<open>The depth pays\<close>

text \<open>Following a link gives up at least one character of the current match.\<close>

lemma walk_pays:
  assumes "trie ns ps" "\<And>i. i < length ns \<Longrightarrow> linked ns ps i" "f < length ns" "walk_counted n ns c f = Some (g, k)"
  shows "g < length ns \<and> k + length (ps ! g) \<le> length (ps ! f)"
  using assms(3,4)
proof (induction n arbitrary: f k)
  case (Suc n)
  show ?case
  proof (cases "f \<noteq> 0 \<and> map_of (children (ns ! f)) c = None")
    case False
    with Suc.prems show ?thesis by (auto split: if_splits)
  next
    case True
    let ?h = "fail (ns ! f)"
    have h: "?h < length ns" "ps ! ?h = best (set ps) (tl (ps ! f))" using assms(2) [OF Suc.prems(1)] by (auto simp: linked_def)
    have "ps ! f \<noteq> []" using True trie_index_eq [OF assms(1) Suc.prems(1), of 0] trieD(2,3) [OF assms(1)] by auto
    then have lt: "length (ps ! ?h) < length (ps ! f)" using h(2) best_length [of "set ps" "tl (ps ! f)"] by (cases "ps ! f") auto
    obtain l where l: "k = Suc l" "walk_counted n ns c ?h = Some (g, l)" using Suc.prems(2) True by auto
    from Suc.IH [OF h(1) l(2)] lt l(1) show ?thesis by simp
  qed
qed simp

lemma next_depth:
  assumes "trie ns ps" "g < length ns"
  shows "(case map_of (children (ns ! g)) c of Some t \<Rightarrow> t | None \<Rightarrow> g) < length ns \<and>
    length (ps ! (case map_of (children (ns ! g)) c of Some t \<Rightarrow> t | None \<Rightarrow> g)) \<le> Suc (length (ps ! g))"
  using assms trie_edge [OF assms] by (auto split: option.split)

lemma search_pays:
  assumes "trie ns ps" "\<And>i. i < length ns \<Longrightarrow> linked ns ps i" "cur < length ns" "search_counted ns i cur str = Some (ms, k)"
  shows "k \<le> length (ps ! cur) + length str"
  using assms(3,4)
proof (induction str arbitrary: i cur ms k)
  case (Cons c str)
  obtain g a where g: "walk_counted (length ns) ns c cur = Some (g, a)" using Cons.prems(2) by (auto split: option.splits)
  define nxt where "nxt = (case map_of (children (ns ! g)) c of Some t \<Rightarrow> t | None \<Rightarrow> g)"
  have a: "g < length ns" "a + length (ps ! g) \<le> length (ps ! cur)" using walk_pays [OF assms(1,2) Cons.prems(1) g] by auto
  have n: "nxt < length ns" "length (ps ! nxt) \<le> Suc (length (ps ! g))" using next_depth [OF assms(1) a(1), of c] by (auto simp: nxt_def)
  obtain ms' l where l: "search_counted ns (Suc i) nxt str = Some (ms', l)" "k = a + l"
    using Cons.prems(2) by (auto simp: g nxt_def [symmetric] Let_def)
  from Cons.IH [OF n(1) l(1)] a(2) n(2) l(2) show ?case by simp
qed simp

section \<open>Property\<close>

text \<open>
  C35. The search ends, and in linear time: for every list of words, in whatever order the
  hash maps are walked, and every text, the inner loop that follows failure links runs at most once
  per character of the text, over the whole search. The count does not change what is found.
\<close>

theorem search_follows_links_linearly:
  assumes "visits_once ord"
  shows "\<exists>ns ms k. build ord (foldl (\<lambda>ns e. addWord ns (fst e) (snd e)) new_automaton ws) = Some ns \<and>
    search ns t = Some ms \<and> search_counted ns 0 0 t = Some (ms, k) \<and> k \<le> length t"
proof -
  let ?ws = "filter (\<lambda>e. fst e \<noteq> []) ws"
  obtain ps where w: "wordtrie ?ws (foldl (\<lambda>ns e. addWord ns (fst e) (snd e)) new_automaton ws) ps"
    using addWords_wordtrie by blast
  obtain ns where ns: "build ord (foldl (\<lambda>ns e. addWord ns (fst e) (snd e)) new_automaton ws) = Some ns" "built ?ws ps {..<length ns} ns"
    using build_spec [OF w _ assms] by auto
  note t = builtD(1) [OF ns(2)]
  have link: "linked ns ps i" if "i < length ns" for i using builtD(5) [OF ns(2), of i] that by (simp add: ready_def)
  have root: "0 < length ns" "ps ! 0 = []" using trieD(2,3) [OF t] by auto
  have "search ns t = Some (naive_from ?ws [] t)"
    using search_loop_spec [OF ns(2) root(1), of "[]" t] root(2) by (simp add: search_def)
  then obtain ms k where c: "search_counted ns 0 0 t = Some (ms, k)" "search ns t = Some ms"
    using search_erase [of ns 0 0 t] by (cases "search_counted ns 0 0 t") (auto simp: search_def)
  with ns(1) search_pays [OF t link root(1) c(1)] root(2) show ?thesis by auto
qed

theorem search_follows_links_linearly_witness:
  "\<exists>ns ms k. build rev (foldl (\<lambda>ns e. addWord ns (fst e) (snd e)) new_automaton [(''aab'', ''ban''), (''b'', ''warn'')]) = Some ns \<and>
    search ns ''aaab'' = Some ms \<and> search_counted ns 0 0 ''aaab'' = Some (ms, k) \<and> k \<le> length ''aaab''"
  by (rule search_follows_links_linearly [OF backward.once])

end
