(* ===== verification/Settings.thy ===== *)
theory Settings
  imports Protocol
begin

text \<open>
  The configuration of the processes: the parser of \<^verbatim>\<open>common/Config.h\<close>, the Redis settings of
  \<^verbatim>\<open>common/RedisConfigLoader.h\<close> and what \<^verbatim>\<open>server/main.cpp\<close> makes of file and environment. The
  environment is a map, a file that cannot be opened is \<open>None\<close>, and a default-constructed
  pool configuration, whose type is outside the repository, is an argument. The other processes read
  only a few variables; where a gateway finds its logic instances is one of their choices.
\<close>

section \<open>The file\<close>

definition trim_by :: "(char \<Rightarrow> bool) \<Rightarrow> string \<Rightarrow> string" where
  "trim_by blank s = rev (dropWhile blank (rev (dropWhile blank s)))"

definition is_blank :: "char \<Rightarrow> bool" where
  "is_blank c \<longleftrightarrow> c = CHR '' '' \<or> c = CHR 0x09"

definition is_line_blank :: "char \<Rightarrow> bool" where
  "is_line_blank c \<longleftrightarrow> is_blank c \<or> c = CHR 0x0D \<or> c = CHR 0x0A"

definition strip_comment :: "string \<Rightarrow> string" where
  "strip_comment line = (case find_char (CHR ''#'') line of Some n \<Rightarrow> take n line | None \<Rightarrow> line)"

definition config_entry :: "string \<Rightarrow> (string \<times> string) option" where
  "config_entry raw =
     (let line = trim_by is_line_blank (strip_comment raw)
      in if line = [] then None
         else case find_char (CHR ''='') line of
                None \<Rightarrow> None
              | Some eq \<Rightarrow> Some (trim_by is_blank (take eq line), trim_by is_blank (drop (eq + 1) line)))"

type_synonym config = "string \<rightharpoonup> string"

definition add_line :: "config \<Rightarrow> string \<Rightarrow> config" where
  "add_line m line = (case config_entry line of None \<Rightarrow> m | Some (k, v) \<Rightarrow> m(k \<mapsto> v))"

definition load :: "string option \<Rightarrow> config \<Rightarrow> bool \<times> config" where
  "load file m = (case file of None \<Rightarrow> (False, m) | Some content \<Rightarrow> (True, foldl add_line m (segments (CHR 0x0A) content)))"

definition get :: "config \<Rightarrow> string \<Rightarrow> string \<Rightarrow> string" where
  "get m key defaultVal = (case m key of Some v \<Rightarrow> v | None \<Rightarrow> defaultVal)"

definition getInt :: "config \<Rightarrow> string \<Rightarrow> int \<Rightarrow> int" where
  "getInt m key defaultVal =
     (case m key of None \<Rightarrow> defaultVal | Some v \<Rightarrow> (case stoi v of Some i \<Rightarrow> i | None \<Rightarrow> defaultVal))"

section \<open>Redis\<close>

record redis_cfg =
  rc_host :: string
  rc_port :: int
  rc_password :: string
  rc_minSize :: "64 word"
  rc_maxSize :: "64 word"
  rc_sentinels :: "string list"
  rc_sentinelMaster :: string

definition csv_items :: "(char \<Rightarrow> bool) \<Rightarrow> string \<Rightarrow> string list" where
  "csv_items blank s = filter (\<lambda>x. x \<noteq> []) (map (trim_by blank) (segments (CHR '','') s))"

type_synonym environ = "string \<rightharpoonup> string"

definition loadRedisConfig :: "redis_cfg \<Rightarrow> environ \<Rightarrow> config \<Rightarrow> redis_cfg" where
  "loadRedisConfig d env m =
     (let cfg = d\<lparr>rc_host := get m ''redis.host'' ''127.0.0.1'', rc_port := getInt m ''redis.port'' 6379,
            rc_password := get m ''redis.password'' [], rc_minSize := word_of_int (getInt m ''redis.pool_min'' 3),
            rc_maxSize := word_of_int (getInt m ''redis.pool_max'' 10)\<rparr>;
          listed = get m ''redis.sentinels'' [];
          sentinelList = (if listed = [] then (case env ''MUDUO_IM_REDIS_SENTINELS'' of Some e \<Rightarrow> e | None \<Rightarrow> []) else listed)
      in if sentinelList \<noteq> []
         then cfg\<lparr>rc_sentinels := rc_sentinels cfg @ csv_items is_blank sentinelList,
                rc_sentinelMaster := get m ''redis.sentinel_master'' ''im-master''\<rparr>
         else cfg)"

section \<open>The server\<close>

record mysql_cfg =
  my_host :: string
  my_port :: int
  my_user :: string
  my_password :: string
  my_database :: string
  my_minSize :: int
  my_maxSize :: int

definition mysqlConfig :: "config \<Rightarrow> mysql_cfg" where
  "mysqlConfig m = \<lparr>my_host = get m ''mysql.host'' ''127.0.0.1'', my_port = getInt m ''mysql.port'' 3306,
     my_user = get m ''mysql.user'' ''root'', my_password = get m ''mysql.password'' [],
     my_database = get m ''mysql.database'' ''muduo_im'', my_minSize = getInt m ''mysql.pool_min'' 5,
     my_maxSize = getInt m ''mysql.pool_max'' 20\<rparr>"

definition httpPort :: "config \<Rightarrow> 16 word" where
  "httpPort m = word_of_int (getInt m ''server.http_port'' 8080)"

definition wsPort :: "config \<Rightarrow> 16 word" where
  "wsPort m = word_of_int (getInt m ''server.ws_port'' 9090)"

definition jwtSecret :: "environ \<Rightarrow> config \<Rightarrow> string" where
  "jwtSecret env m =
     (case env ''MUDUO_IM_JWT_SECRET'' of
        Some (c # cs) \<Rightarrow> c # cs
      | _ \<Rightarrow>
        (let secret = get m ''server.jwt_secret'' []
         in if secret = [] \<or> secret = ''muduo-im-jwt-secret-key''
            then ''muduo-im-jwt-secret-key-DO-NOT-USE-IN-PRODUCTION'' else secret))"

definition esNodes :: "config \<Rightarrow> string list" where
  "esNodes m = csv_items is_space (get m ''search.es_nodes'' [])"

definition archiveQuery :: "config \<Rightarrow> (string \<times> int) option" where
  "archiveQuery m =
     (let archHost = get m ''archive.query_host'' ''127.0.0.1''; archPort = getInt m ''archive.query_port'' 9300
      in if archHost \<noteq> [] \<and> archPort > 0 then Some (archHost, archPort) else None)"

definition instanceRouter :: "environ \<Rightarrow> config \<Rightarrow> string option" where
  "instanceRouter env m =
     (let instanceId = (case env ''MUDUO_IM_INSTANCE_ID'' of Some (c # cs) \<Rightarrow> c # cs | _ \<Rightarrow> get m ''instance.id'' ''instance-0'')
      in if getInt m ''instance.router_enabled'' 1 > 0 then Some instanceId else None)"

definition kafkaBrokers :: "environ \<Rightarrow> string" where
  "kafkaBrokers env = (case env ''MUDUO_IM_KAFKA_BROKERS'' of Some b \<Rightarrow> b | None \<Rightarrow> ''localhost:9092'')"

definition outboxBrokers :: "environ \<Rightarrow> string option" where
  "outboxBrokers env = (if env ''MUDUO_IM_USE_OUTBOX'' = Some ''1'' then Some (kafkaBrokers env) else None)"

definition pushSubscription :: "environ \<Rightarrow> int \<Rightarrow> (string \<times> string) option" where
  "pushSubscription env pid =
     (if env ''MUDUO_IM_PUSH_CMD_SUB'' = Some ''1''
      then Some (kafkaBrokers env, case env ''MUDUO_IM_PUSH_CMD_GROUP'' of Some g \<Rightarrow> g | None \<Rightarrow> ''chat-pushcmd-'' @ to_string pid)
      else None)"

definition outboxOnly :: "environ \<Rightarrow> bool" where
  "outboxOnly env \<longleftrightarrow> env ''MUDUO_IM_OUTBOX_ONLY'' = Some ''1''"

definition sagaOn :: "environ \<Rightarrow> bool" where
  "sagaOn env = (case env ''MUDUO_IM_SAGA'' of None \<Rightarrow> True | Some e \<Rightarrow> \<not> (e = ''0'' \<or> e = ''false''))"

section \<open>The other processes\<close>

definition env_or :: "environ \<Rightarrow> string \<Rightarrow> string \<Rightarrow> string" where
  "env_or env k d = (case env k of Some v \<Rightarrow> v | None \<Rightarrow> d)"

definition switched_on :: "environ \<Rightarrow> string \<Rightarrow> bool" where
  "switched_on env k = (case env k of None \<Rightarrow> False | Some e \<Rightarrow> e = ''1'' \<or> e = ''true'')"

definition atoi :: "string \<Rightarrow> int" where
  "atoi s = wrap32 (atoll s)"

datatype discovery = ViaEtcd string int string string "string option" | ViaRegistry string | Direct string

text \<open>The arguments of the gateway after its name: a port and the address of a logic instance.\<close>

definition gatewayWsPort :: "environ \<Rightarrow> string list \<Rightarrow> 16 word" where
  "gatewayWsPort env args =
     (case args of a # _ \<Rightarrow> word_of_int (atoi a)
      | [] \<Rightarrow> (case env ''MUDUO_IM_GATEWAY_WS_PORT'' of Some e \<Rightarrow> word_of_int (atoi e) | None \<Rightarrow> 9091))"

definition gatewayDiscovery :: "environ \<Rightarrow> string list \<Rightarrow> discovery" where
  "gatewayDiscovery env args =
     (let logicAddr = (case args of _ # a # _ \<Rightarrow> a | _ \<Rightarrow> env_or env ''MUDUO_IM_LOGIC_ADDR'' ''127.0.0.1:9100'');
          registryAddr = env_or env ''MUDUO_IM_REGISTRY_ADDR'' []
      in if switched_on env ''MUDUO_IM_USE_ETCD''
         then ViaEtcd (env_or env ''MUDUO_IM_ETCD_HOST'' ''127.0.0.1'')
                (case env ''MUDUO_IM_ETCD_PORT'' of Some e \<Rightarrow> atoi e | None \<Rightarrow> 2379) (env_or env ''MUDUO_IM_ETCD_PREFIX'' ''/v3beta'')
                (env_or env ''MUDUO_IM_LOGIC_KEY_PREFIX'' ''services/logic/'') (env ''MUDUO_IM_AZ'')
         else if registryAddr \<noteq> [] then ViaRegistry registryAddr
         else Direct logicAddr)"

definition makeGatewayId :: "environ \<Rightarrow> int \<Rightarrow> string" where
  "makeGatewayId env d = (case env ''MUDUO_IM_GATEWAY_ID'' of Some e \<Rightarrow> e | None \<Rightarrow> ''gw-'' @ to_string d)"

text \<open>The push router: the brokers, the group and, in the transactional mode, the identity of the producer.\<close>

definition pushRouterMode :: "environ \<Rightarrow> string \<times> string \<times> string option" where
  "pushRouterMode env =
     (kafkaBrokers env, env_or env ''MUDUO_IM_GROUP'' ''push-router'',
      if switched_on env ''MUDUO_IM_PUSH_ROUTER_TRANSACTIONAL'' then Some (env_or env ''MUDUO_IM_PUSH_ROUTER_TX_ID'' ''push-router-1'') else None)"

text \<open>The logic service, the persister and the registry; the arguments are those after the name of the program.\<close>

definition logicAddr :: "environ \<Rightarrow> string list \<Rightarrow> string" where
  "logicAddr env args = (case args of a # _ \<Rightarrow> a | [] \<Rightarrow> env_or env ''MUDUO_IM_LOGIC_ADDR'' ''0.0.0.0:9100'')"

definition configFile :: "nat \<Rightarrow> string list \<Rightarrow> string" where
  "configFile pos args = (if pos < length args then args ! pos else ''../config.ini'')"

definition logicMysql :: "config \<Rightarrow> mysql_cfg" where
  "logicMysql m = (mysqlConfig m)\<lparr>my_minSize := getInt m ''mysql.pool_min'' 3, my_maxSize := getInt m ''mysql.pool_max'' 10\<rparr>"

definition persisterMysql :: "config \<Rightarrow> mysql_cfg" where
  "persisterMysql m = (mysqlConfig m)\<lparr>my_minSize := getInt m ''mysql.pool_min'' 3, my_maxSize := getInt m ''mysql.pool_max'' 8\<rparr>"

definition persisterSource :: "environ \<Rightarrow> string \<times> string" where
  "persisterSource env = (kafkaBrokers env, env_or env ''MUDUO_IM_GROUP'' ''persister'')"

definition logicInstanceId :: "environ \<Rightarrow> int \<Rightarrow> string" where
  "logicInstanceId env pid = env_or env ''MUDUO_IM_LOGIC_INSTANCE_ID'' (''logic-'' @ to_string pid)"

definition logicHealthPort :: "environ \<Rightarrow> 16 word" where
  "logicHealthPort env = (case env ''MUDUO_IM_LOGIC_HEALTH_PORT'' of Some e \<Rightarrow> word_of_int (atoi e) | None \<Rightarrow> 9110)"

definition gatewayHealthPort :: "environ \<Rightarrow> 16 word" where
  "gatewayHealthPort env = (case env ''MUDUO_IM_GATEWAY_HEALTH_PORT'' of Some e \<Rightarrow> word_of_int (atoi e) | None \<Rightarrow> 9081)"

definition advertiseHost :: "environ \<Rightarrow> string" where
  "advertiseHost env = env_or env ''MUDUO_IM_LOGIC_ADVERTISE_HOST'' ''127.0.0.1''"

text \<open>Where a logic instance announces itself; the prefix of its keys in etcd is fixed.\<close>

definition logicAnnounces :: "environ \<Rightarrow> discovery option" where
  "logicAnnounces env =
     (let regAddr = env_or env ''MUDUO_IM_REGISTRY_ADDR'' []
      in if switched_on env ''MUDUO_IM_USE_ETCD''
         then Some (ViaEtcd (env_or env ''MUDUO_IM_ETCD_HOST'' ''127.0.0.1'')
                (case env ''MUDUO_IM_ETCD_PORT'' of Some e \<Rightarrow> atoi e | None \<Rightarrow> 2379) (env_or env ''MUDUO_IM_ETCD_PREFIX'' ''/v3beta'')
                ''services/logic/'' (Some (env_or env ''MUDUO_IM_AZ'' [])))
         else if regAddr \<noteq> [] then Some (ViaRegistry regAddr) else None)"

definition registryListen :: "environ \<Rightarrow> string list \<Rightarrow> string" where
  "registryListen env args = (case args of a # _ \<Rightarrow> a | [] \<Rightarrow> env_or env ''MUDUO_IM_REGISTRY_ADDR'' ''0.0.0.0:9200'')"

text \<open>Drain times in milliseconds: the wait of a logic instance, and of a gateway the two waits around closing its sockets.\<close>

definition logicDrain :: "environ \<Rightarrow> int" where
  "logicDrain env = (case env ''MUDUO_IM_DRAIN_GRACE_MS'' of Some e \<Rightarrow> atoi e | None \<Rightarrow> 1500)"

definition gatewayDrain :: "environ \<Rightarrow> int \<times> int" where
  "gatewayDrain env =
     (case env ''MUDUO_IM_LB_DRAIN_MS'' of Some e \<Rightarrow> atoi e | None \<Rightarrow> 7000,
      case env ''MUDUO_IM_DRAIN_GRACE_MS'' of Some e \<Rightarrow> atoi e | None \<Rightarrow> 800)"

section \<open>Reading back\<close>

definition tight :: "(char \<Rightarrow> bool) \<Rightarrow> string \<Rightarrow> bool" where
  "tight blank s \<longleftrightarrow> s = [] \<or> (\<not> blank (hd s) \<and> \<not> blank (last s))"

lemma trim_tight: "tight blank s \<Longrightarrow> trim_by blank s = s"
proof (cases "s = []")
  case False
  assume "tight blank s"
  with False have "\<not> blank (hd s)" "\<not> blank (hd (rev s))" by (simp_all add: tight_def hd_rev)
  with False have "dropWhile blank s = s" "dropWhile blank (rev s) = rev s"
    by (simp_all add: dropWhile_eq_self_iff)
  then show ?thesis by (simp add: trim_by_def)
qed (simp add: trim_by_def)

lemma trim_left: "list_all blank p \<Longrightarrow> trim_by blank (p @ s) = trim_by blank s"
  by (simp add: trim_by_def dropWhile_append2 list_all_iff)

lemma trim_blank: "list_all blank p \<Longrightarrow> trim_by blank p = []"
  using trim_left [of blank p "[]"] by (simp add: trim_by_def)

lemma trim_right: "list_all blank p \<Longrightarrow> trim_by blank (s @ p) = trim_by blank s"
proof (cases "list_all blank s")
  case True
  moreover assume "list_all blank p"
  ultimately show ?thesis using trim_blank [of blank "s @ p"] trim_blank [of blank s] by simp
next
  case False
  then obtain x where x: "x \<in> set s" "\<not> blank x" by (auto simp: list_all_iff)
  moreover assume "list_all blank p"
  then have "dropWhile blank (rev p @ q) = dropWhile blank q" for q
    by (intro dropWhile_append2) (auto simp: list_all_iff)
  ultimately show ?thesis by (simp add: trim_by_def dropWhile_append1 [of x s blank p])
qed

lemma trim_padded: "list_all blank p \<Longrightarrow> list_all blank q \<Longrightarrow> tight blank s \<Longrightarrow> trim_by blank (p @ s @ q) = s"
  by (simp add: trim_left trim_right trim_tight)

text \<open>A line of the documented form: blanks around key and value, perhaps a comment at the end.\<close>

definition is_line :: "string \<Rightarrow> string \<Rightarrow> string \<Rightarrow> bool" where
  "is_line k v line \<longleftrightarrow> (\<exists>a b c d e. line = a @ k @ b @ ''='' @ c @ v @ d @ e \<and>
     list_all is_blank a \<and> list_all is_blank b \<and> list_all is_blank c \<and> list_all is_blank d \<and>
     (e = [] \<or> hd e = CHR ''#'') \<and> CHR 0x0A \<notin> set e)"

definition plain :: "string \<times> string \<Rightarrow> bool" where
  "plain kv \<longleftrightarrow> fst kv \<noteq> [] \<and> tight is_line_blank (fst kv) \<and> tight is_line_blank (snd kv) \<and> CHR ''='' \<notin> set (fst kv) \<and>
     CHR ''#'' \<notin> set (fst kv) \<union> set (snd kv) \<and> CHR 0x0A \<notin> set (fst kv) \<union> set (snd kv)"

lemma blank_facts: "is_blank c \<Longrightarrow> is_line_blank c" "\<not> is_blank (CHR ''='')" "\<not> is_blank (CHR ''#'')" "\<not> is_blank (CHR 0x0A)"
  "\<not> is_line_blank (CHR ''='')"
  by (simp_all add: is_line_blank_def is_blank_def)

lemma blanks_free: "list_all is_blank p \<Longrightarrow> \<not> is_blank c \<Longrightarrow> c \<notin> set p"
  by (auto simp: list_all_iff)

lemma tight_weaker: "tight is_line_blank s \<Longrightarrow> tight is_blank s"
  by (auto simp: tight_def blank_facts(1))

lemma strip_comment_end: "CHR ''#'' \<notin> set s \<Longrightarrow> e = [] \<or> hd e = CHR ''#'' \<Longrightarrow> strip_comment (s @ e) = s"
  using find_char_None_iff [of "CHR ''#''" s] by (cases e) (auto simp: strip_comment_def find_char_append_notin)

lemma config_entry_line:
  assumes "plain (k, v)" "is_line k v line"
  shows "config_entry line = Some (k, v)"
proof -
  from assms(2) obtain a b c d e where l: "line = a @ k @ b @ ''='' @ c @ v @ d @ e"
      and p: "list_all is_blank a" "list_all is_blank b" "list_all is_blank c" "list_all is_blank d" "e = [] \<or> hd e = CHR ''#''"
    unfolding is_line_def by blast
  note blanks = p(1-4) [THEN blanks_free]
  have k: "k \<noteq> []" "tight is_line_blank k" "tight is_line_blank v" "CHR ''='' \<notin> set k" "CHR ''#'' \<notin> set k" "CHR ''#'' \<notin> set v"
    using assms(1) by (simp_all add: plain_def)
  have "strip_comment (((a @ k @ b @ ''='' @ c @ v @ d)) @ e) = a @ k @ b @ ''='' @ c @ v @ d"
    by (rule strip_comment_end) (use k blanks blank_facts p(5) in simp_all)
  then have s: "strip_comment line = a @ k @ b @ ''='' @ c @ v @ d" by (simp add: l)
  have lb: "list_all is_line_blank q" if "list_all is_blank q" for q using that by (auto simp: list_all_iff blank_facts(1))
  define body where "body = (if v = [] then k @ b @ ''='' else k @ b @ ''='' @ c @ v)"
  have "tight is_line_blank body" using k(1-3) blank_facts(5) by (auto simp: body_def tight_def)
  moreover have "strip_comment line = a @ body @ (if v = [] then c @ d else d)" by (simp add: s body_def)
  ultimately have t: "trim_by is_line_blank (strip_comment line) = body"
    using trim_padded [OF lb [OF p(1)], of "if v = [] then c @ d else d" body] lb p(3,4) by simp
  have eq: "find_char (CHR ''='') body = Some (length (k @ b))"
    using find_char_append_notin [of "CHR ''=''" "k @ b"] k(4) blanks(2) [of "CHR ''=''"] blank_facts(2) by (auto simp: body_def)
  have "trim_by is_blank (take (length (k @ b)) body) = k"
    using trim_padded [of is_blank "[]" b k] p(2) tight_weaker [OF k(2)] by (simp add: body_def)
  moreover have "trim_by is_blank (drop (length (k @ b) + 1) body) = v"
    using trim_padded [of is_blank c "[]" v] p(3) tight_weaker [OF k(3)] trim_tight [of is_blank "[]"] by (simp add: body_def tight_def)
  moreover have "body \<noteq> []" using k(1) by (simp add: body_def)
  ultimately show ?thesis by (simp add: config_entry_def t eq Let_def)
qed

lemma line_one_line: "plain (k, v) \<Longrightarrow> is_line k v line \<Longrightarrow> CHR 0x0A \<notin> set line"
  using blanks_free [of _ "CHR 0x0A"] blank_facts(4) unfolding is_line_def plain_def by fastforce



text \<open>
  Tokens are never signed with an empty secret nor with the one of the sample configuration: a
  non-empty environment variable decides alone, and without it the fallback takes the place of both.
\<close>

theorem jwt_secret_choice:
  "jwtSecret env m \<noteq> [] \<and>
   (env ''MUDUO_IM_JWT_SECRET'' = Some s \<and> s \<noteq> [] \<longrightarrow> jwtSecret env m = s) \<and>
   (env ''MUDUO_IM_JWT_SECRET'' \<in> {None, Some []} \<longrightarrow> jwtSecret env m \<noteq> ''muduo-im-jwt-secret-key'')"
  by (auto simp: jwtSecret_def Let_def split: option.splits list.splits)

theorem jwt_secret_choice_witness:
  "jwtSecret [''MUDUO_IM_JWT_SECRET'' \<mapsto> ''s3cret''] [''server.jwt_secret'' \<mapsto> ''x''] = ''s3cret''"
  using jwt_secret_choice [of "[''MUDUO_IM_JWT_SECRET'' \<mapsto> ''s3cret'']" "[''server.jwt_secret'' \<mapsto> ''x'']" "''s3cret''"] by simp

text \<open>
  The list of sentinels in the environment is read only when the file has none: with an entry in the
  file, whatever the environment says, the settings are the same.
\<close>

theorem sentinel_env_loses:
  assumes "get m ''redis.sentinels'' [] \<noteq> []"
  shows "loadRedisConfig d (env(''MUDUO_IM_REDIS_SENTINELS'' \<mapsto> other)) m = loadRedisConfig d env m \<and>
    rc_sentinels (loadRedisConfig d env m) = rc_sentinels d @ csv_items is_blank (get m ''redis.sentinels'' [])"
  using assms by (simp add: loadRedisConfig_def Let_def)

theorem sentinel_env_loses_witness:
  "rc_sentinels (loadRedisConfig \<lparr>rc_host = [], rc_port = 0, rc_password = [], rc_minSize = 0, rc_maxSize = 0, rc_sentinels = [],
      rc_sentinelMaster = []\<rparr> [''MUDUO_IM_REDIS_SENTINELS'' \<mapsto> ''b:2''] [''redis.sentinels'' \<mapsto> ''a:1'']) = [''a:1'']"
  using sentinel_env_loses [of "[''redis.sentinels'' \<mapsto> ''a:1'']" "\<lparr>rc_host = [], rc_port = 0, rc_password = [], rc_minSize = 0, rc_maxSize = 0,
      rc_sentinels = [], rc_sentinelMaster = []\<rparr>" "[''MUDUO_IM_REDIS_SENTINELS'' \<mapsto> ''b:2'']" "''b:2''"]
  by (simp add: get_def csv_items_def segments_last trim_by_def is_blank_def)

text \<open>
  Gateways, logic instances and registry started in the same environment meet: a gateway watches
  where the instances announce themselves, when that is the registry it listens exactly there, and
  with etcd both use the same keys unless the variable for the prefix is set, which only
  gateways read. An instance announces itself nowhere exactly when the gateway has a fixed address.
\<close>

theorem same_environment_meets:
  assumes "env ''MUDUO_IM_LOGIC_KEY_PREFIX'' = None"
  shows "case gatewayDiscovery env [] of
       ViaRegistry a \<Rightarrow> logicAnnounces env = Some (ViaRegistry a) \<and> registryListen env [] = a
     | ViaEtcd h port api pre az \<Rightarrow> \<exists>az'. logicAnnounces env = Some (ViaEtcd h port api pre az')
     | Direct a \<Rightarrow> logicAnnounces env = None"
  using assms by (auto simp: gatewayDiscovery_def logicAnnounces_def registryListen_def env_or_def Let_def split: option.splits)

theorem same_environment_meets_witness:
  "gatewayDiscovery [''MUDUO_IM_REGISTRY_ADDR'' \<mapsto> ''r:9200''] [] = ViaRegistry ''r:9200'' \<and>
   logicAnnounces [''MUDUO_IM_REGISTRY_ADDR'' \<mapsto> ''r:9200''] = Some (ViaRegistry ''r:9200'')"
proof -
  have "gatewayDiscovery [''MUDUO_IM_REGISTRY_ADDR'' \<mapsto> ''r:9200''] [] = ViaRegistry ''r:9200''"
    by (simp add: gatewayDiscovery_def env_or_def switched_on_def)
  with same_environment_meets [of "[''MUDUO_IM_REGISTRY_ADDR'' \<mapsto> ''r:9200'']"] show ?thesis by simp
qed

text \<open>
  A prefix for the keys that is set for the gateways has no effect on the instances: they go on writing
  under the fixed prefix, so that a gateway with another prefix lists none of them.
\<close>

theorem key_prefix_read_by_gateways_only:
  assumes "switched_on env ''MUDUO_IM_USE_ETCD''" "env ''MUDUO_IM_LOGIC_KEY_PREFIX'' = Some pre"
  shows "\<exists>h port api az. gatewayDiscovery env args = ViaEtcd h port api pre az \<and>
    logicAnnounces env = Some (ViaEtcd h port api ''services/logic/'' (Some (env_or env ''MUDUO_IM_AZ'' [])))"
  using assms by (simp add: gatewayDiscovery_def logicAnnounces_def env_or_def Let_def)

end
