(* ===== verification/ESClient.thy ===== *)
theory ESClient
  imports Protocol
begin

text \<open>
  \<^verbatim>\<open>src/src/server/ESClient.h\<close>: the client of the search cluster, which goes round its nodes and
  falls over to the next one. The network is an argument: what a host and port send back to a
  request until they close, or \<open>None\<close> when the socket, the address, the connection or the sending
  fails.
\<close>

type_synonym network = "string \<Rightarrow> 16 word \<Rightarrow> string \<Rightarrow> string option"

record es_response =
  es_success :: bool
  es_status :: int
  es_body :: string

record es_client =
  nodes :: "string list"
  nextIdx :: "64 word"

definition new_es :: "string list \<Rightarrow> es_client" where
  "new_es ns = \<lparr>nodes = ns, nextIdx = 0\<rparr>"

definition no_response :: es_response where
  "no_response = \<lparr>es_success = False, es_status = 0, es_body = []\<rparr>"

section \<open>Paths\<close>

definition upper_hex :: "nat \<Rightarrow> char" where
  "upper_hex d = (if d < 10 then char_of (48 + d) else char_of (55 + d))"

definition unreserved :: "char \<Rightarrow> bool" where
  "unreserved c \<longleftrightarrow> is_alnum c \<or> c \<in> {CHR ''-'', CHR ''_'', CHR ''.'', CHR ''~''}"

definition url_char :: "char \<Rightarrow> string" where
  "url_char c = (if unreserved c then [c] else [CHR ''%'', upper_hex (of_char c div 16), upper_hex (of_char c mod 16)])"

definition urlEncode :: "string \<Rightarrow> string" where
  "urlEncode s = concat (map url_char s)"

section \<open>One node\<close>

definition crlf :: string where
  "crlf = [CHR 0x0D, CHR 0x0A]"

definition http_request :: "string \<Rightarrow> string \<Rightarrow> string \<Rightarrow> string \<Rightarrow> string" where
  "http_request verb path hst content =
     verb @ '' '' @ path @ '' HTTP/1.1'' @ crlf @ ''Host: '' @ hst @ crlf @ ''Content-Type: application/json'' @ crlf @
     ''Content-Length: '' @ to_string (int (length content)) @ crlf @ ''Connection: close'' @ crlf @ crlf @ content"

text \<open>\<^verbatim>\<open>%d\<close>: white space, a sign, the longest run of digits; the rest is what follows it.\<close>

definition scan_int :: "string \<Rightarrow> (int \<times> string) option" where
  "scan_int s = (let (neg, u) = strip_sign (dropWhile is_space s); ds = takeWhile is_digit u
     in if ds = [] then None else Some (wrap32 (atoll s), dropWhile is_digit u))"

definition scan_status :: "string \<Rightarrow> int option" where
  "scan_status line =
     (if starts_with ''HTTP/1.'' line
      then case scan_int (drop 7 line) of
             None \<Rightarrow> None
           | Some (_, rest) \<Rightarrow> map_option fst (scan_int rest)
      else None)"

definition parse_response :: "string \<Rightarrow> es_response" where
  "parse_response raw =
     (case find_str (crlf @ crlf) raw of
        None \<Rightarrow> no_response
      | Some headerEnd \<Rightarrow>
        (let statusLine = (case find_str crlf raw of Some n \<Rightarrow> take n raw | None \<Rightarrow> raw)
         in case scan_status statusLine of
              None \<Rightarrow> no_response
            | Some code \<Rightarrow> \<lparr>es_success = True, es_status = code, es_body = drop (headerEnd + 4) raw\<rparr>))"

definition doRequest :: "network \<Rightarrow> string \<Rightarrow> string \<Rightarrow> string \<Rightarrow> string \<Rightarrow> es_response" where
  "doRequest net verb path content node =
     (case find_char (CHR '':'') node of
        None \<Rightarrow> no_response
      | Some pos \<Rightarrow>
        (let hst = take pos node; port = word_of_int (atoll (drop (pos + 1) node))
         in case net hst port (http_request verb path hst content) of
              None \<Rightarrow> no_response
            | Some raw \<Rightarrow> parse_response raw))"

section \<open>All nodes\<close>

definition usable :: "es_response \<Rightarrow> bool" where
  "usable r \<longleftrightarrow> es_success r \<and> es_status r > 0"

fun try_nodes :: "(string \<Rightarrow> es_response) \<Rightarrow> string list \<Rightarrow> nat \<Rightarrow> nat \<Rightarrow> nat \<Rightarrow> es_response \<Rightarrow> es_response" where
  "try_nodes ask ns startIdx off 0 resp = resp"
| "try_nodes ask ns startIdx off (Suc n) resp =
     (let r = ask (ns ! ((startIdx + off) mod length ns)) in if usable r then r else try_nodes ask ns startIdx (off + 1) n r)"

definition request :: "network \<Rightarrow> string \<Rightarrow> string \<Rightarrow> string \<Rightarrow> es_client \<Rightarrow> es_response \<times> es_client" where
  "request net verb path content s =
     (if nodes s = [] then (no_response, s)
      else (try_nodes (doRequest net verb path content) (nodes s) (unat (nextIdx s) mod length (nodes s)) 0 (length (nodes s)) no_response,
            s\<lparr>nextIdx := nextIdx s + 1\<rparr>))"

definition indexDoc :: "network \<Rightarrow> string \<Rightarrow> string \<Rightarrow> string \<Rightarrow> es_client \<Rightarrow> bool \<times> es_client" where
  "indexDoc net index docId jsonBody s =
     (let (r, s') = request net ''PUT'' (''/'' @ index @ ''/_doc/'' @ urlEncode docId) jsonBody s
      in (es_success r \<and> es_status r \<ge> 200 \<and> es_status r < 300, s'))"

definition deleteDoc :: "network \<Rightarrow> string \<Rightarrow> string \<Rightarrow> es_client \<Rightarrow> bool \<times> es_client" where
  "deleteDoc net index docId s =
     (let (r, s') = request net ''DELETE'' (''/'' @ index @ ''/_doc/'' @ urlEncode docId) [] s
      in (es_success r \<and> (es_status r < 300 \<or> es_status r = 404), s'))"

definition es_search :: "network \<Rightarrow> string \<Rightarrow> string \<Rightarrow> es_client \<Rightarrow> string \<times> es_client" where
  "es_search net index queryJson s =
     (let (r, s') = request net ''POST'' (''/'' @ index @ ''/_search'') queryJson s
      in (if \<not> es_success r \<or> es_status r \<ge> 300 then [] else es_body r, s'))"

definition healthy :: "network \<Rightarrow> es_client \<Rightarrow> bool \<times> es_client" where
  "healthy net s = (let (r, s') = request net ''GET'' ''/_cluster/health'' [] s in (es_success r \<and> es_status r = 200, s'))"

section \<open>Failing over\<close>

lemma try_nodes_rotate:
  assumes "ns \<noteq> []" "off + n \<le> length ns"
  shows "try_nodes ask ns start off n resp =
    (case find usable (map ask (take n (drop off (rotate start ns)))) of
       Some r \<Rightarrow> r | None \<Rightarrow> (if n = 0 then resp else ask (rotate start ns ! (off + n - 1))))"
  using assms(2)
proof (induction n arbitrary: off resp)
  case (Suc n)
  have nth: "rotate start ns ! off = ns ! ((start + off) mod length ns)" using Suc.prems assms(1) by (simp add: nth_rotate)
  have drop: "drop off (rotate start ns) = rotate start ns ! off # drop (Suc off) (rotate start ns)"
    using Suc.prems by (intro Cons_nth_drop_Suc [symmetric]) simp
  have nth': "ask (ns ! ((start + off) mod length ns)) = ask (rotate start ns ! off)" by (simp add: nth)
  show ?case using Suc.IH [of "Suc off" "ask (rotate start ns ! off)"] Suc.prems
    by (auto simp: drop nth' Let_def split: option.splits)
qed simp

lemma find_Some_cut: "find P xs = Some x \<Longrightarrow> \<exists>ys zs. xs = ys @ x # zs \<and> (\<forall>y \<in> set ys. \<not> P y) \<and> P x"
  by (induction xs) (auto split: if_splits intro: exI [of _ "[]"], metis append_Cons set_ConsD)

text \<open>
  A request to the search cluster asks the nodes once each, in the order of the list from the next one
  on, and stops at the first that gives an HTTP status: it succeeds whenever one node
  answers, with the answer of the first such node, and when none does the answer is not a success
  with a status. The next request starts one node further.
\<close>

theorem es_request_fails_over:
  assumes "nodes s \<noteq> []" "start = unat (nextIdx s) mod length (nodes s)" "ask = doRequest net verb path content"
  shows "\<exists>r. request net verb path content s = (r, s\<lparr>nextIdx := nextIdx s + 1\<rparr>) \<and>
    (if \<exists>n \<in> set (nodes s). usable (ask n)
     then \<exists>before n after. rotate start (nodes s) = before @ n # after \<and> (\<forall>m \<in> set before. \<not> usable (ask m)) \<and> usable (ask n) \<and> r = ask n
     else \<not> usable r)"
proof -
  let ?ns = "rotate start (nodes s)"
  let ?r = "try_nodes ask (nodes s) start 0 (length (nodes s)) no_response"
  have q: "request net verb path content s = (?r, s\<lparr>nextIdx := nextIdx s + 1\<rparr>)" using assms by (simp add: request_def)
  have ne: "?ns \<noteq> []" "length ?ns = length (nodes s)" using assms(1) by simp_all
  have r: "?r = (case find usable (map ask ?ns) of Some r \<Rightarrow> r | None \<Rightarrow> ask (?ns ! (length (nodes s) - 1)))"
    using try_nodes_rotate [OF assms(1), of 0 "length (nodes s)" ask start no_response] assms(1) by (auto split: option.splits)
  show ?thesis
  proof (cases "\<exists>n \<in> set (nodes s). usable (ask n)")
    case True
    then have "find usable (map ask ?ns) \<noteq> None" by (auto simp: find_None_iff)
    then obtain x where x: "find usable (map ask ?ns) = Some x" by blast
    from find_Some_cut [OF this] obtain ys zs where c: "map ask ?ns = ys @ x # zs" "\<forall>y \<in> set ys. \<not> usable y" "usable x" by blast
    from c(1) obtain before n after where d: "?ns = before @ n # after" "ys = map ask before" "x = ask n"
      by (auto simp: map_eq_append_conv)
    from c d have "\<exists>before n after. ?ns = before @ n # after \<and> (\<forall>m \<in> set before. \<not> usable (ask m)) \<and> usable (ask n) \<and> x = ask n"
      by (intro exI [of _ before] exI [of _ n] exI [of _ after]) simp
    with q r x True show ?thesis by simp
  next
    case False
    then have "find usable (map ask ?ns) = None" by (auto simp: find_None_iff)
    moreover have "?ns ! (length (nodes s) - 1) \<in> set (nodes s)" using ne by (metis diff_less length_greater_0_conv nth_mem set_rotate zero_less_one)
    ultimately show ?thesis using q r False by auto
  qed
qed

definition demo_net :: network where
  "demo_net hst port req = (if hst = ''b'' then Some (''HTTP/1.1 200 OK'' @ crlf @ crlf @ ''ok'') else None)"

theorem es_request_fails_over_witness:
  "fst (request demo_net ''GET'' ''/'' [] (new_es [''a:1'', ''b:2''])) = \<lparr>es_success = True, es_status = 200, es_body = ''ok''\<rparr>"
proof -
  let ?ask = "doRequest demo_net ''GET'' ''/'' []"
  have a: "?ask ''a:1'' = no_response" "?ask ''b:2'' = \<lparr>es_success = True, es_status = 200, es_body = ''ok''\<rparr>" by code_simp+
  obtain r where r: "request demo_net ''GET'' ''/'' [] (new_es [''a:1'', ''b:2'']) = (r, (new_es [''a:1'', ''b:2''])\<lparr>nextIdx := 1\<rparr>)"
      "\<exists>before n after. [''a:1'', ''b:2''] = before @ n # after \<and> usable (?ask n) \<and> r = ?ask n"
    using es_request_fails_over [OF _ refl refl, of "new_es [''a:1'', ''b:2'']" demo_net "''GET''" "''/''" "[]"] a
    by (auto simp: new_es_def usable_def no_response_def)
  then obtain n where n: "n \<in> {''a:1'', ''b:2''}" "usable (?ask n)" "r = ?ask n"
    by (metis in_set_conv_decomp list.set(1) list.simps(15))
  then have "r = ?ask ''b:2''" using a(1) by (auto simp: usable_def no_response_def)
  with r(1) a(2) show ?thesis by simp
qed

section \<open>Document names\<close>

text \<open>The reader of an encoded path segment.\<close>

definition hex_val :: "char \<Rightarrow> nat" where
  "hex_val c = (let n = of_char c in if n < 58 then n - 48 else n - 55)"

fun urlDecode :: "string \<Rightarrow> string" where
  "urlDecode (x # a # b # s) =
     (if x = CHR ''%'' then char_of (16 * hex_val a + hex_val b) # urlDecode s else x # urlDecode (a # b # s))"
| "urlDecode s = s"

lemma hex_val_upper: "d < 16 \<Longrightarrow> hex_val (upper_hex d) = d"
  by (simp add: hex_val_def upper_hex_def Let_def)

lemma not_percent: "unreserved c \<Longrightarrow> c \<noteq> CHR ''%''"
  by (auto simp: unreserved_def is_alnum_def is_alpha_def is_digit_def Let_def)

lemma urlDecode_plain: "c \<noteq> CHR ''%'' \<Longrightarrow> urlDecode (c # s) = c # urlDecode s"
  by (cases s rule: urlDecode.cases) auto

lemma urlDecode_encode: "urlDecode (urlEncode s) = s"
proof (induction s)
  case (Cons c s)
  show ?case
  proof (cases "unreserved c")
    case True
    with Cons show ?thesis by (simp add: urlEncode_def url_char_def urlDecode_plain not_percent)
  next
    case False
    have "(of_char c :: nat) div 16 < 16" by (rule less_mult_imp_div_less) simp
    then have "hex_val (upper_hex (of_char c div 16)) = of_char c div 16" "hex_val (upper_hex (of_char c mod 16)) = of_char c mod 16"
      by (auto intro!: hex_val_upper)
    then have "char_of (16 * hex_val (upper_hex (of_char c div 16)) + hex_val (upper_hex (of_char c mod 16))) = c"
      by (simp add: mult.commute)
    with False Cons show ?thesis by (simp add: urlEncode_def url_char_def)
  qed
qed (simp add: urlEncode_def)

lemma upper_hex_unreserved: "d < 16 \<Longrightarrow> unreserved (upper_hex d)"
  by (auto simp: upper_hex_def unreserved_def is_alnum_def is_alpha_def is_digit_def Let_def)

text \<open>
  The name of a document cannot leave its place in the path: an encoded name has only letters, digits
  and the characters \<^verbatim>\<open>-_.~%\<close>, so neither a slash nor a blank nor a line end, and it can be read back, so
  that different documents have different paths.
\<close>

theorem urlEncode_safe:
  "(\<forall>c \<in> set (urlEncode s). unreserved c \<or> c = CHR ''%'') \<and> CHR ''/'' \<notin> set (urlEncode s) \<and> CHR '' '' \<notin> set (urlEncode s) \<and>
   CHR 0x0D \<notin> set (urlEncode s) \<and> CHR 0x0A \<notin> set (urlEncode s) \<and> urlDecode (urlEncode s) = s"
proof -
  have "unreserved x \<or> x = CHR ''%''" if "x \<in> set (url_char c)" for x c
    using that upper_hex_unreserved [of "of_char c div 16"] upper_hex_unreserved [of "of_char c mod 16"]
    by (auto simp: url_char_def div_less_iff_less_mult split: if_splits)
  then have ok: "\<forall>c \<in> set (urlEncode s). unreserved c \<or> c = CHR ''%''" by (auto simp: urlEncode_def)
  have bad: "\<not> unreserved (CHR ''/'')" "\<not> unreserved (CHR '' '')" "\<not> unreserved (CHR 0x0D)" "\<not> unreserved (CHR 0x0A)"
    by (simp_all add: unreserved_def is_alnum_def is_alpha_def is_digit_def Let_def)
  from ok bad show ?thesis by (auto simp: urlDecode_encode)
qed

theorem urlEncode_safe_witness:
  "urlDecode (urlEncode ''a/b'') = ''a/b'' \<and> urlEncode ''a/b'' = ''a%2Fb''"
proof -
  have "urlEncode ''a/b'' = ''a%2Fb''" by code_simp
  with urlEncode_safe [of "''a/b''"] show ?thesis by simp
qed

section \<open>The archive service\<close>

text \<open>
  \<^verbatim>\<open>ChatServer::httpGetSync\<close>, the request to the archive query service. \<open>None\<close> of the network is a socket, an
  address or a connection that fails; the port is cut to 16 bits by \<^verbatim>\<open>htons\<close>.
\<close>

definition get_request :: "string \<Rightarrow> string \<Rightarrow> string" where
  "get_request hst path = ''GET '' @ path @ '' HTTP/1.1'' @ crlf @ ''Host: '' @ hst @ crlf @ ''Connection: close'' @ crlf @ crlf"

definition httpGetSync :: "network \<Rightarrow> string \<Rightarrow> int \<Rightarrow> string \<Rightarrow> string" where
  "httpGetSync net hst port path =
     (case net hst (word_of_int port) (get_request hst path) of None \<Rightarrow> []
      | Some raw \<Rightarrow> (case find_str (crlf @ crlf) raw of None \<Rightarrow> [] | Some headerEnd \<Rightarrow> drop (headerEnd + 4) raw))"

lemma find_str_first:
  "starts_with p (drop n s) \<Longrightarrow> n \<le> length s \<Longrightarrow> p \<noteq> [] \<Longrightarrow> (\<And>m. m < n \<Longrightarrow> \<not> starts_with p (drop m s)) \<Longrightarrow> find_str p s = Some n"
proof (induction s arbitrary: n)
  case Nil
  then show ?case by (cases p) simp_all
next
  case (Cons x s)
  show ?case
  proof (cases n)
    case (Suc k)
    have "\<not> starts_with p (x # s)" using Cons.prems(4) [of 0] Suc by simp
    moreover have "find_str p s = Some k"
      by (rule Cons.IH) (use Cons.prems Suc Cons.prems(4) [of "Suc _"] in simp_all)
    ultimately show ?thesis by (simp add: Suc)
  qed (use Cons.prems(1) in simp)
qed

text \<open>
  The archive request gives what follows the first empty line of the answer, whatever the lines before say:
  the body of an error page is taken for a page of messages, and the status plays no role.
\<close>

theorem archive_status_ignored:
  assumes "net hst (word_of_int port) (get_request hst path) = Some (header @ crlf @ crlf @ content)"
    and "\<And>m. m < length header \<Longrightarrow> \<not> starts_with (crlf @ crlf) (drop m (header @ crlf @ crlf @ content))"
  shows "httpGetSync net hst port path = content"
proof -
  have "find_str (crlf @ crlf) (header @ crlf @ crlf @ content) = Some (length header)"
    by (rule find_str_first) (use assms(2) in \<open>simp_all add: crlf_def\<close>)
  with assms(1) show ?thesis by (simp add: httpGetSync_def crlf_def)
qed

theorem archive_status_ignored_witness:
  "httpGetSync (\<lambda>h p r. Some (''HTTP/1.1 500 no'' @ crlf @ crlf @ ''no db'')) ''h'' 9300 ''/'' = ''no db''"
proof (rule archive_status_ignored [where header = "''HTTP/1.1 500 no''"])
  show "(\<lambda>h p r. Some (''HTTP/1.1 500 no'' @ crlf @ crlf @ ''no db'')) ''h'' (word_of_int 9300) (get_request ''h'' ''/'') =
      Some (''HTTP/1.1 500 no'' @ crlf @ crlf @ ''no db'')" by (rule refl)
next
  fix m assume "m < length ''HTTP/1.1 500 no''"
  then have "m \<in> set [0..<15]" by simp
  moreover have "\<forall>m \<in> set [0..<15]. \<not> starts_with (crlf @ crlf) (drop m (''HTTP/1.1 500 no'' @ crlf @ crlf @ ''no db''))" by code_simp
  ultimately show "\<not> starts_with (crlf @ crlf) (drop m (''HTTP/1.1 500 no'' @ crlf @ crlf @ ''no db''))" by blast
qed

end
