(* ===== verification/Logging.thy ===== *)
theory Logging
  imports Protocol
begin

text \<open>
  \<^verbatim>\<open>src/src/common/Logging.h\<close>: the lines of the structured log. The time stamp, formatted by the C
  library, is an argument; the line is what is handed to the logger.
\<close>

definition escape_char :: "char \<Rightarrow> string" where
  "escape_char c =
     (if c = CHR 0x22 then [CHR 0x5C, CHR 0x22] else if c = CHR 0x5C then [CHR 0x5C, CHR 0x5C]
      else if c = CHR 0x0A then [CHR 0x5C, CHR ''n''] else if c = CHR 0x0D then [CHR 0x5C, CHR ''r'']
      else if c = CHR 0x09 then [CHR 0x5C, CHR ''t'']
      else if of_char c < (32 :: nat) then [CHR 0x5C, CHR ''u''] @ hex_pad 4 (of_char c) else [c])"

definition escapeJson :: "string \<Rightarrow> string" where
  "escapeJson s = concat (map escape_char s)"

definition quoted :: "string \<Rightarrow> string" where
  "quoted s = [CHR 0x22] @ s @ [CHR 0x22]"

definition logKV :: "string \<Rightarrow> string \<Rightarrow> string \<Rightarrow> string \<Rightarrow> string" where
  "logKV ts levelText event detail =
     ''{'' @ quoted ''ts'' @ '':'' @ quoted ts @ '','' @ quoted ''level'' @ '':'' @ quoted levelText @ '','' @
     quoted ''event'' @ '':'' @ quoted (escapeJson event) @
     (if detail \<noteq> [] then '','' @ quoted ''detail'' @ '':'' @ quoted (escapeJson detail) else []) @ ''}''"

section \<open>Reading back\<close>

text \<open>The reader of a JSON string, up to its closing quote: the text and what follows.\<close>

definition lower_val :: "char \<Rightarrow> nat" where
  "lower_val c = (let n = of_char c in if n < 58 then n - 48 else n - 87)"

fun read_string :: "string \<Rightarrow> (string \<times> string) option" where
  "read_string [] = None"
| "read_string (c # s) =
     (if c = CHR 0x22 then Some ([], s)
      else if of_char c < (32 :: nat) then None
      else if c = CHR 0x5C
      then (case s of
              e # s' \<Rightarrow>
                if e = CHR 0x22 \<or> e = CHR 0x5C then map_option (apfst (Cons e)) (read_string s')
                else if e = CHR ''n'' then map_option (apfst (Cons (CHR 0x0A))) (read_string s')
                else if e = CHR ''r'' then map_option (apfst (Cons (CHR 0x0D))) (read_string s')
                else if e = CHR ''t'' then map_option (apfst (Cons (CHR 0x09))) (read_string s')
                else if e = CHR ''u''
                then (case s' of
                        h1 # h2 # h3 # h4 # s'' \<Rightarrow>
                          map_option (apfst (Cons (char_of (4096 * lower_val h1 + 256 * lower_val h2 + 16 * lower_val h3 + lower_val h4))))
                            (read_string s'')
                      | _ \<Rightarrow> None)
                else None
            | [] \<Rightarrow> None)
      else map_option (apfst (Cons c)) (read_string s))"

lemma lower_val_hex: "d < 16 \<Longrightarrow> lower_val (hex_digit d) = d"
  by (simp add: lower_val_def hex_digit_def Let_def)

lemma read_escaped_char: "read_string (escape_char c @ s) = map_option (apfst (Cons c)) (read_string s)"
proof (cases "of_char c < (32 :: nat) \<and> c \<noteq> CHR 0x0A \<and> c \<noteq> CHR 0x0D \<and> c \<noteq> CHR 0x09")
  case True
  define n where "n = (of_char c :: nat)"
  have n: "n < 32" "char_of n = c" using True by (simp_all add: n_def)
  have ne: "c \<noteq> CHR 0x22" "c \<noteq> CHR 0x5C" using True by auto
  have h: "hex_pad 4 n = [hex_digit 0, hex_digit 0, hex_digit (n div 16), hex_digit (n mod 16)]"
  proof -
    have "n div 16 div 16 = 0" "n div 16 mod 16 = n div 16" "(4 :: nat) = Suc (Suc (Suc (Suc 0)))" using n(1) by simp_all
    then show ?thesis by (simp only: hex_pad.simps append_Nil append.simps div_0 mod_0)
  qed
  have "n div 16 < 16" using n(1) by simp
  with n have "char_of (4096 * lower_val (hex_digit 0) + 256 * lower_val (hex_digit 0) + 16 * lower_val (hex_digit (n div 16)) +
      lower_val (hex_digit (n mod 16))) = c"
    by (simp add: lower_val_hex)
  with True ne h show ?thesis by (simp add: escape_char_def n_def)
next
  case False
  then show ?thesis by (auto simp: escape_char_def)
qed

lemma read_escaped: "read_string (escapeJson s @ CHR 0x22 # r) = Some (s, r)"
  by (induction s) (simp_all add: escapeJson_def read_escaped_char)

lemma escape_printable: "x \<in> set (escape_char c) \<Longrightarrow> 32 \<le> (of_char x :: nat)"
proof -
  have h: "32 \<le> (of_char (hex_digit d) :: nat)" if "d < 16" for d using that by (simp add: hex_digit_def)
  have p: "32 \<le> (of_char y :: nat)" if "y \<in> set (hex_pad n v)" for y n v
    using that by (induction n arbitrary: v) (auto intro: h)
  show "x \<in> set (escape_char c) \<Longrightarrow> 32 \<le> (of_char x :: nat)"
    by (auto simp: escape_char_def split: if_splits dest: p)
qed

text \<open>
  A log entry is one line and cannot be forged from the text it reports: whatever event and detail
  contain, quotes, backslashes, line ends, the entry has no control character, and a JSON reader that
  has come to the value of the event reads exactly the event, and then the detail.
\<close>

theorem log_entry_reads_back:
  assumes "\<forall>c \<in> set ts \<union> set lv. 32 \<le> (of_char c :: nat)"
  shows "(\<forall>c \<in> set (logKV ts lv event detail). 32 \<le> (of_char c :: nat)) \<and>
    (\<exists>pre rest. logKV ts lv event detail = pre @ quoted ''event'' @ '':'' @ [CHR 0x22] @ rest \<and>
      read_string rest = Some (event,
        if detail = [] then ''}'' else '','' @ quoted ''detail'' @ '':'' @ [CHR 0x22] @ escapeJson detail @ [CHR 0x22] @ ''}'') \<and>
      read_string (escapeJson detail @ [CHR 0x22] @ ''}'') = Some (detail, ''}''))"
proof -
  have e: "32 \<le> (of_char c :: nat)" if "c \<in> set (escapeJson s)" for c s
    using that escape_printable by (auto simp: escapeJson_def)
  have "\<forall>c \<in> set (logKV ts lv event detail). 32 \<le> (of_char c :: nat)"
    using assms e by (auto simp: logKV_def quoted_def)
  moreover have "logKV ts lv event detail = (''{'' @ quoted ''ts'' @ '':'' @ quoted ts @ '','' @ quoted ''level'' @ '':'' @ quoted lv @ '','') @
      quoted ''event'' @ '':'' @ [CHR 0x22] @ (escapeJson event @ CHR 0x22 #
        (if detail = [] then ''}'' else '','' @ quoted ''detail'' @ '':'' @ [CHR 0x22] @ escapeJson detail @ [CHR 0x22] @ ''}''))"
    by (simp add: logKV_def quoted_def)
  ultimately show ?thesis using read_escaped [of detail "''}''"] read_escaped [of event] by (metis append_Cons append_Nil)
qed

theorem log_entry_reads_back_witness:
  "\<exists>pre rest. logKV ''t'' ''info'' [CHR 0x22, CHR 0x0A] [] = pre @ quoted ''event'' @ '':'' @ [CHR 0x22] @ rest \<and>
     read_string rest = Some ([CHR 0x22, CHR 0x0A], ''}'')"
  using log_entry_reads_back [of "''t''" "''info''" "[CHR 0x22, CHR 0x0A]" "[]"] by fastforce

end
