(* ===== verification/Spec2Isabelle.thy ===== *)
theory Spec2Isabelle
  imports GatewayReg EtcdPool GroupChat Users Messages RelayLoop Shutdown SubscribeLoop Moderation HttpApi MsgQueue Integrity PushRouter Gateway Upload AhoTime Settings ESClient Logging
begin

text \<open>
  \<^bold>\<open>muduo-im: a chat server and its satellites.\<close>

  The program is a set of processes. The chat server (\<^verbatim>\<open>src/src/server/\<close>) answers HTTP requests and
  WebSocket messages from its services over MySQL and Redis. A message goes to the sessions of the
  recipient in the same process, to other instances over Redis publications, or through an outbox
  table to Kafka, from where the persister and the push router
  (\<^verbatim>\<open>src/src/persister/\<close>, \<^verbatim>\<open>src/src/push_router/\<close>) take it on. In the split deployment gateways
  (\<^verbatim>\<open>src/src/gateway/\<close>) hold the sockets and call logic instances (\<^verbatim>\<open>src/src/logic/\<close>), which they find
  through a registry (\<^verbatim>\<open>src/src/registry/\<close>) or etcd and choose by a consistent hash ring.

  \<^bold>\<open>How the code is modelled.\<close> A function is a function, a class its record with one definition per
  method, and every early return and exception a branch. Code outside the repository is an
  argument of what uses it: the JSON library (\<open>jlib\<close>), HMAC and password hashing, the hash of the ring,
  circuit breakers, the RPC transport, Redis (\<open>redis_ops\<close>), the Kafka client (\<open>kafka_ops\<close>), the network of the
  search client, the multipart parser, clocks, random and Snowflake numbers. What is relied on is
  stated as the laws of a locale (\<open>expiring_store\<close>, \<open>list_store\<close>, \<open>transactional_log\<close>, \<open>snapshot_diff\<close>) or as a named
  hypothesis, and a witness instantiates it. Every call to a pool or a database can fail: an operation
  takes an \<open>outcome\<close>, a function from its calls to success or failure, and the theorems quantify over all
  of them. MySQL is the record of tables of \<open>Database\<close> with the keys of \<^verbatim>\<open>sql/init.sql\<close>, and transactions
  that roll back. Words keep their width where the code depends on it (identifiers, routing keys, Base64
  sextets, ports, the counter of the search client); other integers are unbounded with the range checks
  of \<^verbatim>\<open>stoll\<close> and \<^verbatim>\<open>stoi\<close> written out. Threads meet in step relations or in sequences of events.

  \<^bold>\<open>Foundations.\<close>
  \<^item> \<open>Prelude\<close>: C++ string functions, number parsing, association lists, and the machines: \<open>guarded_machine\<close>,
    \<open>inv_machine\<close> (an invariant kept by every step holds after every run), \<open>refining_machine\<close> (a run stands
    for a run of a simpler machine). \<open>Json\<close>: JSON values and the typed accessors. \<open>Redis\<close>: the
    commands, their laws, an instance. \<open>Database\<close>: tables, statements, transactions, \<open>atomic_op\<close>.
  \<^item> \<open>Base64Url\<close>, \<open>Jwt\<close> (\<^verbatim>\<open>common/JWT.h\<close>): tokens round trip and cannot be accepted unsigned.
    \<open>Protocol\<close> (\<^verbatim>\<open>common/Protocol.h\<close>): identifiers, messages, passwords. \<open>Settings\<close> (\<^verbatim>\<open>common/Config.h\<close>,
    \<^verbatim>\<open>common/RedisConfigLoader.h\<close>, \<^verbatim>\<open>server/main.cpp\<close> and the variables of the other processes): the
    file format reads back, which source wins. \<open>Logging\<close> (\<^verbatim>\<open>common/Logging.h\<close>): one line per entry.

  \<^bold>\<open>Services of the chat server.\<close>
  \<^item> \<open>Users\<close>, \<open>Friends\<close>, \<open>Messages\<close>, \<open>Devices\<close> (\<^verbatim>\<open>UserService.h\<close>, \<^verbatim>\<open>FriendService.h\<close>, \<^verbatim>\<open>MessageService.h\<close>;
    \<^verbatim>\<open>DeviceService.h\<close>, \<^verbatim>\<open>PushService.h\<close> and \<^verbatim>\<open>AuditService.h\<close>): each operation under every pattern of failing
    calls, refusals that change nothing, and the table invariants.
  \<^item> \<open>Saga\<close>, \<open>GroupChat\<close> (\<^verbatim>\<open>SagaCoordinator.h\<close>, \<^verbatim>\<open>GroupService.h\<close>): forward and compensation loops; group
    creation is all or nothing; only owners administer.
  \<^item> \<open>AhoCorasick\<close>, \<open>AhoTime\<close>, \<open>Moderation\<close> (\<^verbatim>\<open>moderation/\<close>): the automaton equals the naive search, in
    whatever order its hash maps are walked, and follows at most one failure link per character.
    Its pointer-chasing loops carry fuel, the number of nodes for a walk and for the breadth-first
    search; the theorems show that this always suffices, so that nothing depends on it.
  \<^item> \<open>Online\<close>, \<open>SubscribeLoop\<close> (\<^verbatim>\<open>OnlineManager.h\<close>, \<^verbatim>\<open>InstanceRouter.h\<close>): the session table refines a map
    from devices to sessions; presence keys outlive the renewal rounds; the thread that reads from other
    instances and the one that stops it, with every access to the pointer they share as a step.
  \<^item> \<open>Outbox\<close>, \<open>RelayLoop\<close> (\<^verbatim>\<open>OutboxService.h\<close>): several relays, crashes and reports as a step relation;
    the thread of a relay with its condition variable, which loses no wake-up and can be stopped.
    \<open>Shutdown\<close> (\<^verbatim>\<open>shutdown\<close> of \<^verbatim>\<open>ChatServer.h\<close>): no delivery report reaches a destroyed outbox service.
  \<^item> \<open>ESClient\<close> (\<^verbatim>\<open>ESClient.h\<close>): fail-over over the search nodes; paths that cannot be broken out of;
    beside it \<^verbatim>\<open>httpGetSync\<close> of \<^verbatim>\<open>ChatServer.h\<close>, the request to the archive service.

  \<^bold>\<open>The chat server itself\<close> (\<^verbatim>\<open>ChatServer.h\<close>).
  \<^item> \<open>HttpApi\<close> (with \<^verbatim>\<open>JwtRevocationService.h\<close>): authentication and every JSON route. \<open>Upload\<close>: whole and
    chunked uploads, health. \<open>MsgQueue\<close>: the write-behind queue. \<open>Chat\<close>, \<open>ChatSafety\<close>: handshake,
    connections and all message types. \<open>Integrity\<close>: all of it as one machine; the property of this theory
    says that every history of requests, connections, messages and timers keeps the integrity of the
    whole state.

  \<^bold>\<open>The other processes.\<close>
  \<^item> \<open>Pipeline\<close>, \<open>PushRouter\<close> (\<^verbatim>\<open>persister/main.cpp\<close>, \<^verbatim>\<open>push_router/main.cpp\<close>, the subscription of the
    server): the way through the outbox delivers what the direct way does; a message is stored once; the
    transactional loop pushes at most once always, exactly once without faults, and loses an aborted batch.
  \<^item> \<open>HashRing\<close>, \<open>LogicClient\<close>, \<open>LogicPool\<close>, \<open>Gateway\<close> (\<^verbatim>\<open>gateway/\<close>): the ring moves few keys, one message
    costs at most two calls, a message arrives at exactly the sessions of the other gateway.
  \<^item> \<open>GatewayReg\<close>, \<open>LogicService\<close>, \<open>LogicReg\<close> (\<^verbatim>\<open>logic/\<close>): streams with their watchdog, the calls, the
    announcement loops. \<open>Registry\<close> (\<^verbatim>\<open>registry/\<close>): leases, collection, and watch streams that
    mirror the table. \<open>Discovery\<close> joins it to the pool of a gateway: the clients are those of the
    registered instances, except that what leaves during an outage of the stream is kept.
    \<open>EtcdPool\<close> does the same with the listings of etcd and what the instances write there; the client
    of etcd enters through the laws of \<open>snapshot_diff\<close>.

  Beside the correctness properties some theorems show where the code does not do what it means to: a
  message refused as busy is lost when it is sent again, a revoked token still opens a socket, the end
  of an old connection drops a new one, a flush can drop messages, a collected instance never returns, an
  instance that registers while a gateway starts is never used, a reader goes on with freed memory.

  \<^bold>\<open>Not modelled\<close>: the construction of servers, pools and threads and the signal handling of the \<^verbatim>\<open>main\<close>
  functions (\<^verbatim>\<open>registry/main.cpp\<close> has little else), metrics and log output, static files, the socket calls
  of \<^verbatim>\<open>ESClient.h\<close> and of the archive query, and the formatting of times.
  Interleavings inside one handler are modelled where a property is about them (the flush, the outbox, the
  watch streams); otherwise a handler runs as a whole.
\<close>

text \<open>
  C1. Whatever requests, connections, messages, closes and timer runs arrive in whatever order
  at a server started on an empty database, with every pattern of failing calls, its state keeps
  its integrity: users have distinct numbers, friendship is mutual and irreflexive, requests,
  groups and memberships refer to existing users and groups, message identifiers are unique in
  either table, nobody reacts twice the same way, the session table has one entry per user and
  device and there is one row per registered device.
\<close>

theorem server_keeps_integrity:
  "let st = foldl (event_step (with_sagas le C)) (new_chat redis inst r) evs
   in social_ok (sdb (srv st)) \<and> msgs_ok (sdb (srv st)) \<and> om_ok (om (srv st)) \<and> devices_ok (devs (srv st))"
  using server.run_inv [where es = evs and le = le and C = C and redis = redis and inst = inst and r = r]
  by (simp add: chat_ok_def server_inv_def data_ok_def Let_def)

end
